(* ===== verification/Go_Base.thy ===== *)
theory Go_Base
  imports
    Main
    "HOL-Library.AList"
    "HOL-Library.Word"
    "HOL-Library.Sublist"
    "HOL-Library.List_Lexorder"
    "HOL-Library.Char_ord"
begin

text \<open>
  The prelude of the development: the parts of Go and of its standard library that the modelled
  packages use, and the generic facts the component theories share.

  \<^item> Strings are byte strings (\<open>char list\<close>). The operations of Go's package \<open>strings\<close> that fold case or
    trim white space are given on ASCII, the alphabet of Kubernetes group, resource and namespace
    names.
  \<^item> A Go map is an association list. The list order stands for the (unspecified) iteration order
    of the map, so a theorem about all lists is a theorem about all iteration orders.
  \<^item> A \<open>time.Time\<close> is an integer number of nanoseconds, the zero time being 0.
  \<^item> Two interfaces are stated as locales here: \<open>keyed_store\<close> (a finite map) and \<open>state_machine\<close>
    (a step function with an invariant); the component theories interpret them.
\<close>

named_theorems go_simps \<open>equations of the Go string and time operations\<close>

section \<open>Strings\<close>

definition HasPrefix :: "string \<Rightarrow> string \<Rightarrow> bool" where
  "HasPrefix s p = prefix p s"

definition HasSuffix :: "string \<Rightarrow> string \<Rightarrow> bool" where
  "HasSuffix s p = suffix p s"

text \<open>White space as \<open>strings.TrimSpace\<close> sees it on ASCII.\<close>

definition is_space :: "char \<Rightarrow> bool" where
  "is_space c = (of_char c \<in> {9, 10, 11, 12, 13, 32 :: nat})"

definition TrimSpace :: "string \<Rightarrow> string" where
  "TrimSpace s = rev (dropWhile is_space (rev (dropWhile is_space s)))"

definition lower_char :: "char \<Rightarrow> char" where
  "lower_char c = (if 65 \<le> (of_char c :: nat) \<and> (of_char c :: nat) \<le> 90
                   then char_of (of_char c + 32 :: nat) else c)"

definition ToLower :: "string \<Rightarrow> string" where
  "ToLower s = map lower_char s"

definition EqualFold :: "string \<Rightarrow> string \<Rightarrow> bool" where
  "EqualFold s t = (ToLower s = ToLower t)"

text \<open>\<open>strings.Split\<close> for a separator of one byte: always at least one part.\<close>

fun Split :: "char \<Rightarrow> string \<Rightarrow> string list" where
  "Split sep [] = [[]]"
| "Split sep (c # cs) =
     (if c = sep then [] # Split sep cs
      else case Split sep cs of
             [] \<Rightarrow> [[c]]
           | p # ps \<Rightarrow> (c # p) # ps)"

fun Join :: "string \<Rightarrow> string list \<Rightarrow> string" where
  "Join sep [] = []"
| "Join sep [p] = p"
| "Join sep (p # q # ps) = p @ sep @ Join sep (q # ps)"

lemma Split_not_Nil [simp]: "Split sep s \<noteq> []"
  by (cases s) (auto split: list.splits)

lemma Split_no_sep: "sep \<notin> set s \<Longrightarrow> Split sep s = [s]"
  by (induction s) auto

lemma Split_append_sep:
  "sep \<notin> set p \<Longrightarrow> Split sep (p @ sep # s) = p # Split sep s"
  by (induction p) auto

lemma Split_Join:
  assumes "ps \<noteq> []" and "\<forall>p \<in> set ps. sep \<notin> set p"
  shows "Split sep (Join [sep] ps) = ps"
  using assms
proof (induction ps rule: induct_list012)
  case (3 p q ps)
  then show ?case by (simp add: Split_append_sep)
qed (auto simp: Split_no_sep)

lemma Split_parts_no_sep: "p \<in> set (Split sep s) \<Longrightarrow> sep \<notin> set p"
proof (induction s arbitrary: p)
  case (Cons c s)
  then show ?case
    by (cases "Split sep s") (auto split: if_splits)
qed simp

lemma Split_parts_subset: "p \<in> set (Split sep s) \<Longrightarrow> set p \<subseteq> set s"
proof (induction s arbitrary: p)
  case (Cons c s)
  then show ?case
    by (cases "Split sep s") (fastforce split: if_splits)+
qed simp

lemma Join_inject:
  assumes "ps \<noteq> []" and "qs \<noteq> []"
    and "\<forall>p \<in> set ps. sep \<notin> set p" and "\<forall>q \<in> set qs. sep \<notin> set q"
  shows "Join [sep] ps = Join [sep] qs \<longleftrightarrow> ps = qs"
  using Split_Join [of ps sep] Split_Join [of qs sep] assms by metis

lemma Join_eq_Nil: "Join [c] ps = [] \<longleftrightarrow> ps = [] \<or> ps = [[]]"
  by (cases "([c], ps)" rule: Join.cases) auto

subsection \<open>Decimal printing\<close>

text \<open>The verb \<open>%d\<close> of package \<open>fmt\<close> on a non-negative number.\<close>

definition digit_char :: "nat \<Rightarrow> char" where
  "digit_char d = char_of (48 + d)"

fun Itoa :: "nat \<Rightarrow> string" where
  "Itoa n = (if n < 10 then [digit_char n] else Itoa (n div 10) @ [digit_char (n mod 10)])"

declare Itoa.simps [simp del]

lemma Itoa_digits: "c \<in> set (Itoa n) \<Longrightarrow> \<exists>d < 10. c = digit_char d"
proof (induction n rule: Itoa.induct)
  case (1 n)
  show ?case
  proof (cases "n < 10")
    case True
    with "1.prems" show ?thesis by (simp add: Itoa.simps [of n]) blast
  next
    case False
    with "1.prems" have "c \<in> set (Itoa (n div 10)) \<or> c = digit_char (n mod 10)"
      by (auto simp: Itoa.simps [of n])
    then show ?thesis
    proof
      assume "c = digit_char (n mod 10)"
      then show ?thesis by (intro exI [of _ "n mod 10"]) simp
    qed (rule "1.IH" [OF False])
  qed
qed

lemma Itoa_no_char:
  assumes "of_char c < (48 :: nat) \<or> 58 \<le> (of_char c :: nat)"
  shows "c \<notin> set (Itoa n)"
proof
  assume "c \<in> set (Itoa n)"
  then obtain d :: nat where "d < 10" "c = char_of (48 + d)" using Itoa_digits by (auto simp: digit_char_def)
  with assms show False by simp
qed

subsection \<open>Trimming and folding\<close>

lemma lower_char_cases:
  "lower_char c = c \<or> (65 \<le> (of_char c :: nat) \<and> (of_char c :: nat) \<le> 90
     \<and> (of_char (lower_char c) :: nat) = of_char c + 32)"
  by (auto simp: lower_char_def)

lemma is_space_lower_char [simp]: "is_space (lower_char c) = is_space c"
  using lower_char_cases [of c] by (auto simp: is_space_def)

lemma lower_char_idem [simp]: "lower_char (lower_char c) = lower_char c"
  by (auto simp: lower_char_def)

lemma ToLower_idem [simp]: "ToLower (ToLower s) = ToLower s"
  by (simp add: ToLower_def)

lemma dropWhile_space_ToLower:
  "dropWhile is_space (map lower_char s) = map lower_char (dropWhile is_space s)"
  by (induction s) auto

lemma TrimSpace_ToLower: "TrimSpace (ToLower s) = ToLower (TrimSpace s)"
  by (simp add: TrimSpace_def ToLower_def dropWhile_space_ToLower rev_map)

lemma hd_TrimSpace: "TrimSpace s \<noteq> [] \<Longrightarrow> \<not> is_space (hd (TrimSpace s))"
proof -
  define t where "t = dropWhile is_space s"
  assume "TrimSpace s \<noteq> []"
  then have ne: "dropWhile is_space (rev t) \<noteq> []" by (simp add: TrimSpace_def t_def)
  obtain u where u: "rev t = u @ dropWhile is_space (rev t)"
    using takeWhile_dropWhile_id by metis
  then have "t = rev (dropWhile is_space (rev t)) @ rev u"
    by (metis rev_append rev_rev_ident)
  then have "hd (rev (dropWhile is_space (rev t))) = hd t"
    using ne by (metis hd_append2 rev_is_Nil_conv)
  moreover have "t \<noteq> []" using ne by auto
  then have "\<not> is_space (hd t)" unfolding t_def by (rule hd_dropWhile)
  ultimately show ?thesis by (simp add: TrimSpace_def t_def)
qed

lemma last_TrimSpace: "TrimSpace s \<noteq> [] \<Longrightarrow> \<not> is_space (last (TrimSpace s))"
  by (simp add: TrimSpace_def last_rev hd_dropWhile)

lemma TrimSpace_id:
  assumes "s = [] \<or> (\<not> is_space (hd s) \<and> \<not> is_space (last s))"
  shows "TrimSpace s = s"
proof (cases s)
  case (Cons c cs)
  with assms have h: "\<not> is_space (hd s)" and l: "\<not> is_space (hd (rev s))"
    unfolding hd_rev by auto
  have "dropWhile is_space s = s" using h Cons by simp
  moreover have "dropWhile is_space (rev s) = rev s"
    using l Cons by (cases "rev s") auto
  ultimately show ?thesis by (simp add: TrimSpace_def)
qed (simp add: TrimSpace_def)

lemma TrimSpace_idem [simp]: "TrimSpace (TrimSpace s) = TrimSpace s"
  using hd_TrimSpace last_TrimSpace by (intro TrimSpace_id) blast

lemma set_TrimSpace: "set (TrimSpace s) \<subseteq> set s"
proof
  fix x assume "x \<in> set (TrimSpace s)"
  then have "x \<in> set (rev (dropWhile is_space s))"
    using set_dropWhileD [of x is_space "rev (dropWhile is_space s)"]
    by (auto simp: TrimSpace_def)
  then show "x \<in> set s" by (auto dest: set_dropWhileD)
qed

lemma set_ToLower: "set (ToLower s) = lower_char ` set s"
  by (simp add: ToLower_def)

lemma lower_char_eq_nonletter:
  assumes "of_char d < (65 :: nat)"
  shows "lower_char c = d \<longleftrightarrow> c = d"
  using assms lower_char_cases [of c] by (auto simp: lower_char_def)


section \<open>Paths\<close>

text \<open>
  \<open>path.Clean\<close>: drop empty and \<open>.\<close> segments, let \<open>..\<close> remove the segment before it. The
  accumulator is the stack of kept segments, innermost first.
\<close>

fun clean_segments :: "bool \<Rightarrow> string list \<Rightarrow> string list \<Rightarrow> string list" where
  "clean_segments rooted acc [] = rev acc"
| "clean_segments rooted acc (seg # segs) =
     (if seg = [] \<or> seg = ''.'' then clean_segments rooted acc segs
      else if seg = ''..'' then
        (case acc of
           [] \<Rightarrow> clean_segments rooted (if rooted then [] else [''..'']) segs
         | seg1 # rest \<Rightarrow>
             if seg1 = ''..'' then clean_segments rooted (''..'' # acc) segs
             else clean_segments rooted rest segs)
      else clean_segments rooted (seg # acc) segs)"

definition Clean :: "string \<Rightarrow> string" where
  "Clean p =
     (let rooted = HasPrefix p ''/'';
          segs = clean_segments rooted [] (Split CHR ''/'' p)
      in if rooted then ''/'' @ Join ''/'' segs
         else if segs = [] then ''.''
         else Join ''/'' segs)"

text \<open>The segments that survive cleaning name real path components.\<close>

lemma clean_segments_ok:
  assumes "[] \<notin> set acc" and "''.'' \<notin> set acc"
  shows "[] \<notin> set (clean_segments rooted acc segs) \<and> ''.'' \<notin> set (clean_segments rooted acc segs)"
  using assms
proof (induction rooted acc segs rule: clean_segments.induct)
  case (2 rooted acc seg segs)
  then show ?case by (cases acc) auto
qed auto

lemma clean_segments_subset:
  "set (clean_segments rooted acc segs) \<subseteq> set acc \<union> set segs"
proof (induction rooted acc segs rule: clean_segments.induct)
  case (2 rooted acc seg segs)
  then show ?case by (cases acc) (auto split: if_splits)
qed auto

lemma clean_segments_plain:
  assumes "\<forall>s \<in> set segs. s \<noteq> [] \<and> s \<noteq> ''.'' \<and> s \<noteq> ''..''"
  shows "clean_segments rooted acc segs = rev acc @ segs"
  using assms by (induction rooted acc segs rule: clean_segments.induct) auto

text \<open>No \<open>..\<close> survives under a root, nor where the input has none.\<close>

lemma clean_segments_no_dotdot:
  assumes "''..'' \<notin> set acc" and "rooted \<or> ''..'' \<notin> set segs"
  shows "''..'' \<notin> set (clean_segments rooted acc segs)"
  using assms
proof (induction rooted acc segs rule: clean_segments.induct)
  case (2 rooted acc seg segs)
  then show ?case by (cases acc) auto
qed auto

section \<open>Times\<close>

type_synonym gotime = int
type_synonym duration = int

abbreviation (input) Second :: duration where
  "Second \<equiv> 1000000000"

definition max_duration :: duration where
  "max_duration = 2 ^ 63 - 1"

definition min_duration :: duration where
  "min_duration = - (2 ^ 63)"

definition time_IsZero :: "gotime \<Rightarrow> bool" where
  "time_IsZero t = (t = 0)"

text \<open>\<open>t.Sub(u)\<close> saturates at the range of a signed 64-bit duration.\<close>

definition time_Sub :: "gotime \<Rightarrow> gotime \<Rightarrow> duration" where
  "time_Sub t u = max min_duration (min max_duration (t - u))"

lemma time_Sub_ge:
  assumes "min_duration < d" and "d \<le> max_duration"
  shows "d \<le> time_Sub t u \<longleftrightarrow> d \<le> t - u"
  using assms by (auto simp: time_Sub_def)

lemma time_Sub_gt:
  assumes "min_duration \<le> d" and "d < max_duration"
  shows "d < time_Sub t u \<longleftrightarrow> d < t - u"
  using assms by (auto simp: time_Sub_def)

lemma time_Sub_self [simp]: "time_Sub t t = 0"
  by (simp add: time_Sub_def min_duration_def max_duration_def)

section \<open>Finite maps\<close>

type_synonym ('k, 'v) gomap = "('k \<times> 'v) list"

abbreviation map_get :: "('k, 'v) gomap \<Rightarrow> 'k \<Rightarrow> 'v option" where
  "map_get m k \<equiv> map_of m k"

abbreviation map_put :: "'k \<Rightarrow> 'v \<Rightarrow> ('k, 'v) gomap \<Rightarrow> ('k, 'v) gomap" where
  "map_put k v m \<equiv> AList.update k v m"

abbreviation map_del :: "'k \<Rightarrow> ('k, 'v) gomap \<Rightarrow> ('k, 'v) gomap" where
  "map_del k m \<equiv> AList.delete k m"

text \<open>A Go map holds every key once.\<close>

abbreviation map_wf :: "('k, 'v) gomap \<Rightarrow> bool" where
  "map_wf m \<equiv> distinct (map fst m)"

text \<open>
  The interface the components rely on. Its laws are what a Go map promises; what follows from
  them about a map that is built in a loop is proved once, inside the locale.
\<close>

locale keyed_store =
  fixes lookup :: "'m \<Rightarrow> 'k \<Rightarrow> 'v option"
    and put :: "'k \<Rightarrow> 'v \<Rightarrow> 'm \<Rightarrow> 'm"
    and del :: "'k \<Rightarrow> 'm \<Rightarrow> 'm"
    and empty :: "'m"
  assumes lookup_empty: "lookup empty k = None"
    and lookup_put: "lookup (put k v m) k' = (if k' = k then Some v else lookup m k')"
    and lookup_del: "lookup (del k m) k' = (if k' = k then None else lookup m k')"
begin

text \<open>A loop that stores \<open>g x\<close> under \<open>f x\<close> leaves, for each key, the value of its last writer.\<close>

lemma lookup_fold_put:
  "lookup (fold (\<lambda>x. put (f x) (g x)) xs m) k =
     (case find (\<lambda>x. f x = k) (rev xs) of None \<Rightarrow> lookup m k | Some x \<Rightarrow> Some (g x))"
  by (induction xs rule: rev_induct) (simp_all add: lookup_put)

lemma lookup_fold_put_None:
  "lookup (fold (\<lambda>x. put (f x) (g x)) xs empty) k = None \<longleftrightarrow> k \<notin> f ` set xs"
proof -
  have "find (\<lambda>x. f x = k) (rev xs) = None \<longleftrightarrow> k \<notin> f ` set xs"
    by (auto simp: find_None_iff)
  then show ?thesis
    by (cases "find (\<lambda>x. f x = k) (rev xs)") (simp_all add: lookup_fold_put lookup_empty)
qed

lemma lookup_fold_put_Some:
  assumes "lookup (fold (\<lambda>x. put (f x) (g x)) xs empty) k = Some v"
  shows "\<exists>x \<in> set xs. f x = k \<and> g x = v"
proof (cases "find (\<lambda>x. f x = k) (rev xs)")
  case None
  with assms show ?thesis by (simp add: lookup_fold_put lookup_empty)
next
  case (Some x)
  then have "x \<in> set xs" and "f x = k" by (auto simp: find_Some_iff rev_nth)
  with Some assms show ?thesis by (auto simp: lookup_fold_put)
qed

lemma lookup_fold_del:
  "lookup (fold del ks m) k = (if k \<in> set ks then None else lookup m k)"
  by (induction ks arbitrary: m) (auto simp: lookup_del)

end

interpretation al: keyed_store map_of AList.update AList.delete "[]"
  by unfold_locales (auto simp: update_conv' delete_conv')

lemma map_wf_put [simp]: "map_wf m \<Longrightarrow> map_wf (map_put k v m)"
  by (rule distinct_update)

lemma map_wf_del [simp]: "map_wf m \<Longrightarrow> map_wf (map_del k m)"
  by (rule distinct_delete)

lemma map_wf_fold_put: "map_wf m \<Longrightarrow> map_wf (fold (\<lambda>x. map_put (f x) (g x)) xs m)"
  by (induction xs arbitrary: m) auto

lemma set_map_del: "set (map_del k m) = {p \<in> set m. fst p \<noteq> k}"
  by (auto simp: AList.delete_eq)

lemma set_map_put:
  assumes "map_wf m"
  shows "set (map_put k v m) = insert (k, v) {p \<in> set m. fst p \<noteq> k}"
proof -
  have "(a, b) \<in> set (map_put k v m) \<longleftrightarrow> (a, b) = (k, v) \<or> (a, b) \<in> set m \<and> a \<noteq> k" for a b
    using map_of_eq_Some_iff [OF assms, of a b]
      map_of_eq_Some_iff [OF map_wf_put [OF assms, of k v], of a b]
    by (auto simp: al.lookup_put split: if_splits)
  then show ?thesis by auto
qed

lemma find_SomeD: "find P xs = Some x \<Longrightarrow> x \<in> set xs \<and> P x"
  by (auto simp: find_Some_iff)

lemma singleton_mem: "xs = [x] \<Longrightarrow> x \<in> set xs"
  by simp

section \<open>State machines\<close>

text \<open>
  A component that is driven by a sequence of calls: every call keeps the invariant, hence so does
  every run.
\<close>

locale state_machine =
  fixes step :: "'s \<Rightarrow> 'e \<Rightarrow> 's"
    and inv :: "'s \<Rightarrow> bool"
    and start :: "'s"
  assumes inv_start: "inv start"
    and inv_step: "inv s \<Longrightarrow> inv (step s e)"
begin

lemma inv_run_from: "inv s \<Longrightarrow> inv (foldl step s es)"
  by (induction es arbitrary: s) (auto intro: inv_step)

lemma inv_run: "inv (foldl step start es)"
  by (rule inv_run_from [OF inv_start])

end

text \<open>
  A component that implements an abstract machine: the abstraction commutes with every call made
  in a well-formed state, hence with every run.
\<close>

locale machine_refinement = state_machine step inv start
  for step :: "'s \<Rightarrow> 'e \<Rightarrow> 's" and inv and start +
  fixes astep :: "'a \<Rightarrow> 'e \<Rightarrow> 'a"
    and abs :: "'s \<Rightarrow> 'a"
  assumes abs_step: "inv s \<Longrightarrow> abs (step s e) = astep (abs s) e"
begin

lemma abs_run_from: "inv s \<Longrightarrow> abs (foldl step s es) = foldl astep (abs s) es"
  by (induction es arbitrary: s) (auto simp: abs_step inv_step)

lemma abs_run: "abs (foldl step start es) = foldl astep (abs start) es"
  by (rule abs_run_from [OF inv_start])

end

end
