(* ===== verification/Resource_Identity.thy ===== *)
theory Resource_Identity
  imports Go_Base
begin

text \<open>
  Package \<open>internal/types\<close>: the identity of a watched object (\<open>ResourceIdentifier\<close>), the reference
  that names a GitTarget (\<open>ResourceReference\<close>) and the policy that says which resource types take
  the encrypted write path (\<open>SensitiveResourcePolicy\<close>).

  The lemmas show that the two string identities of an object are injective on slash-free parts
  (the full key, and the versionless path up to the version), that a reference's key decides
  \<open>Equal\<close>, and that a policy survives being printed and parsed again.
\<close>

section \<open>Resource identifiers\<close>

record ResourceIdentifier =
  ri_Group :: string
  ri_Version :: string
  ri_Resource :: string
  ri_Namespace :: string
  ri_Name :: string

definition NewResourceIdentifier ::
  "string \<Rightarrow> string \<Rightarrow> string \<Rightarrow> string \<Rightarrow> string \<Rightarrow> ResourceIdentifier" where
  "NewResourceIdentifier grp version resource namespace name =
     \<lparr> ri_Group = grp, ri_Version = version, ri_Resource = resource,
       ri_Namespace = namespace, ri_Name = name \<rparr>"

definition Key :: "ResourceIdentifier \<Rightarrow> string" where
  "Key r =
     (if ri_Namespace r \<noteq> []
      then Join ''/'' [ri_Group r, ri_Version r, ri_Resource r, ri_Namespace r, ri_Name r]
      else Join ''/'' [ri_Group r, ri_Version r, ri_Resource r, ri_Name r])"

definition ToGitPath :: "ResourceIdentifier \<Rightarrow> string" where
  "ToGitPath r =
     (let scope = (if ri_Namespace r = [] then ''_cluster'' else ri_Namespace r)
      in if ri_Group r = []
         then Join ''/'' [scope, ri_Resource r, ri_Name r @ ''.yaml'']
         else Join ''/'' [scope, ri_Group r, ri_Resource r, ri_Name r @ ''.yaml''])"

definition IsClusterScoped :: "ResourceIdentifier \<Rightarrow> bool" where
  "IsClusterScoped r = (ri_Namespace r = [])"

definition ri_String :: "ResourceIdentifier \<Rightarrow> string" where
  "ri_String r =
     (if ri_Group r = []
      then Join ''/'' [ri_Version r, ri_Resource r, ri_Name r]
      else Join ''/'' [ri_Group r, ri_Version r, ri_Resource r, ri_Name r])"

text \<open>
  The parts of an identifier that the API server accepts hold no slash, and no namespace is called
  \<open>_cluster\<close> (a DNS-1123 label has no underscore).
\<close>

definition ri_wf :: "ResourceIdentifier \<Rightarrow> bool" where
  "ri_wf r =
     (CHR ''/'' \<notin> set (ri_Group r) \<and> CHR ''/'' \<notin> set (ri_Version r)
      \<and> CHR ''/'' \<notin> set (ri_Resource r) \<and> CHR ''/'' \<notin> set (ri_Namespace r)
      \<and> CHR ''/'' \<notin> set (ri_Name r) \<and> ri_Namespace r \<noteq> ''_cluster'')"

section \<open>Resource references\<close>

record ResourceReference =
  rr_Name :: string
  rr_Namespace :: string
  rr_UID :: string

definition NewResourceReference :: "string \<Rightarrow> string \<Rightarrow> ResourceReference" where
  "NewResourceReference name namespace =
     \<lparr> rr_Name = name, rr_Namespace = namespace, rr_UID = [] \<rparr>"

definition WithUID :: "ResourceReference \<Rightarrow> string \<Rightarrow> ResourceReference" where
  "WithUID r uid = r \<lparr> rr_UID := uid \<rparr>"

definition rr_String :: "ResourceReference \<Rightarrow> string" where
  "rr_String r = Join ''/'' [rr_Namespace r, rr_Name r]"

definition rr_Key :: "ResourceReference \<Rightarrow> string" where
  "rr_Key r = rr_String r"

definition rr_Equal :: "ResourceReference \<Rightarrow> ResourceReference \<Rightarrow> bool" where
  "rr_Equal r other = (rr_Name r = rr_Name other \<and> rr_Namespace r = rr_Namespace other)"

definition rr_IsZero :: "ResourceReference \<Rightarrow> bool" where
  "rr_IsZero r = (rr_Name r = [] \<and> rr_Namespace r = [])"

section \<open>Sensitive resource types\<close>

record sensitiveResourceKey =
  srk_group :: string
  srk_resource :: string

record SensitiveResourcePolicy =
  additional :: "(sensitiveResourceKey, unit) gomap"

datatype sensitive_entry_error =
  InvalidSensitiveResource string string

definition normalizeSensitiveResourceKey :: "string \<Rightarrow> string \<Rightarrow> sensitiveResourceKey" where
  "normalizeSensitiveResourceKey grp resource =
     \<lparr> srk_group = ToLower (TrimSpace grp), srk_resource = ToLower (TrimSpace resource) \<rparr>"

definition parseSensitiveResourceEntry ::
  "string \<Rightarrow> sensitive_entry_error + sensitiveResourceKey" where
  "parseSensitiveResourceEntry entry =
     (let trimmed = TrimSpace entry in
      if trimmed = [] then Inl (InvalidSensitiveResource entry ''entry is empty'')
      else
        (case Split CHR ''/'' trimmed of
           [p] \<Rightarrow>
             (let key = normalizeSensitiveResourceKey [] p in
              if srk_resource key = []
              then Inl (InvalidSensitiveResource entry ''resource is empty'')
              else Inr key)
         | [p, q] \<Rightarrow>
             (let key = normalizeSensitiveResourceKey p q in
              if srk_group key = []
              then Inl (InvalidSensitiveResource entry ''group is empty'')
              else if srk_resource key = []
              then Inl (InvalidSensitiveResource entry ''resource is empty'')
              else Inr key)
         | _ \<Rightarrow> Inl (InvalidSensitiveResource entry ''expected resource or group/resource'')))"

text \<open>The loop of \<open>ParseSensitiveResourcePolicy\<close> over the comma-separated entries.\<close>

fun parse_entries ::
  "(sensitiveResourceKey, unit) gomap \<Rightarrow> string list
     \<Rightarrow> sensitive_entry_error + (sensitiveResourceKey, unit) gomap" where
  "parse_entries m [] = Inr m"
| "parse_entries m (entry # entries) =
     (case parseSensitiveResourceEntry entry of
        Inl e \<Rightarrow> Inl e
      | Inr key \<Rightarrow>
          if srk_group key = [] \<and> srk_resource key = ''secrets'' then parse_entries m entries
          else parse_entries (map_put key () m) entries)"

definition ParseSensitiveResourcePolicy ::
  "string \<Rightarrow> sensitive_entry_error + SensitiveResourcePolicy" where
  "ParseSensitiveResourcePolicy flag =
     (if TrimSpace flag = [] then Inr \<lparr> additional = [] \<rparr>
      else case parse_entries [] (Split CHR '','' flag) of
             Inl e \<Rightarrow> Inl e
           | Inr m \<Rightarrow> Inr \<lparr> additional = m \<rparr>)"

definition IsSensitive :: "SensitiveResourcePolicy \<Rightarrow> string \<Rightarrow> string \<Rightarrow> bool" where
  "IsSensitive p grp resource =
     (let key = normalizeSensitiveResourceKey grp resource in
      if srk_group key = [] \<and> srk_resource key = ''secrets'' then True
      else map_get (additional p) key \<noteq> None)"

definition formatSensitiveResourceEntry :: "sensitiveResourceKey \<Rightarrow> string" where
  "formatSensitiveResourceEntry key =
     (if srk_group key = [] then srk_resource key
      else srk_group key @ ''/'' @ srk_resource key)"

definition Entries :: "SensitiveResourcePolicy \<Rightarrow> string list" where
  "Entries p = sort (''secrets'' # map (formatSensitiveResourceEntry \<circ> fst) (additional p))"

text \<open>
  The keys a parsed policy holds: normalised, with a resource, free of the two separators, and
  never the built-in core Secrets.
\<close>

definition key_wf :: "sensitiveResourceKey \<Rightarrow> bool" where
  "key_wf k =
     (normalizeSensitiveResourceKey (srk_group k) (srk_resource k) = k
      \<and> srk_resource k \<noteq> []
      \<and> set (srk_group k) \<inter> {CHR ''/'', CHR '',''} = {}
      \<and> set (srk_resource k) \<inter> {CHR ''/'', CHR '',''} = {})"

definition policy_wf :: "SensitiveResourcePolicy \<Rightarrow> bool" where
  "policy_wf p =
     (map_wf (additional p)
      \<and> (\<forall>k \<in> fst ` set (additional p).
            key_wf k \<and> \<not> (srk_group k = [] \<and> srk_resource k = ''secrets'')))"

section \<open>Identity lemmas\<close>

lemma slash_free_yaml: "CHR ''/'' \<notin> set (n @ ''.yaml'') \<longleftrightarrow> CHR ''/'' \<notin> set n"
  by simp

lemma rr_Equal_refl: "rr_Equal r r"
  by (simp add: rr_Equal_def)

lemma rr_Equal_WithUID: "rr_Equal (WithUID r u) r' = rr_Equal r r'"
  by (simp add: rr_Equal_def WithUID_def)

text \<open>
  the full key is an identity. Two identifiers whose parts hold no slash have the same key only
  when every part agrees, although a cluster-scoped key drops its namespace segment.
\<close>

theorem Key_injective:
  assumes "ri_wf r" and "ri_wf r'"
  shows "Key r = Key r' \<longleftrightarrow> r = r'"
proof -
  let ?ps = "\<lambda>r. if ri_Namespace r \<noteq> []
    then [ri_Group r, ri_Version r, ri_Resource r, ri_Namespace r, ri_Name r]
    else [ri_Group r, ri_Version r, ri_Resource r, ri_Name r]"
  have "Key r = Join [CHR ''/''] (?ps r)" and "Key r' = Join [CHR ''/''] (?ps r')"
    by (auto simp: Key_def simp del: Join.simps)
  moreover have "Join [CHR ''/''] (?ps r) = Join [CHR ''/''] (?ps r') \<longleftrightarrow> ?ps r = ?ps r'"
    using assms by (intro Join_inject) (auto simp: ri_wf_def)
  ultimately show ?thesis
    by (auto split: if_splits intro: ResourceIdentifier.equality)
qed

text \<open>
  the Git path is the durable identity. Two well-formed identifiers share their path exactly
  when they agree on everything but the API version, so a version bump moves no file and no two
  different objects are ever written to one file.
\<close>

theorem ToGitPath_identity:
  assumes "ri_wf r" and "ri_wf r'"
  shows "ToGitPath r = ToGitPath r' \<longleftrightarrow> r \<lparr> ri_Version := v \<rparr> = r' \<lparr> ri_Version := v \<rparr>"
proof -
  let ?scope = "\<lambda>r. if ri_Namespace r = [] then ''_cluster'' else ri_Namespace r"
  let ?ps = "\<lambda>r. if ri_Group r = [] then [?scope r, ri_Resource r, ri_Name r @ ''.yaml'']
    else [?scope r, ri_Group r, ri_Resource r, ri_Name r @ ''.yaml'']"
  have path: "ToGitPath r = Join [CHR ''/''] (?ps r)" for r
    by (simp add: ToGitPath_def Let_def del: Join.simps)
  have "Join [CHR ''/''] (?ps r) = Join [CHR ''/''] (?ps r') \<longleftrightarrow> ?ps r = ?ps r'"
    using assms by (intro Join_inject) (auto simp: ri_wf_def split: if_splits)
  moreover have "?scope r = ?scope r' \<longleftrightarrow> ri_Namespace r = ri_Namespace r'"
    using assms by (auto simp: ri_wf_def)
  ultimately show ?thesis
    unfolding path by (cases r; cases r') (auto split: if_splits)
qed

section \<open>Policy lemmas\<close>

abbreviation builtin :: "sensitiveResourceKey \<Rightarrow> bool" where
  "builtin k \<equiv> srk_group k = [] \<and> srk_resource k = ''secrets''"

lemma normalize_idem:
  "normalizeSensitiveResourceKey (srk_group (normalizeSensitiveResourceKey g r))
     (srk_resource (normalizeSensitiveResourceKey g r)) = normalizeSensitiveResourceKey g r"
  by (simp add: normalizeSensitiveResourceKey_def TrimSpace_ToLower)

lemma set_normalized:
  assumes "of_char d < (65 :: nat)" and "d \<notin> set s"
  shows "d \<notin> set (ToLower (TrimSpace s))"
proof
  assume "d \<in> set (ToLower (TrimSpace s))"
  then obtain c where "c \<in> set (TrimSpace s)" and "lower_char c = d"
    by (auto simp: set_ToLower)
  then show False
    using lower_char_eq_nonletter [OF assms(1), of c] set_TrimSpace [of s] assms(2) by auto
qed

lemma normalize_key_wf:
  assumes "normalizeSensitiveResourceKey g r = k" and "srk_resource k \<noteq> []"
    and "set g \<inter> {CHR ''/'', CHR '',''} = {}" and "set r \<inter> {CHR ''/'', CHR '',''} = {}"
  shows "key_wf k"
proof -
  have "d \<notin> set (srk_group k) \<and> d \<notin> set (srk_resource k)" if "d \<in> {CHR ''/'', CHR '',''}" for d
    using assms(1,3,4) that set_normalized [of d g] set_normalized [of d r]
    by (auto simp: normalizeSensitiveResourceKey_def)
  then show ?thesis
    using assms(1,2) normalize_idem [of g r] by (auto simp: key_wf_def)
qed

lemma parse_entry_Inr_cases:
  assumes "parseSensitiveResourceEntry e = Inr k"
  obtains
    p where "Split CHR ''/'' (TrimSpace e) = [p]" and "k = normalizeSensitiveResourceKey [] p"
      and "srk_resource k \<noteq> []"
  | p q where "Split CHR ''/'' (TrimSpace e) = [p, q]" and "k = normalizeSensitiveResourceKey p q"
      and "srk_group k \<noteq> []" and "srk_resource k \<noteq> []"
  using assms
  by (auto simp: parseSensitiveResourceEntry_def Let_def split: if_splits list.splits)

lemma parse_entry_wf:
  assumes "parseSensitiveResourceEntry e = Inr k" and "CHR '','' \<notin> set e"
  shows "key_wf k"
proof -
  have part: "set p \<inter> {CHR ''/'', CHR '',''} = {}" if "p \<in> set (Split CHR ''/'' (TrimSpace e))" for p
    using that Split_parts_no_sep [OF that] Split_parts_subset [OF that] set_TrimSpace [of e] assms(2)
    by auto
  from assms(1) show ?thesis
  proof (cases rule: parse_entry_Inr_cases)
    case (1 p)
    then show ?thesis using part by (intro normalize_key_wf [of "[]" p]) auto
  next
    case (2 p q)
    then show ?thesis using part by (intro normalize_key_wf [of p q]) auto
  qed
qed

lemma TrimSpace_format:
  assumes "key_wf k"
  shows "TrimSpace (formatSensitiveResourceEntry k) = formatSensitiveResourceEntry k"
proof -
  have norm: "k = normalizeSensitiveResourceKey (srk_group k) (srk_resource k)"
    using assms by (simp add: key_wf_def)
  have g: "TrimSpace (srk_group k) = srk_group k"
    by (subst (1 2) norm) (simp add: normalizeSensitiveResourceKey_def TrimSpace_ToLower)
  have r: "TrimSpace (srk_resource k) = srk_resource k"
    by (subst (1 2) norm) (simp add: normalizeSensitiveResourceKey_def TrimSpace_ToLower)
  have ne: "srk_resource k \<noteq> []" using assms by (simp add: key_wf_def)
  have "\<not> is_space (last (srk_resource k))" and "\<not> is_space (hd (srk_resource k))"
    using last_TrimSpace [of "srk_resource k"] hd_TrimSpace [of "srk_resource k"] r ne by auto
  moreover have "srk_group k \<noteq> [] \<Longrightarrow> \<not> is_space (hd (srk_group k))"
    using hd_TrimSpace [of "srk_group k"] g by auto
  ultimately show ?thesis
    using ne by (intro TrimSpace_id) (auto simp: formatSensitiveResourceEntry_def)
qed

lemma format_not_Nil: "key_wf k \<Longrightarrow> formatSensitiveResourceEntry k \<noteq> []"
  by (simp add: key_wf_def formatSensitiveResourceEntry_def)

lemma parse_format:
  assumes "key_wf k"
  shows "parseSensitiveResourceEntry (formatSensitiveResourceEntry k) = Inr k"
proof -
  have slash: "CHR ''/'' \<notin> set (srk_group k)" "CHR ''/'' \<notin> set (srk_resource k)"
    and ne: "srk_resource k \<noteq> []"
    and norm: "normalizeSensitiveResourceKey (srk_group k) (srk_resource k) = k"
    using assms by (auto simp: key_wf_def)
  show ?thesis
  proof (cases "srk_group k = []")
    case True
    then have "Split CHR ''/'' (formatSensitiveResourceEntry k) = [srk_resource k]"
      using slash by (simp add: formatSensitiveResourceEntry_def Split_no_sep)
    then show ?thesis
      using True ne norm format_not_Nil [OF assms] TrimSpace_format [OF assms]
      by (simp add: parseSensitiveResourceEntry_def)
  next
    case False
    then have "Split CHR ''/'' (formatSensitiveResourceEntry k) = [srk_group k, srk_resource k]"
      using slash by (simp add: formatSensitiveResourceEntry_def Split_append_sep Split_no_sep)
    then show ?thesis
      using False ne norm format_not_Nil [OF assms] TrimSpace_format [OF assms]
      by (simp add: parseSensitiveResourceEntry_def)
  qed
qed

lemma comma_free_format: "key_wf k \<Longrightarrow> CHR '','' \<notin> set (formatSensitiveResourceEntry k)"
  by (auto simp: key_wf_def formatSensitiveResourceEntry_def)

text \<open>What the entry loop computes: it stops at the first bad entry, else it collects the keys.\<close>

lemma parse_entries_Inr:
  "parse_entries m es = Inr m' \<longleftrightarrow>
     (\<forall>e \<in> set es. isl (parseSensitiveResourceEntry e) = False)
     \<and> m' = fold (\<lambda>k. map_put k ())
              (filter (\<lambda>k. \<not> builtin k) (map (projr \<circ> parseSensitiveResourceEntry) es)) m"
  by (induction m es rule: parse_entries.induct) (auto split: sum.splits)

lemma keys_fold_put:
  "fst ` set (fold (\<lambda>k. map_put k ()) ks m) = fst ` set m \<union> set ks"
  by (induction ks arbitrary: m) (auto simp: dom_update)

lemma map_wf_fold_put_keys: "map_wf m \<Longrightarrow> map_wf (fold (\<lambda>k. map_put k ()) ks m)"
  by (induction ks arbitrary: m) auto

lemma parse_entries_keys:
  assumes "parse_entries m es = Inr m'"
  shows "fst ` set m' = fst ` set m \<union>
    {k. \<not> builtin k \<and> (\<exists>e \<in> set es. parseSensitiveResourceEntry e = Inr k)}"
proof -
  have "{k. \<not> builtin k \<and> (\<exists>e \<in> set es. parseSensitiveResourceEntry e = Inr k)} =
    set (filter (\<lambda>k. \<not> builtin k) (map (projr \<circ> parseSensitiveResourceEntry) es))"
    using assms unfolding parse_entries_Inr by (force simp: isl_def image_iff split: sum.splits)
  then show ?thesis
    using assms unfolding parse_entries_Inr by (auto simp: keys_fold_put)
qed

lemma Parse_wf:
  assumes "ParseSensitiveResourcePolicy flag = Inr p"
  shows "policy_wf p"
proof (cases "TrimSpace flag = []")
  case True
  with assms show ?thesis by (auto simp: ParseSensitiveResourcePolicy_def policy_wf_def)
next
  case False
  with assms obtain m where m: "parse_entries [] (Split CHR '','' flag) = Inr m" and p: "additional p = m"
    by (auto simp: ParseSensitiveResourcePolicy_def split: sum.splits)
  have "map_wf m"
    using m unfolding parse_entries_Inr by (auto intro: map_wf_fold_put_keys)
  moreover have "key_wf k" if k: "k \<in> fst ` set m" for k
  proof -
    obtain e where "e \<in> set (Split CHR '','' flag)" and "parseSensitiveResourceEntry e = Inr k"
      using k unfolding parse_entries_keys [OF m] by auto
    then show ?thesis using Split_parts_no_sep parse_entry_wf by blast
  qed
  ultimately show ?thesis
    using parse_entries_keys [OF m] by (auto simp: policy_wf_def p)
qed

lemma IsSensitive_key:
  "IsSensitive p g r \<longleftrightarrow>
     builtin (normalizeSensitiveResourceKey g r)
     \<or> normalizeSensitiveResourceKey g r \<in> fst ` set (additional p)"
  by (auto simp: IsSensitive_def Let_def map_of_eq_None_iff)

text \<open>The printed form of a policy parses back, entry by entry.\<close>

abbreviation secrets_key :: sensitiveResourceKey where
  "secrets_key \<equiv> \<lparr> srk_group = [], srk_resource = ''secrets'' \<rparr>"

lemma secrets_key_wf: "key_wf secrets_key"
  by (simp add: key_wf_def normalizeSensitiveResourceKey_def ToLower_def lower_char_def
      TrimSpace_def is_space_def)

lemma format_secrets: "formatSensitiveResourceEntry secrets_key = ''secrets''"
  by (simp add: formatSensitiveResourceEntry_def)

lemma set_Entries:
  "set (Entries p) = formatSensitiveResourceEntry ` insert secrets_key (fst ` set (additional p))"
  unfolding Entries_def set_sort by (simp add: format_secrets image_comp)

lemma policy_wf_keys:
  "policy_wf p \<Longrightarrow> k \<in> insert secrets_key (fst ` set (additional p)) \<Longrightarrow> key_wf k"
  using secrets_key_wf by (auto simp: policy_wf_def)

lemma parse_Entries:
  assumes "policy_wf p"
  obtains m where "parse_entries [] (Entries p) = Inr m"
    and "fst ` set m = fst ` set (additional p)"
proof -
  let ?K = "insert secrets_key (fst ` set (additional p))"
  have ok: "parseSensitiveResourceEntry (formatSensitiveResourceEntry k) = Inr k" if "k \<in> ?K" for k
    using parse_format [OF policy_wf_keys [OF assms that]] .
  then have "\<forall>e \<in> set (Entries p). isl (parseSensitiveResourceEntry e) = False"
    by (auto simp: set_Entries)
  then obtain m where m: "parse_entries [] (Entries p) = Inr m"
    using parse_entries_Inr by blast
  have "fst ` set m = {k. \<not> builtin k \<and> k \<in> ?K}"
    unfolding parse_entries_keys [OF m] set_Entries using ok by force
  also have "\<dots> = fst ` set (additional p)"
    using assms by (auto simp: policy_wf_def)
  finally show thesis using that m by blast
qed

lemma Join_nonspace:
  assumes "e \<in> set es" and "\<exists>c \<in> set e. \<not> is_space c"
  shows "TrimSpace (Join '','' es) \<noteq> []"
proof -
  have "set e \<subseteq> set (Join '','' es)"
    using assms(1) by (induction es rule: induct_list012) auto
  then obtain c where c: "c \<in> set (Join '','' es)" "\<not> is_space c" using assms(2) by auto
  then have ne: "dropWhile is_space (Join '','' es) \<noteq> []" by (auto simp: dropWhile_eq_Nil_conv)
  then have "\<not> is_space (hd (dropWhile is_space (Join '','' es)))" by (rule hd_dropWhile)
  then show ?thesis
    using hd_in_set [OF ne] unfolding TrimSpace_def rev_is_Nil_conv dropWhile_eq_Nil_conv by auto
qed

text \<open>
  C40: a sensitive-resource policy survives its own printed form. Whatever flag value a policy was
  parsed from, joining its \<open>Entries\<close> with commas gives a flag value that parses without error to a
  policy which classifies every type alike.
\<close>

theorem policy_round_trip:
  assumes "ParseSensitiveResourcePolicy flag = Inr p"
  shows "\<exists>p'. ParseSensitiveResourcePolicy (Join '','' (Entries p)) = Inr p'
    \<and> (\<forall>g r. IsSensitive p' g r = IsSensitive p g r)"
proof -
  have wf: "policy_wf p" using assms by (rule Parse_wf)
  then obtain m where m: "parse_entries [] (Entries p) = Inr m"
    and keys: "fst ` set m = fst ` set (additional p)" by (rule parse_Entries)
  have "''secrets'' \<in> set (Entries p)" unfolding set_Entries using format_secrets by (simp add: image_iff)
  then have "TrimSpace (Join '','' (Entries p)) \<noteq> []"
    by (rule Join_nonspace) (simp add: is_space_def)
  moreover have "Entries p \<noteq> []" using \<open>''secrets'' \<in> set (Entries p)\<close> by auto
  moreover from this have "Split CHR '','' (Join '','' (Entries p)) = Entries p"
    using policy_wf_keys [OF wf] comma_free_format
    by (intro Split_Join) (auto simp: set_Entries)
  ultimately have "ParseSensitiveResourcePolicy (Join '','' (Entries p)) = Inr \<lparr> additional = m \<rparr>"
    using m by (simp add: ParseSensitiveResourcePolicy_def)
  then show ?thesis by (simp add: IsSensitive_key keys)
qed

theorem policy_round_trip_witness:
  "\<exists>p p'. ParseSensitiveResourcePolicy '' Certs.io/Keys, tokens'' = Inr p
    \<and> Entries p = [''certs.io/keys'', ''secrets'', ''tokens'']
    \<and> ParseSensitiveResourcePolicy (Join '','' (Entries p)) = Inr p'
    \<and> (\<forall>g r. IsSensitive p' g r = IsSensitive p g r)"
proof -
  let ?p = "projr (ParseSensitiveResourcePolicy '' Certs.io/Keys, tokens'')"
  have p: "ParseSensitiveResourcePolicy '' Certs.io/Keys, tokens'' = Inr ?p" by code_simp
  moreover have "Entries ?p = [''certs.io/keys'', ''secrets'', ''tokens'']" by code_simp
  ultimately show ?thesis using policy_round_trip [OF p] by blast
qed

text \<open>
  what a parsed policy protects. Core Secrets are sensitive whatever the flag says; any other
  type is sensitive exactly when one of the comma-separated entries names it, up to case and
  surrounding white space.
\<close>

theorem IsSensitive_iff:
  assumes "ParseSensitiveResourcePolicy flag = Inr p"
  shows "IsSensitive p g r \<longleftrightarrow>
    normalizeSensitiveResourceKey g r = \<lparr> srk_group = [], srk_resource = ''secrets'' \<rparr>
    \<or> TrimSpace flag \<noteq> [] \<and>
       (\<exists>e \<in> set (Split CHR '','' flag).
          parseSensitiveResourceEntry e = Inr (normalizeSensitiveResourceKey g r))"
proof (cases "TrimSpace flag = []")
  case True
  with assms have "additional p = []" by (auto simp: ParseSensitiveResourcePolicy_def)
  then show ?thesis using True by (auto simp: IsSensitive_key)
next
  case False
  with assms obtain m where "parse_entries [] (Split CHR '','' flag) = Inr m" and "additional p = m"
    by (auto simp: ParseSensitiveResourcePolicy_def split: sum.splits)
  then show ?thesis
    using False by (auto simp: IsSensitive_key parse_entries_keys)
qed

end
