(* ===== verification/Type_Funnel.thy ===== *)
theory Type_Funnel
  imports Resource_Identity
begin

text \<open>
  Package \<open>internal/typeset\<close>, the pure half: the data model (\<open>model.go\<close>), the followability funnel
  that judges one observed type (\<open>funnel.go\<close>), the built-in scale registry (\<open>scale.go\<close>) and the
  reduction of discovery entries to observations (\<open>observe.go\<close>).

  The Kubernetes schema types are records of strings. \<open>GroupVersionResource.String\<close> belongs to
  \<open>k8s.io/apimachinery\<close>; it is the argument \<open>gs\<close> of the operations that sort by it.

  The lemmas give the verdict of every observation in closed form, show that every verdict other
  than followable names a failed check, and that the live types of one scan are in bijection with
  their resources.
\<close>

section \<open>Data model\<close>

record GroupVersionKind =
  gvk_Group :: string
  gvk_Version :: string
  gvk_Kind :: string

record GroupVersionResource =
  gvr_Group :: string
  gvr_Version :: string
  gvr_Resource :: string

record GroupVersion =
  gv_Group :: string
  gv_Version :: string

definition gvr_GroupVersion :: "GroupVersionResource \<Rightarrow> GroupVersion" where
  "gvr_GroupVersion r = \<lparr> gv_Group = gvr_Group r, gv_Version = gvr_Version r \<rparr>"

text \<open>The empty string of a string enumeration is the constructor named \<open>No...\<close>.\<close>

datatype Scope = NoScope | ScopeNamespaced | ScopeCluster | ScopeUnknown

record Identity =
  id_GVK :: GroupVersionKind
  id_GVR :: GroupVersionResource
  id_Scope :: Scope

datatype OriginKind = NoOrigin | OriginBuiltin | OriginCRD | OriginAggregated | OriginUnknown

datatype Confidence = NoConfidence | ConfidenceObserved | ConfidenceInferred | ConfidenceUnknown

record Origin =
  or_Kind :: OriginKind
  or_Confidence :: Confidence
  or_Evidence :: string

record StatusFact =
  sf_Enabled :: bool

record ScaleBinding =
  sb_Enabled :: bool
  sb_Source :: string
  sb_ResponseGVK :: GroupVersionKind
  sb_SpecReplicasPath :: string
  sb_StatusReplicasPath :: string
  sb_SelectorPath :: string
  sb_SelectorKind :: string
  sb_Usable :: bool

record Subresources =
  sr_Status :: StatusFact
  sr_Scale :: ScaleBinding

datatype Verdict = VerdictFollowable | VerdictRetained | VerdictRefused | VerdictUnknown

datatype Requirement =
    RequirementServed | RequirementTrusted | RequirementStable | RequirementIdentity
  | RequirementScope | RequirementVerbs | RequirementOrigin | RequirementPolicy
  | RequirementSensitivity | RequirementScale

datatype Result = ResultPass | ResultFail | ResultSkip | ResultUnknown

datatype Reason =
    NoReason | ReasonNotServed | ReasonSubresourceOnly | ReasonDiscoveryDegraded
  | ReasonCatalogUnavailable | ReasonAbsenceExpired | ReasonGVKNotUnique | ReasonGVRNotUnique
  | ReasonScopeUnknown | ReasonMissingVerb | ReasonOriginUnknown | ReasonDeniedByPolicy
  | ReasonSensitiveUnsupported | ReasonScalePathUnresolved

record Check =
  ck_Requirement :: Requirement
  ck_Result :: Result
  ck_Reason :: Reason
  ck_Detail :: string

definition Failed :: "Check \<Rightarrow> bool" where
  "Failed c = (ck_Result c = ResultFail)"

record Followability =
  fo_Verdict :: Verdict
  fo_Summary :: string
  fo_Checks :: "Check list"

definition fo_Check :: "Followability \<Rightarrow> Requirement \<Rightarrow> Check option" where
  "fo_Check f req = find (\<lambda>c. ck_Requirement c = req) (fo_Checks f)"

definition fo_FirstFailure :: "Followability \<Rightarrow> Check option" where
  "fo_FirstFailure f = find Failed (fo_Checks f)"

record TypeRecord =
  tr_Identity :: Identity
  tr_Origin :: Origin
  tr_Preferred :: bool
  tr_Verbs :: "string list"
  tr_Subresources :: Subresources
  tr_Sensitive :: bool
  tr_Followability :: Followability
  tr_Generation :: "64 word"

definition Followable :: "TypeRecord \<Rightarrow> bool" where
  "Followable r =
     (fo_Verdict (tr_Followability r) = VerdictFollowable
      \<or> fo_Verdict (tr_Followability r) = VerdictRetained)"

section \<open>The funnel\<close>

definition requiredVerbs :: "string list" where
  "requiredVerbs = [''get'', ''list'', ''watch'']"

record Observation =
  ob_Identity :: Identity
  ob_Origin :: Origin
  ob_Preferred :: bool
  ob_Verbs :: "string list"
  ob_Subresources :: Subresources
  Served :: bool
  SubresourceOnly :: bool
  Trusted :: bool
  CatalogReady :: bool
  AbsenceExpired :: bool
  GVKUnique :: bool
  GVRUnique :: bool
  GVKConflictDetail :: string
  GVRConflictDetail :: string
  Denied :: bool
  DenyDetail :: string
  ob_Sensitive :: bool
  SensitiveSupported :: bool

definition pass :: "Requirement \<Rightarrow> Check" where
  "pass req = \<lparr> ck_Requirement = req, ck_Result = ResultPass, ck_Reason = NoReason, ck_Detail = [] \<rparr>"

definition skip :: "Requirement \<Rightarrow> Check" where
  "skip req = \<lparr> ck_Requirement = req, ck_Result = ResultSkip, ck_Reason = NoReason, ck_Detail = [] \<rparr>"

definition fail :: "Requirement \<Rightarrow> Reason \<Rightarrow> string \<Rightarrow> Check" where
  "fail req reason detail =
     \<lparr> ck_Requirement = req, ck_Result = ResultFail, ck_Reason = reason, ck_Detail = detail \<rparr>"

definition servedCheck :: "Observation \<Rightarrow> Check" where
  "servedCheck obs =
     (if Served obs then pass RequirementServed
      else if SubresourceOnly obs then fail RequirementServed ReasonSubresourceOnly []
      else fail RequirementServed ReasonNotServed [])"

definition trustedCheck :: "Observation \<Rightarrow> Check" where
  "trustedCheck obs =
     (if Trusted obs then pass RequirementTrusted
      else if \<not> CatalogReady obs then fail RequirementTrusted ReasonCatalogUnavailable []
      else fail RequirementTrusted ReasonDiscoveryDegraded [])"

definition stableCheck :: "Observation \<Rightarrow> Check" where
  "stableCheck obs =
     (if AbsenceExpired obs then fail RequirementStable ReasonAbsenceExpired []
      else pass RequirementStable)"

definition identityCheck :: "Observation \<Rightarrow> Check" where
  "identityCheck obs =
     (if \<not> GVKUnique obs then fail RequirementIdentity ReasonGVKNotUnique (GVKConflictDetail obs)
      else if \<not> GVRUnique obs
      then fail RequirementIdentity ReasonGVRNotUnique (GVRConflictDetail obs)
      else pass RequirementIdentity)"

definition scopeCheck :: "Observation \<Rightarrow> Check" where
  "scopeCheck obs =
     (if id_Scope (ob_Identity obs) = ScopeUnknown \<or> id_Scope (ob_Identity obs) = NoScope
      then fail RequirementScope ReasonScopeUnknown []
      else pass RequirementScope)"

definition missingVerbs :: "string list \<Rightarrow> string list" where
  "missingVerbs advertised = filter (\<lambda>req. req \<notin> set advertised) requiredVerbs"

definition verbsCheck :: "Observation \<Rightarrow> Check" where
  "verbsCheck obs =
     (let missing = missingVerbs (ob_Verbs obs) in
      if length missing > 0 then fail RequirementVerbs ReasonMissingVerb (Join '', '' missing)
      else pass RequirementVerbs)"

definition originCheck :: "Observation \<Rightarrow> Check" where
  "originCheck obs =
     (if or_Kind (ob_Origin obs) = OriginUnknown \<or> or_Kind (ob_Origin obs) = NoOrigin
      then fail RequirementOrigin ReasonOriginUnknown []
      else pass RequirementOrigin)"

definition policyCheck :: "Observation \<Rightarrow> Check" where
  "policyCheck obs =
     (if Denied obs then fail RequirementPolicy ReasonDeniedByPolicy (DenyDetail obs)
      else pass RequirementPolicy)"

definition sensitivityCheck :: "Observation \<Rightarrow> Check" where
  "sensitivityCheck obs =
     (if ob_Sensitive obs \<and> \<not> SensitiveSupported obs
      then fail RequirementSensitivity ReasonSensitiveUnsupported []
      else pass RequirementSensitivity)"

definition scaleCheck :: "Observation \<Rightarrow> Check" where
  "scaleCheck obs =
     (let scale = sr_Scale (ob_Subresources obs) in
      if \<not> sb_Enabled scale then skip RequirementScale
      else if \<not> sb_Usable scale then fail RequirementScale ReasonScalePathUnresolved []
      else pass RequirementScale)"

definition failedChecks :: "Check list \<Rightarrow> Check list" where
  "failedChecks checks = filter Failed checks"

fun hasReason :: "Check list \<Rightarrow> Reason \<Rightarrow> bool" where
  "hasReason [] reason = False"
| "hasReason (c # checks) reason = (if ck_Reason c = reason then True else hasReason checks reason)"

fun onlyTransientFailures :: "Check list \<Rightarrow> bool" where
  "onlyTransientFailures [] = True"
| "onlyTransientFailures (c # failures) =
     (if ck_Requirement c \<noteq> RequirementServed \<and> ck_Requirement c \<noteq> RequirementTrusted then False
      else onlyTransientFailures failures)"

definition deriveVerdict :: "Check list \<Rightarrow> Verdict" where
  "deriveVerdict checks =
     (let failures = failedChecks checks in
      if length failures = 0 then VerdictFollowable
      else if hasReason failures ReasonCatalogUnavailable then VerdictUnknown
      else if onlyTransientFailures failures then VerdictRetained
      else VerdictRefused)"

definition firstFailure :: "Check list \<Rightarrow> Check option" where
  "firstFailure checks = find Failed checks"

definition reasonPhrases :: "(Reason, string) gomap" where
  "reasonPhrases =
     [(ReasonNotServed, ''not served''),
      (ReasonSubresourceOnly, ''served only as a subresource''),
      (ReasonDiscoveryDegraded, ''discovery degraded for its group/version''),
      (ReasonCatalogUnavailable, ''API catalog unavailable''),
      (ReasonAbsenceExpired, ''no longer served (removal grace elapsed)''),
      (ReasonGVKNotUnique, ''GVK served by more than one resource''),
      (ReasonGVRNotUnique, ''resource resolves to more than one kind''),
      (ReasonScopeUnknown, ''scope unknown''),
      (ReasonMissingVerb, ''missing required verb''),
      (ReasonOriginUnknown, ''origin could not be classified''),
      (ReasonDeniedByPolicy, ''denied by policy''),
      (ReasonSensitiveUnsupported, ''sensitive type without supported write handling''),
      (ReasonScalePathUnresolved, ''scale parent replica path unresolved'')]"

text \<open>The string value of a reason constant.\<close>

fun reason_string :: "Reason \<Rightarrow> string" where
  "reason_string NoReason = []"
| "reason_string ReasonNotServed = ''not-served''"
| "reason_string ReasonSubresourceOnly = ''subresource-only''"
| "reason_string ReasonDiscoveryDegraded = ''discovery-degraded''"
| "reason_string ReasonCatalogUnavailable = ''catalog-unavailable''"
| "reason_string ReasonAbsenceExpired = ''absence-expired''"
| "reason_string ReasonGVKNotUnique = ''gvk-not-unique''"
| "reason_string ReasonGVRNotUnique = ''gvr-not-unique''"
| "reason_string ReasonScopeUnknown = ''scope-unknown''"
| "reason_string ReasonMissingVerb = ''missing-verb''"
| "reason_string ReasonOriginUnknown = ''origin-unknown''"
| "reason_string ReasonDeniedByPolicy = ''denied-by-policy''"
| "reason_string ReasonSensitiveUnsupported = ''sensitive-unsupported''"
| "reason_string ReasonScalePathUnresolved = ''scale-path-unresolved''"

definition detailAppendedReason :: "Reason \<Rightarrow> bool" where
  "detailAppendedReason reason =
     (reason = ReasonGVKNotUnique \<or> reason = ReasonGVRNotUnique \<or> reason = ReasonMissingVerb)"

definition reasonPhrase :: "Check \<Rightarrow> string" where
  "reasonPhrase c =
     (if ck_Reason c = ReasonDeniedByPolicy \<and> ck_Detail c \<noteq> [] then ck_Detail c
      else case map_get reasonPhrases (ck_Reason c) of
             None \<Rightarrow> reason_string (ck_Reason c)
           | Some phrase \<Rightarrow>
               if ck_Detail c \<noteq> [] \<and> detailAppendedReason (ck_Reason c)
               then phrase @ '': '' @ ck_Detail c
               else phrase)"

text \<open>The string value of a verdict constant, and the UTF-8 bytes of the dash in a summary.\<close>

fun verdict_string :: "Verdict \<Rightarrow> string" where
  "verdict_string VerdictFollowable = ''followable''"
| "verdict_string VerdictRetained = ''retained''"
| "verdict_string VerdictRefused = ''refused''"
| "verdict_string VerdictUnknown = ''unknown''"

definition em_dash :: string where
  "em_dash = [CHR 0x20, CHR 0xE2, CHR 0x80, CHR 0x94, CHR 0x20]"

definition summarize :: "Verdict \<Rightarrow> Check list \<Rightarrow> string" where
  "summarize verdict checks =
     (if verdict = VerdictFollowable then ''followable''
      else case firstFailure checks of
             None \<Rightarrow> verdict_string verdict
           | Some c \<Rightarrow>
               if verdict = VerdictRetained then ''retained'' @ em_dash @ reasonPhrase c
               else ''not followable'' @ em_dash @ reasonPhrase c)"

definition Evaluate :: "Observation \<Rightarrow> Followability" where
  "Evaluate obs =
     (let checks = [servedCheck obs, trustedCheck obs, stableCheck obs, identityCheck obs,
                    scopeCheck obs, verbsCheck obs, originCheck obs, policyCheck obs,
                    sensitivityCheck obs, scaleCheck obs];
          verdict = deriveVerdict checks
      in \<lparr> fo_Verdict = verdict, fo_Summary = summarize verdict checks, fo_Checks = checks \<rparr>)"

section \<open>The built-in scale registry\<close>

definition ScaleSourceBuiltinRegistry :: string where
  "ScaleSourceBuiltinRegistry = ''builtin-registry''"

definition builtinSpecReplicasPath :: string where
  "builtinSpecReplicasPath = ''.spec.replicas''"

definition builtinScaleResponseGVK :: GroupVersionKind where
  "builtinScaleResponseGVK =
     \<lparr> gvk_Group = ''autoscaling'', gvk_Version = ''v1'', gvk_Kind = ''Scale'' \<rparr>"

definition builtinScalable :: "string \<Rightarrow> string \<Rightarrow> bool" where
  "builtinScalable grp resource =
     (grp = ''apps'' \<and> resource = ''deployments''
      \<or> grp = ''apps'' \<and> resource = ''statefulsets''
      \<or> grp = ''apps'' \<and> resource = ''replicasets''
      \<or> grp = [] \<and> resource = ''replicationcontrollers'')"

text \<open>The zero values of the structs the code leaves unset.\<close>

definition zero_gvk :: GroupVersionKind where
  "zero_gvk = \<lparr> gvk_Group = [], gvk_Version = [], gvk_Kind = [] \<rparr>"

definition zero_ScaleBinding :: ScaleBinding where
  "zero_ScaleBinding =
     \<lparr> sb_Enabled = False, sb_Source = [], sb_ResponseGVK = zero_gvk, sb_SpecReplicasPath = [],
       sb_StatusReplicasPath = [], sb_SelectorPath = [], sb_SelectorKind = [], sb_Usable = False \<rparr>"

definition BuiltinScale :: "string \<Rightarrow> string \<Rightarrow> ScaleBinding option" where
  "BuiltinScale grp resource =
     (if \<not> builtinScalable grp resource then None
      else Some (zero_ScaleBinding
        \<lparr> sb_Enabled := True, sb_Source := ScaleSourceBuiltinRegistry,
          sb_ResponseGVK := builtinScaleResponseGVK, sb_SpecReplicasPath := builtinSpecReplicasPath,
          sb_Usable := True \<rparr>))"

section \<open>From discovery entries to observations\<close>

record Entry =
  en_GVK :: GroupVersionKind
  en_GVR :: GroupVersionResource
  en_Namespaced :: bool
  en_Verbs :: "string list"
  en_Preferred :: bool
  en_Subresource :: bool
  en_Allowed :: bool
  en_PolicyReason :: string
  en_Degraded :: bool
  en_Sensitive :: bool

text \<open>
  Both indexes are built through a map of sets: for every top-level entry, the set stored at the
  entry's first key gains its second key.
\<close>

definition index_put :: "'k \<Rightarrow> 'v \<Rightarrow> ('k, ('v, unit) gomap) gomap \<Rightarrow> ('k, ('v, unit) gomap) gomap" where
  "index_put k v m = map_put k (map_put v () (case map_get m k of None \<Rightarrow> [] | Some vs \<Rightarrow> vs)) m"

definition index_lists :: "('k, ('v, unit) gomap) gomap \<Rightarrow> ('k, 'v list) gomap" where
  "index_lists m = map (\<lambda>(k, vs). (k, map fst vs)) m"

definition distinctGVRsByGVK ::
  "Entry list \<Rightarrow> (GroupVersionKind, GroupVersionResource list) gomap" where
  "distinctGVRsByGVK entries =
     index_lists (fold (\<lambda>e seen. if en_Subresource e then seen else index_put (en_GVK e) (en_GVR e) seen)
                    entries [])"

definition distinctGVKsByGVR ::
  "Entry list \<Rightarrow> (GroupVersionResource, GroupVersionKind list) gomap" where
  "distinctGVKsByGVR entries =
     index_lists (fold (\<lambda>e seen. if en_Subresource e then seen else index_put (en_GVR e) (en_GVK e) seen)
                    entries [])"

definition splitSubresource :: "string \<Rightarrow> (string \<times> string) option" where
  "splitSubresource resource =
     (let parent = takeWhile (\<lambda>c. c \<noteq> CHR ''/'') resource in
      if parent = resource then None
      else Some (parent, drop (length parent + 1) resource))"

definition subresourceParents :: "Entry list \<Rightarrow> string \<Rightarrow> (GroupVersionResource, unit) gomap" where
  "subresourceParents entries name =
     fold (\<lambda>e out.
        case splitSubresource (gvr_Resource (en_GVR e)) of
          None \<Rightarrow> out
        | Some (parent, sub) \<Rightarrow>
            if sub \<noteq> name then out
            else map_put \<lparr> gvr_Group = gvr_Group (en_GVR e), gvr_Version = gvr_Version (en_GVR e),
                           gvr_Resource = parent \<rparr> () out)
       entries []"

definition subresourcesFor ::
  "GroupVersionResource \<Rightarrow> (GroupVersionResource, unit) gomap \<Rightarrow> (GroupVersionResource, unit) gomap
     \<Rightarrow> Subresources" where
  "subresourcesFor gvr scaleParents statusParents =
     \<lparr> sr_Status = \<lparr> sf_Enabled = (map_get statusParents gvr \<noteq> None) \<rparr>,
       sr_Scale =
         (if map_get scaleParents gvr \<noteq> None
          then case BuiltinScale (gvr_Group gvr) (gvr_Resource gvr) of
                 Some binding \<Rightarrow> binding
               | None \<Rightarrow> zero_ScaleBinding
                   \<lparr> sb_Enabled := True, sb_Source := ''unknown'', sb_Usable := False \<rparr>
          else zero_ScaleBinding) \<rparr>"

definition scopeFor :: "bool \<Rightarrow> Scope" where
  "scopeFor namespaced = (if namespaced then ScopeNamespaced else ScopeCluster)"

definition gvkConflictDetail :: "bool \<Rightarrow> GroupVersionResource list \<Rightarrow> string" where
  "gvkConflictDetail unique serving =
     (if unique then [] else Join '', '' (sort (map gvr_Resource serving)))"

definition gvrConflictDetail :: "bool \<Rightarrow> GroupVersionKind list \<Rightarrow> string" where
  "gvrConflictDetail unique serving =
     (if unique then [] else Join '', '' (sort (map gvk_Kind serving)))"

definition legacyBuiltinGroup :: "string \<Rightarrow> bool" where
  "legacyBuiltinGroup grp =
     (grp \<in> {''apps'', ''batch'', ''autoscaling'', ''policy'', ''extensions''})"

definition classifyOrigin :: "string \<Rightarrow> Origin" where
  "classifyOrigin grp =
     (if grp = [] \<or> HasSuffix grp ''.k8s.io'' \<or> legacyBuiltinGroup grp
      then \<lparr> or_Kind = OriginBuiltin, or_Confidence = ConfidenceInferred, or_Evidence = [] \<rparr>
      else \<lparr> or_Kind = OriginCRD, or_Confidence = ConfidenceInferred, or_Evidence = [] \<rparr>)"

definition observationFromEntry ::
  "Entry \<Rightarrow> bool \<Rightarrow> GroupVersionResource list \<Rightarrow> GroupVersionKind list
     \<Rightarrow> (GroupVersionResource, unit) gomap \<Rightarrow> (GroupVersionResource, unit) gomap \<Rightarrow> Observation" where
  "observationFromEntry e catalogReady servingGVRs servingGVKs scaleParents statusParents =
     (let gvkUnique = (length servingGVRs = 1); gvrUnique = (length servingGVKs = 1) in
      \<lparr> ob_Identity = \<lparr> id_GVK = en_GVK e, id_GVR = en_GVR e, id_Scope = scopeFor (en_Namespaced e) \<rparr>,
        ob_Origin = classifyOrigin (gvr_Group (en_GVR e)),
        ob_Preferred = en_Preferred e,
        ob_Verbs = en_Verbs e,
        ob_Subresources = subresourcesFor (en_GVR e) scaleParents statusParents,
        Served = True,
        SubresourceOnly = False,
        Trusted = (\<not> en_Degraded e),
        CatalogReady = catalogReady,
        AbsenceExpired = False,
        GVKUnique = gvkUnique,
        GVRUnique = gvrUnique,
        GVKConflictDetail = gvkConflictDetail gvkUnique servingGVRs,
        GVRConflictDetail = gvrConflictDetail gvrUnique servingGVKs,
        Denied = (\<not> en_Allowed e),
        DenyDetail = en_PolicyReason e,
        ob_Sensitive = en_Sensitive e,
        SensitiveSupported = True \<rparr>)"

definition index_get :: "('k, 'v list) gomap \<Rightarrow> 'k \<Rightarrow> 'v list" where
  "index_get m k = (case map_get m k of None \<Rightarrow> [] | Some vs \<Rightarrow> vs)"

text \<open>
  The argument \<open>gs\<close> is \<open>GroupVersionResource.String\<close>. \<open>sort.Slice\<close> leaves the order of equal keys
  open; the model keeps the entry order.
\<close>

definition ObservationsFromEntries ::
  "(GroupVersionResource \<Rightarrow> string) \<Rightarrow> Entry list \<Rightarrow> bool \<Rightarrow> Observation list" where
  "ObservationsFromEntries gs entries catalogReady =
     (let gvrsByGVK = distinctGVRsByGVK entries;
          gvksByGVR = distinctGVKsByGVR entries;
          scaleParents = subresourceParents entries ''scale'';
          statusParents = subresourceParents entries ''status'';
          out = map (\<lambda>e. observationFromEntry e catalogReady (index_get gvrsByGVK (en_GVK e))
                           (index_get gvksByGVR (en_GVR e)) scaleParents statusParents)
                  (filter (\<lambda>e. \<not> en_Subresource e) entries)
      in sort_key (\<lambda>obs. gs (id_GVR (ob_Identity obs))) out)"

section \<open>Verdict lemmas\<close>

text \<open>
  The specification the funnel is checked against: what makes an observed type permanently
  unfollowable, said directly on the facts.
\<close>

definition permanently_fit :: "Observation \<Rightarrow> bool" where
  "permanently_fit obs =
     (\<not> AbsenceExpired obs \<and> GVKUnique obs \<and> GVRUnique obs
      \<and> id_Scope (ob_Identity obs) \<in> {ScopeNamespaced, ScopeCluster}
      \<and> set requiredVerbs \<subseteq> set (ob_Verbs obs)
      \<and> or_Kind (ob_Origin obs) \<in> {OriginBuiltin, OriginCRD, OriginAggregated}
      \<and> \<not> Denied obs
      \<and> (ob_Sensitive obs \<longrightarrow> SensitiveSupported obs)
      \<and> (sb_Enabled (sr_Scale (ob_Subresources obs)) \<longrightarrow> sb_Usable (sr_Scale (ob_Subresources obs))))"

lemma check_simps [simp]:
  shows "\<not> Failed (pass req)" and "\<not> Failed (skip req)" and "Failed (fail req reason detail)"
    and "ck_Requirement (fail req reason detail) = req" and "ck_Reason (fail req reason detail) = reason"
    and "ck_Reason (pass req) = NoReason" and "ck_Reason (skip req) = NoReason"
  by (simp_all add: Failed_def pass_def skip_def fail_def)

lemma hasReason_iff: "hasReason cs reason \<longleftrightarrow> reason \<in> ck_Reason ` set cs"
  by (induction cs) auto

lemma onlyTransient_iff:
  "onlyTransientFailures cs \<longleftrightarrow> ck_Requirement ` set cs \<subseteq> {RequirementServed, RequirementTrusted}"
  by (induction cs) auto

text \<open>The permanent checks, separated from the two transient ones.\<close>

definition permanent_checks :: "Observation \<Rightarrow> Check list" where
  "permanent_checks obs =
     [stableCheck obs, identityCheck obs, scopeCheck obs, verbsCheck obs, originCheck obs,
      policyCheck obs, sensitivityCheck obs, scaleCheck obs]"

lemma Evaluate_checks: "fo_Checks (Evaluate obs) = servedCheck obs # trustedCheck obs # permanent_checks obs"
  by (simp add: Evaluate_def Let_def permanent_checks_def)

lemma missingVerbs_Nil: "missingVerbs vs = [] \<longleftrightarrow> set requiredVerbs \<subseteq> set vs"
  by (auto simp: missingVerbs_def filter_empty_conv)

lemma Scope_known: "s \<noteq> ScopeUnknown \<and> s \<noteq> NoScope \<longleftrightarrow> s = ScopeNamespaced \<or> s = ScopeCluster"
  by (cases s) auto

lemma Origin_known:
  "k \<noteq> OriginUnknown \<and> k \<noteq> NoOrigin \<longleftrightarrow> k = OriginBuiltin \<or> k = OriginCRD \<or> k = OriginAggregated"
  by (cases k) auto

lemmas check_defs =
  servedCheck_def trustedCheck_def stableCheck_def identityCheck_def scopeCheck_def verbsCheck_def
  originCheck_def policyCheck_def sensitivityCheck_def scaleCheck_def

text \<open>When each check fails, and what it then says.\<close>

lemma Failed_checks:
  shows "Failed (servedCheck obs) \<longleftrightarrow> \<not> Served obs"
    and "Failed (trustedCheck obs) \<longleftrightarrow> \<not> Trusted obs"
    and "Failed (stableCheck obs) \<longleftrightarrow> AbsenceExpired obs"
    and "Failed (identityCheck obs) \<longleftrightarrow> \<not> (GVKUnique obs \<and> GVRUnique obs)"
    and "Failed (scopeCheck obs) \<longleftrightarrow> id_Scope (ob_Identity obs) \<notin> {ScopeNamespaced, ScopeCluster}"
    and "Failed (verbsCheck obs) \<longleftrightarrow> \<not> set requiredVerbs \<subseteq> set (ob_Verbs obs)"
    and "Failed (originCheck obs) \<longleftrightarrow>
      or_Kind (ob_Origin obs) \<notin> {OriginBuiltin, OriginCRD, OriginAggregated}"
    and "Failed (policyCheck obs) \<longleftrightarrow> Denied obs"
    and "Failed (sensitivityCheck obs) \<longleftrightarrow> ob_Sensitive obs \<and> \<not> SensitiveSupported obs"
    and "Failed (scaleCheck obs) \<longleftrightarrow>
      sb_Enabled (sr_Scale (ob_Subresources obs)) \<and> \<not> sb_Usable (sr_Scale (ob_Subresources obs))"
  using Scope_known [of "id_Scope (ob_Identity obs)"] Origin_known [of "or_Kind (ob_Origin obs)"]
  by (simp_all add: check_defs Let_def missingVerbs_Nil [symmetric])

lemma permanent_checks_ok:
  "filter Failed (permanent_checks obs) = [] \<longleftrightarrow> permanently_fit obs"
proof -
  have "filter Failed (permanent_checks obs) = [] \<longleftrightarrow> (\<forall>c \<in> set (permanent_checks obs). \<not> Failed c)"
    by (auto simp: filter_empty_conv)
  then show ?thesis
    unfolding permanently_fit_def permanent_checks_def by (simp add: Failed_checks)
qed

lemma permanent_checks_requirement:
  assumes "c \<in> set (permanent_checks obs)" and "Failed c"
  shows "ck_Requirement c \<noteq> RequirementServed \<and> ck_Requirement c \<noteq> RequirementTrusted
    \<and> ck_Reason c \<noteq> ReasonCatalogUnavailable \<and> ck_Reason c \<noteq> NoReason"
proof -
  from assms(1) consider "c = stableCheck obs" | "c = identityCheck obs" | "c = scopeCheck obs"
    | "c = verbsCheck obs" | "c = originCheck obs" | "c = policyCheck obs"
    | "c = sensitivityCheck obs" | "c = scaleCheck obs"
    by (auto simp: permanent_checks_def)
  then show ?thesis
    using assms(2) by cases (simp_all add: check_defs Let_def split: if_splits)
qed

lemma Evaluate_verdict_closed:
  "fo_Verdict (Evaluate obs) =
     (if \<not> Trusted obs \<and> \<not> CatalogReady obs then VerdictUnknown
      else if \<not> permanently_fit obs then VerdictRefused
      else if Served obs \<and> Trusted obs then VerdictFollowable
      else VerdictRetained)"
proof -
  let ?fails = "filter Failed (permanent_checks obs)"
  have v: "fo_Verdict (Evaluate obs) = deriveVerdict (servedCheck obs # trustedCheck obs # permanent_checks obs)"
    by (simp add: Evaluate_def Let_def permanent_checks_def)
  have fit: "?fails = [] \<longleftrightarrow> permanently_fit obs" by (rule permanent_checks_ok)
  have cat: "ReasonCatalogUnavailable \<notin> ck_Reason ` set ?fails"
    using permanent_checks_requirement [of _ obs] by (force simp: eq_commute)
  have trans: "ck_Requirement ` set ?fails \<subseteq> {RequirementServed, RequirementTrusted} \<longleftrightarrow> ?fails = []"
  proof
    assume sub: "ck_Requirement ` set ?fails \<subseteq> {RequirementServed, RequirementTrusted}"
    show "?fails = []"
      using sub permanent_checks_requirement [of _ obs] by (auto simp: filter_empty_conv)
  qed simp
  show ?thesis
    unfolding v deriveVerdict_def failedChecks_def Let_def hasReason_iff onlyTransient_iff
    using cat trans fit
    by (simp add: servedCheck_def trustedCheck_def)
qed

text \<open>
  the funnel's verdict in closed form. A type whose group/version is untrusted while the whole
  catalog is unavailable is unknown; otherwise any permanent defect refuses it; otherwise it is
  followable when it is served and trusted, and retained when only one of those two transient facts
  is missing.
\<close>

theorem Evaluate_verdict:
  "fo_Verdict (Evaluate obs) =
     (if \<not> Trusted obs \<and> \<not> CatalogReady obs then VerdictUnknown
      else if \<not> permanently_fit obs then VerdictRefused
      else if Served obs \<and> Trusted obs then VerdictFollowable
      else VerdictRetained)"
  by (rule Evaluate_verdict_closed)

text \<open>
  a verdict always comes with its explanation. The first failed check exists exactly when the
  verdict is not followable, and it carries a reason.
\<close>

theorem Evaluate_explained:
  "case fo_FirstFailure (Evaluate obs) of
     None \<Rightarrow> fo_Verdict (Evaluate obs) = VerdictFollowable
   | Some c \<Rightarrow> fo_Verdict (Evaluate obs) \<noteq> VerdictFollowable \<and> ck_Reason c \<noteq> NoReason
       \<and> c \<in> set (fo_Checks (Evaluate obs))"
proof (cases "fo_FirstFailure (Evaluate obs)")
  case None
  then have "filter Failed (fo_Checks (Evaluate obs)) = []"
    by (auto simp: fo_FirstFailure_def find_None_iff filter_empty_conv)
  then show ?thesis
    using None by (simp add: Evaluate_def Let_def deriveVerdict_def failedChecks_def)
next
  case (Some c)
  then have c: "c \<in> set (fo_Checks (Evaluate obs))" "Failed c"
    by (auto simp: fo_FirstFailure_def find_Some_iff)
  then have "filter Failed (fo_Checks (Evaluate obs)) \<noteq> []"
    by (auto simp: filter_empty_conv)
  then have "fo_Verdict (Evaluate obs) \<noteq> VerdictFollowable"
    by (auto simp: Evaluate_def Let_def deriveVerdict_def failedChecks_def)
  moreover have "ck_Reason c \<noteq> NoReason"
    using c permanent_checks_requirement [of c obs] unfolding Evaluate_checks
    by (auto simp: servedCheck_def trustedCheck_def split: if_splits)
  ultimately show ?thesis using Some c by simp
qed

section \<open>Observation lemmas\<close>

lemma map_get_index_lists: "map_get (index_lists m) k = map_option (map fst) (map_get m k)"
  by (induction m) (auto simp: index_lists_def)

lemma index_get_put:
  "index_get (index_lists (index_put k v m)) k' =
     (if k' = k then map fst (map_put v () (index_get m k)) else index_get (index_lists m) k')"
  by (simp add: index_get_def map_get_index_lists index_put_def al.lookup_put split: option.splits)

lemma index_get_lists: "index_get (index_lists m) k = map fst (index_get m k)"
  by (simp add: index_get_def map_get_index_lists split: option.splits)

lemma set_index_get_put:
  "set (index_get (index_lists (index_put k v m)) k') =
     (if k' = k then insert v (set (index_get (index_lists m) k)) else set (index_get (index_lists m) k'))"
  unfolding index_get_put by (simp add: index_get_lists dom_update)

lemma distinct_index_get_put:
  assumes "distinct (index_get (index_lists m) k')"
  shows "distinct (index_get (index_lists (index_put k v m)) k')"
  using assms unfolding index_get_put by (auto simp: index_get_lists intro: distinct_update)

text \<open>What the two index loops compute.\<close>

lemma set_index_fold:
  "set (index_get (index_lists
     (fold (\<lambda>e seen. if skipped e then seen else index_put (f e) (g e) seen) es m)) k) =
   set (index_get (index_lists m) k) \<union> {g e | e. e \<in> set es \<and> \<not> skipped e \<and> f e = k}"
  by (induction es arbitrary: m) (auto simp: set_index_get_put)

lemma distinct_index_fold:
  "distinct (index_get (index_lists m) k) \<Longrightarrow> distinct (index_get (index_lists
     (fold (\<lambda>e seen. if skipped e then seen else index_put (f e) (g e) seen) es m)) k)"
  by (induction es arbitrary: m) (auto simp: distinct_index_get_put)

lemma index_get_empty [simp]: "index_get (index_lists []) k = []"
  by (simp add: index_get_def index_lists_def)

lemma gvrs_of_gvk:
  "set (index_get (distinctGVRsByGVK es) k) = {en_GVR e | e. e \<in> set es \<and> \<not> en_Subresource e \<and> en_GVK e = k}"
  "distinct (index_get (distinctGVRsByGVK es) k)"
  unfolding distinctGVRsByGVK_def by (simp_all add: set_index_fold distinct_index_fold)

lemma gvks_of_gvr:
  "set (index_get (distinctGVKsByGVR es) r) = {en_GVK e | e. e \<in> set es \<and> \<not> en_Subresource e \<and> en_GVR e = r}"
  "distinct (index_get (distinctGVKsByGVR es) r)"
  unfolding distinctGVKsByGVR_def by (simp_all add: set_index_fold distinct_index_fold)

lemma distinct_singleton:
  assumes "distinct xs" and "x \<in> set xs"
  shows "length xs = 1 \<longleftrightarrow> set xs = {x}"
proof
  assume "length xs = 1"
  then show "set xs = {x}" using assms(2) by (auto simp: length_Suc_conv)
next
  assume "set xs = {x}"
  then show "length xs = 1" using distinct_card [OF assms(1)] by simp
qed

lemma set_Observations:
  "set (ObservationsFromEntries gs es ready) =
     (\<lambda>e. observationFromEntry e ready (index_get (distinctGVRsByGVK es) (en_GVK e))
            (index_get (distinctGVKsByGVR es) (en_GVR e))
            (subresourceParents es ''scale'') (subresourceParents es ''status''))
       ` {e \<in> set es. \<not> en_Subresource e}"
  by (simp add: ObservationsFromEntries_def Let_def)

lemma observation_of_entry:
  assumes "ob \<in> set (ObservationsFromEntries gs es ready)"
  obtains e where "e \<in> set es" and "\<not> en_Subresource e"
    and "id_GVK (ob_Identity ob) = en_GVK e" and "id_GVR (ob_Identity ob) = en_GVR e"
    and "GVKUnique ob \<longleftrightarrow> length (index_get (distinctGVRsByGVK es) (en_GVK e)) = 1"
    and "GVRUnique ob \<longleftrightarrow> length (index_get (distinctGVKsByGVR es) (en_GVR e)) = 1"
    and "ob_Subresources ob =
      subresourcesFor (en_GVR e) (subresourceParents es ''scale'') (subresourceParents es ''status'')"
proof -
  obtain e where "e \<in> set es" and "\<not> en_Subresource e"
    and "ob = observationFromEntry e ready (index_get (distinctGVRsByGVK es) (en_GVK e))
      (index_get (distinctGVKsByGVR es) (en_GVR e))
      (subresourceParents es ''scale'') (subresourceParents es ''status'')"
    using assms unfolding set_Observations by blast
  then show thesis by (intro that [of e]) (simp_all add: observationFromEntry_def Let_def)
qed

text \<open>The two uniqueness flags of an observation say what their names promise.\<close>

lemma unique_flags:
  assumes "ob \<in> set (ObservationsFromEntries gs es ready)"
    and "e' \<in> set es" and "\<not> en_Subresource e'"
  shows "GVKUnique ob \<Longrightarrow> en_GVK e' = id_GVK (ob_Identity ob) \<Longrightarrow> en_GVR e' = id_GVR (ob_Identity ob)"
    and "GVRUnique ob \<Longrightarrow> en_GVR e' = id_GVR (ob_Identity ob) \<Longrightarrow> en_GVK e' = id_GVK (ob_Identity ob)"
proof -
  from assms(1) obtain e where e: "e \<in> set es" "\<not> en_Subresource e"
    and id: "id_GVK (ob_Identity ob) = en_GVK e" "id_GVR (ob_Identity ob) = en_GVR e"
    and u: "GVKUnique ob \<longleftrightarrow> length (index_get (distinctGVRsByGVK es) (en_GVK e)) = 1"
      "GVRUnique ob \<longleftrightarrow> length (index_get (distinctGVKsByGVR es) (en_GVR e)) = 1"
    by (rule observation_of_entry)
  have r: "en_GVR e \<in> set (index_get (distinctGVRsByGVK es) (en_GVK e))"
    and k: "en_GVK e \<in> set (index_get (distinctGVKsByGVR es) (en_GVR e))"
    using e by (auto simp: gvrs_of_gvk gvks_of_gvr)
  have u1: "GVKUnique ob \<longleftrightarrow> set (index_get (distinctGVRsByGVK es) (en_GVK e)) = {en_GVR e}"
    unfolding u by (rule distinct_singleton [OF gvrs_of_gvk(2) r])
  have u2: "GVRUnique ob \<longleftrightarrow> set (index_get (distinctGVKsByGVR es) (en_GVR e)) = {en_GVK e}"
    unfolding u by (rule distinct_singleton [OF gvks_of_gvr(2) k])
  show "en_GVR e' = id_GVR (ob_Identity ob)"
    if "GVKUnique ob" and "en_GVK e' = id_GVK (ob_Identity ob)"
  proof -
    have "en_GVR e' \<in> set (index_get (distinctGVRsByGVK es) (en_GVK e))"
      using assms(2,3) that(2) unfolding id gvrs_of_gvk by auto
    then show ?thesis using that(1) unfolding u1 id by simp
  qed
  show "en_GVK e' = id_GVK (ob_Identity ob)"
    if "GVRUnique ob" and "en_GVR e' = id_GVR (ob_Identity ob)"
  proof -
    have "en_GVK e' \<in> set (index_get (distinctGVKsByGVR es) (en_GVR e))"
      using assms(2,3) that(2) unfolding id gvks_of_gvr by auto
    then show ?thesis using that(1) unfolding u2 id by simp
  qed
qed

lemma live_verdict_fit:
  assumes "fo_Verdict (Evaluate ob) \<in> {VerdictFollowable, VerdictRetained}"
  shows "permanently_fit ob"
  using assms unfolding Evaluate_verdict_closed by (metis Verdict.distinct insertE singletonD)

text \<open>
  among the types one scan judges live, kind and resource determine each other. Whatever the
  discovery entries hold, two observations with a followable or retained verdict have the same kind
  exactly when they have the same resource.
\<close>

theorem live_bijection:
  assumes "ob \<in> set (ObservationsFromEntries gs entries ready)"
    and "ob' \<in> set (ObservationsFromEntries gs entries ready)"
    and "fo_Verdict (Evaluate ob) \<in> {VerdictFollowable, VerdictRetained}"
    and "fo_Verdict (Evaluate ob') \<in> {VerdictFollowable, VerdictRetained}"
  shows "id_GVK (ob_Identity ob) = id_GVK (ob_Identity ob')
    \<longleftrightarrow> id_GVR (ob_Identity ob) = id_GVR (ob_Identity ob')"
proof -
  have u: "GVKUnique ob" "GVRUnique ob"
    using live_verdict_fit [OF assms(3)] by (simp_all add: permanently_fit_def)
  obtain e' where e': "e' \<in> set entries" "\<not> en_Subresource e'"
    and id: "id_GVK (ob_Identity ob') = en_GVK e'" "id_GVR (ob_Identity ob') = en_GVR e'"
    using assms(2) by (rule observation_of_entry)
  show ?thesis
    unfolding id using unique_flags(1) [OF assms(1) e' u(1)] unique_flags(2) [OF assms(1) e' u(2)]
    by metis
qed

definition sample_entry :: "string \<Rightarrow> string \<Rightarrow> string \<Rightarrow> Entry" where
  "sample_entry grp kind resource =
     \<lparr> en_GVK = \<lparr> gvk_Group = grp, gvk_Version = ''v1'', gvk_Kind = kind \<rparr>,
       en_GVR = \<lparr> gvr_Group = grp, gvr_Version = ''v1'', gvr_Resource = resource \<rparr>,
       en_Namespaced = True, en_Verbs = [''get'', ''list'', ''watch''], en_Preferred = True,
       en_Subresource = (CHR ''/'' \<in> set resource), en_Allowed = True, en_PolicyReason = [],
       en_Degraded = False, en_Sensitive = False \<rparr>"

text \<open>
  a scale write path is never guessed. A live type that exposes a scale subresource is one of
  the built-in scalable resources, and its replicas land on the registry's path.
\<close>

theorem live_scale_builtin:
  assumes "ob \<in> set (ObservationsFromEntries gs entries ready)"
    and "fo_Verdict (Evaluate ob) \<in> {VerdictFollowable, VerdictRetained}"
    and "sb_Enabled (sr_Scale (ob_Subresources ob))"
  shows "builtinScalable (gvr_Group (id_GVR (ob_Identity ob))) (gvr_Resource (id_GVR (ob_Identity ob)))
    \<and> sb_SpecReplicasPath (sr_Scale (ob_Subresources ob)) = ''.spec.replicas''"
proof -
  have usable: "sb_Usable (sr_Scale (ob_Subresources ob))"
    using live_verdict_fit [OF assms(2)] assms(3) by (simp add: permanently_fit_def)
  from assms(1) obtain e where "e \<in> set entries" and "\<not> en_Subresource e"
    and "id_GVK (ob_Identity ob) = en_GVK e" and gvr: "id_GVR (ob_Identity ob) = en_GVR e"
    and "GVKUnique ob \<longleftrightarrow> length (index_get (distinctGVRsByGVK entries) (en_GVK e)) = 1"
    and "GVRUnique ob \<longleftrightarrow> length (index_get (distinctGVKsByGVR entries) (en_GVR e)) = 1"
    and sub: "ob_Subresources ob =
      subresourcesFor (en_GVR e) (subresourceParents entries ''scale'') (subresourceParents entries ''status'')"
    by (rule observation_of_entry)
  have zero: "\<not> sb_Usable zero_ScaleBinding" by (simp add: zero_ScaleBinding_def)
  show ?thesis
  proof (cases "BuiltinScale (gvr_Group (en_GVR e)) (gvr_Resource (en_GVR e))")
    case None
    then show ?thesis using usable zero by (simp add: sub subresourcesFor_def split: if_splits)
  next
    case (Some b)
    then have "sr_Scale (ob_Subresources ob) = b"
      using usable zero by (simp add: sub subresourcesFor_def split: if_splits)
    moreover have "builtinScalable (gvr_Group (en_GVR e)) (gvr_Resource (en_GVR e))"
      and "sb_SpecReplicasPath b = ''.spec.replicas''"
      using Some by (auto simp: BuiltinScale_def builtinSpecReplicasPath_def split: if_splits)
    ultimately show ?thesis unfolding gvr by simp
  qed
qed

end
