(* ===== verification/Type_Registry.thy ===== *)
theory Type_Registry
  imports Type_Funnel "HOL-Library.Product_Lexorder"
begin

text \<open>
  Package \<open>internal/typeset\<close>, the stateful half: the registry of known types (\<open>registry.go\<close>), its
  lifecycle events and settle window (\<open>lifecycle.go\<close>), the publication of a discovery scan
  (\<open>scan.go\<close>) and the snapshot registry (\<open>lookup.go\<close>).

  A registry is a record; \<open>update\<close> takes the clock reading as an argument and returns the new
  registry with the deliveries to its observers. An observer is known by a number. The mutexes of
  the code make every operation atomic, so a run of the registry is a sequence of operations.

  The lemmas show the registry's invariant over every run, the removal grace (a type is held for
  sixty seconds and then dropped), the change counter and the settle window of activations.
\<close>

section \<open>State\<close>

definition RemovalGrace :: duration where
  "RemovalGrace = 60 * Second"

definition SettleWindow :: duration where
  "SettleWindow = 5 * Second"

record recordKey =
  rk_gvk :: GroupVersionKind
  rk_gvr :: GroupVersionResource
  rk_scope :: Scope

record groupResource =
  gr_group :: string
  gr_resource :: string

record entry =
  e_obs :: Observation
  e_record :: TypeRecord
  e_absentSince :: gotime
  e_followableSince :: gotime
  e_activated :: bool

record Registry =
  reg_grace :: duration
  reg_settle :: duration
  reg_entries :: "(recordKey, entry) gomap"
  reg_byGVK :: "(GroupVersionKind, recordKey list) gomap"
  reg_byGVR :: "(GroupVersionResource, recordKey) gomap"
  reg_byGroupResource :: "(groupResource, recordKey list) gomap"
  reg_observers :: "nat list"
  reg_generation :: "64 word"
  reg_revision :: "64 word"
  reg_ready :: bool

definition newRegistry :: Registry where
  "newRegistry =
     \<lparr> reg_grace = RemovalGrace, reg_settle = SettleWindow, reg_entries = [], reg_byGVK = [], reg_byGVR = [],
       reg_byGroupResource = [], reg_observers = [], reg_generation = 0, reg_revision = 0, reg_ready = False \<rparr>"

section \<open>Lifecycle events\<close>

datatype EventKind = TypeActivated | TypeWobbling | TypeRecovered | TypeRemoved | TypeRefused

fun kind_string :: "EventKind \<Rightarrow> string" where
  "kind_string TypeActivated = ''TypeActivated''"
| "kind_string TypeWobbling = ''TypeWobbling''"
| "kind_string TypeRecovered = ''TypeRecovered''"
| "kind_string TypeRemoved = ''TypeRemoved''"
| "kind_string TypeRefused = ''TypeRefused''"

text \<open>The empty verdict of a cold-start activation is \<open>None\<close>.\<close>

record LifecycleEvent =
  ev_Kind :: EventKind
  ev_GVK :: GroupVersionKind
  ev_GVR :: GroupVersionResource
  ev_From :: "Verdict option"
  ev_To :: Verdict
  ev_Reason :: Reason
  ev_Generation :: "64 word"
  ev_At :: gotime

definition lifecycleEvent ::
  "EventKind \<Rightarrow> TypeRecord \<Rightarrow> Verdict option \<Rightarrow> Verdict \<Rightarrow> Reason \<Rightarrow> gotime \<Rightarrow> 64 word
     \<Rightarrow> LifecycleEvent" where
  "lifecycleEvent kind rec from to reason at gen =
     \<lparr> ev_Kind = kind, ev_GVK = id_GVK (tr_Identity rec), ev_GVR = id_GVR (tr_Identity rec),
       ev_From = from, ev_To = to, ev_Reason = reason, ev_Generation = gen, ev_At = at \<rparr>"

abbreviation entry_verdict :: "entry \<Rightarrow> Verdict" where
  "entry_verdict e \<equiv> fo_Verdict (tr_Followability (e_record e))"

definition fromVerdict :: "entry option \<Rightarrow> Verdict option" where
  "fromVerdict prev = map_option entry_verdict prev"

definition reasonOf :: "TypeRecord \<Rightarrow> Reason" where
  "reasonOf rec =
     (case fo_FirstFailure (tr_Followability rec) of Some c \<Rightarrow> ck_Reason c | None \<Rightarrow> NoReason)"

definition wasLive :: "Verdict \<Rightarrow> bool" where
  "wasLive v = (v = VerdictFollowable \<or> v = VerdictRetained)"

definition appendTransitionEvent ::
  "LifecycleEvent list \<Rightarrow> entry option \<Rightarrow> entry \<Rightarrow> gotime \<Rightarrow> 64 word \<Rightarrow> LifecycleEvent list" where
  "appendTransitionEvent events prev cur now gen =
     (case prev of
        None \<Rightarrow> events
      | Some p \<Rightarrow>
          (let from = entry_verdict p; to = entry_verdict cur in
           if from = to then events
           else if from = VerdictFollowable \<and> to = VerdictRetained
           then events @ [lifecycleEvent TypeWobbling (e_record cur) (Some from) to
                            (reasonOf (e_record cur)) now gen]
           else if from = VerdictRetained \<and> to = VerdictFollowable
           then events @ [lifecycleEvent TypeRecovered (e_record cur) (Some from) to NoReason now gen]
           else if to = VerdictRefused \<and> wasLive from
           then events @ [lifecycleEvent TypeRefused (e_record cur) (Some from) to
                            (reasonOf (e_record cur)) now gen]
           else events))"

text \<open>The settle bookkeeping of one entry: the head of the first loop of \<open>computeLifecycleLocked\<close>.\<close>

definition settle_entry :: "entry option \<Rightarrow> entry \<Rightarrow> gotime \<Rightarrow> entry" where
  "settle_entry prev e now =
     (if entry_verdict e = VerdictFollowable
      then (case prev of
              Some p \<Rightarrow>
                if entry_verdict p = VerdictFollowable
                then e \<lparr> e_followableSince := e_followableSince p, e_activated := e_activated p \<rparr>
                else e \<lparr> e_followableSince := now, e_activated := False \<rparr>
            | None \<Rightarrow> e \<lparr> e_followableSince := now, e_activated := False \<rparr>)
      else e)"

definition activates :: "duration \<Rightarrow> entry \<Rightarrow> gotime \<Rightarrow> bool" where
  "activates window e now =
     (entry_verdict e = VerdictFollowable \<and> \<not> e_activated e
      \<and> \<not> time_IsZero (e_followableSince e) \<and> time_Sub now (e_followableSince e) \<ge> window)"

text \<open>One iteration of the first loop: the entry to store and the events it appends.\<close>

definition lifecycle_step ::
  "Registry \<Rightarrow> gotime \<Rightarrow> 64 word \<Rightarrow> recordKey \<times> entry \<Rightarrow> entry \<times> LifecycleEvent list" where
  "lifecycle_step r now gen = (\<lambda>(key, e0).
     (let prev = map_get (reg_entries r) key;
          e = settle_entry prev e0 now;
          events = appendTransitionEvent [] prev e now gen
      in if activates (reg_settle r) e now
         then (e \<lparr> e_activated := True \<rparr>,
               events @ [lifecycleEvent TypeActivated (e_record e) (fromVerdict prev)
                           VerdictFollowable NoReason now gen])
         else (e, events)))"

text \<open>The second loop: the live entries that left.\<close>

definition removal_events ::
  "Registry \<Rightarrow> (recordKey, entry) gomap \<Rightarrow> gotime \<Rightarrow> 64 word \<Rightarrow> LifecycleEvent list" where
  "removal_events r next now gen =
     concat (map (\<lambda>(key, prev).
       if map_get next key \<noteq> None then []
       else if \<not> Followable (e_record prev) then []
       else [lifecycleEvent TypeRemoved (e_record prev) (Some (entry_verdict prev)) VerdictRefused
               ReasonAbsenceExpired now gen]) (reg_entries r))"

definition sortLifecycleEvents ::
  "(GroupVersionResource \<Rightarrow> string) \<Rightarrow> LifecycleEvent list \<Rightarrow> LifecycleEvent list" where
  "sortLifecycleEvents gs events =
     sort_key (\<lambda>ev. (gs (ev_GVR ev), kind_string (ev_Kind ev))) events"

definition computeLifecycleLocked ::
  "(GroupVersionResource \<Rightarrow> string) \<Rightarrow> Registry \<Rightarrow> (recordKey, entry) gomap \<Rightarrow> gotime \<Rightarrow> 64 word
     \<Rightarrow> (recordKey, entry) gomap \<times> LifecycleEvent list" where
  "computeLifecycleLocked gs r next now gen =
     (let steps = map (\<lambda>ke. (fst ke, lifecycle_step r now gen ke)) next;
          next' = map (\<lambda>(key, e, evs). (key, e)) steps;
          events = concat (map (\<lambda>(key, e, evs). evs) steps)
      in (next', sortLifecycleEvents gs (events @ removal_events r next' now gen)))"

definition dispatchLifecycle :: "nat list \<Rightarrow> LifecycleEvent list \<Rightarrow> (nat \<times> LifecycleEvent) list" where
  "dispatchLifecycle obs events = concat (map (\<lambda>ev. map (\<lambda>ob. (ob, ev)) obs) events)"

definition Subscribe :: "nat option \<Rightarrow> Registry \<Rightarrow> Registry" where
  "Subscribe obs r =
     (case obs of None \<Rightarrow> r | Some ob \<Rightarrow> r \<lparr> reg_observers := reg_observers r @ [ob] \<rparr>)"

section \<open>Updates\<close>

definition observationKey :: "Observation \<Rightarrow> recordKey" where
  "observationKey obs =
     \<lparr> rk_gvk = id_GVK (ob_Identity obs), rk_gvr = id_GVR (ob_Identity obs),
       rk_scope = id_Scope (ob_Identity obs) \<rparr>"

definition recordFromObservation :: "Observation \<Rightarrow> 64 word \<Rightarrow> TypeRecord" where
  "recordFromObservation obs gen =
     \<lparr> tr_Identity = ob_Identity obs, tr_Origin = ob_Origin obs, tr_Preferred = ob_Preferred obs,
       tr_Verbs = ob_Verbs obs, tr_Subresources = ob_Subresources obs, tr_Sensitive = ob_Sensitive obs,
       tr_Followability = Evaluate obs, tr_Generation = gen \<rparr>"

definition followableKeys :: "(recordKey, entry) gomap \<Rightarrow> (recordKey, unit) gomap" where
  "followableKeys es = map (\<lambda>(key, e). (key, ())) (filter (\<lambda>(key, e). Followable (e_record e)) es)"

definition followableKeysLocked :: "Registry \<Rightarrow> (recordKey, unit) gomap" where
  "followableKeysLocked r = followableKeys (reg_entries r)"

definition sameKeySet :: "(recordKey, unit) gomap \<Rightarrow> (recordKey, unit) gomap \<Rightarrow> bool" where
  "sameKeySet a b =
     (if length a \<noteq> length b then False else \<forall>key \<in> set (map fst a). map_get b key \<noteq> None)"

text \<open>The entry one observation contributes to the next set.\<close>

definition fresh_entry :: "64 word \<Rightarrow> Observation \<Rightarrow> entry" where
  "fresh_entry gen obs =
     \<lparr> e_obs = obs, e_record = recordFromObservation obs gen, e_absentSince = 0,
       e_followableSince = 0, e_activated = False \<rparr>"

definition retain_absent_one ::
  "Registry \<Rightarrow> gotime \<Rightarrow> 64 word \<Rightarrow> recordKey \<times> entry \<Rightarrow> (recordKey, entry) gomap
     \<Rightarrow> (recordKey, entry) gomap" where
  "retain_absent_one r now gen = (\<lambda>(key, prev) next.
     if map_get next key \<noteq> None then next
     else if \<not> Followable (e_record prev) then next
     else
       (let absentSince = (if time_IsZero (e_absentSince prev) then now else e_absentSince prev);
            expired = (time_Sub now absentSince \<ge> reg_grace r);
            obs = (e_obs prev) \<lparr> Served := False, AbsenceExpired := expired \<rparr>;
            rec = recordFromObservation obs gen
        in if \<not> Followable rec then next
           else map_put key
             \<lparr> e_obs = obs, e_record = rec, e_absentSince = absentSince, e_followableSince = 0,
               e_activated = False \<rparr> next))"

definition retainAbsentLocked ::
  "Registry \<Rightarrow> (recordKey, entry) gomap \<Rightarrow> gotime \<Rightarrow> 64 word \<Rightarrow> (recordKey, entry) gomap" where
  "retainAbsentLocked r next now gen = fold (retain_absent_one r now gen) (reg_entries r) next"

definition append_at :: "'k \<Rightarrow> 'v \<Rightarrow> ('k, 'v list) gomap \<Rightarrow> ('k, 'v list) gomap" where
  "append_at k v m = map_put k (index_get m k @ [v]) m"

definition sort_index ::
  "(GroupVersionResource \<Rightarrow> string) \<Rightarrow> ('k, recordKey list) gomap \<Rightarrow> ('k, recordKey list) gomap" where
  "sort_index gs m = map (\<lambda>(k, ks). (k, sort_key (\<lambda>key. gs (rk_gvr key)) ks)) m"

definition rebuildIndexesLocked :: "(GroupVersionResource \<Rightarrow> string) \<Rightarrow> Registry \<Rightarrow> Registry" where
  "rebuildIndexesLocked gs r =
     (let keys = map fst (reg_entries r)
      in r \<lparr> reg_byGVK := sort_index gs (fold (\<lambda>key. append_at (rk_gvk key) key) keys []),
             reg_byGVR := fold (\<lambda>key. map_put (rk_gvr key) key) keys [],
             reg_byGroupResource := sort_index gs
               (fold (\<lambda>key. append_at \<lparr> gr_group = gvr_Group (rk_gvr key),
                                         gr_resource = gvr_Resource (rk_gvr key) \<rparr> key) keys []) \<rparr>)"

definition update ::
  "(GroupVersionResource \<Rightarrow> string) \<Rightarrow> gotime \<Rightarrow> Registry \<Rightarrow> Observation list \<Rightarrow> 64 word
     \<Rightarrow> Registry \<times> (nat \<times> LifecycleEvent) list" where
  "update gs now r observations gen =
     (let prevFollowable = followableKeysLocked r;
          next0 = fold (\<lambda>obs. map_put (observationKey obs) (fresh_entry gen obs)) observations [];
          next1 = retainAbsentLocked r next0 now gen;
          (next2, events) = computeLifecycleLocked gs r next1 now gen;
          r1 = rebuildIndexesLocked gs (r \<lparr> reg_entries := next2 \<rparr>);
          r2 = r1 \<lparr> reg_generation := gen, reg_ready := True \<rparr>;
          r3 = (if \<not> reg_ready r \<or> gen \<noteq> reg_generation r
                  \<or> \<not> sameKeySet prevFollowable (followableKeysLocked r2)
                then r2 \<lparr> reg_revision := reg_revision r + 1 \<rparr> else r2)
      in (r3, dispatchLifecycle (reg_observers r) events))"

definition Update ::
  "(GroupVersionResource \<Rightarrow> string) \<Rightarrow> gotime \<Rightarrow> Registry \<Rightarrow> Observation list \<Rightarrow> 64 word
     \<Rightarrow> Registry \<times> (nat \<times> LifecycleEvent) list" where
  "Update gs now r observations gen = update gs now r observations gen"

section \<open>Queries\<close>

definition Ready :: "Registry \<Rightarrow> bool" where
  "Ready r = reg_ready r"

definition Generation :: "Registry \<Rightarrow> 64 word" where
  "Generation r = reg_generation r"

definition Revision :: "Registry \<Rightarrow> 64 word" where
  "Revision r = reg_revision r"

text \<open>\<open>r.entries[key].record\<close> for a key the indexes hold; the indexes hold only stored keys.\<close>

definition record_at :: "Registry \<Rightarrow> recordKey \<Rightarrow> TypeRecord option" where
  "record_at r key = map_option e_record (map_get (reg_entries r) key)"

definition ByGVK :: "Registry \<Rightarrow> GroupVersionKind \<Rightarrow> TypeRecord option" where
  "ByGVK r gvk =
     (case index_get (reg_byGVK r) gvk of [] \<Rightarrow> None | key # keys \<Rightarrow> record_at r key)"

definition ByGVR :: "Registry \<Rightarrow> GroupVersionResource \<Rightarrow> TypeRecord option" where
  "ByGVR r gvr =
     (case map_get (reg_byGVR r) gvr of None \<Rightarrow> None | Some key \<Rightarrow> record_at r key)"

definition ByGroupResource :: "Registry \<Rightarrow> string \<Rightarrow> string \<Rightarrow> TypeRecord list" where
  "ByGroupResource r grp resource =
     map (\<lambda>key. the (record_at r key))
       (index_get (reg_byGroupResource r) \<lparr> gr_group = grp, gr_resource = resource \<rparr>)"

definition identitySortKey :: "Identity \<Rightarrow> string" where
  "identitySortKey ident =
     gvk_Group (id_GVK ident) @ ''|'' @ gvk_Version (id_GVK ident) @ ''|''
     @ gvk_Kind (id_GVK ident) @ ''|'' @ gvr_Resource (id_GVR ident)"

definition sortRecords :: "TypeRecord list \<Rightarrow> TypeRecord list" where
  "sortRecords recs = sort_key (\<lambda>rec. identitySortKey (tr_Identity rec)) recs"

definition records :: "Registry \<Rightarrow> (TypeRecord \<Rightarrow> bool) \<Rightarrow> TypeRecord list" where
  "records r keep = sortRecords (filter keep (map (e_record \<circ> snd) (reg_entries r)))"

definition reg_Followable :: "Registry \<Rightarrow> TypeRecord list" where
  "reg_Followable r = records r Followable"

definition reg_All :: "Registry \<Rightarrow> TypeRecord list" where
  "reg_All r = records r (\<lambda>_. True)"

section \<open>Scans\<close>

record Scan =
  sc_Entries :: "Entry list"
  sc_ScannedGroupVersions :: "GroupVersion list"
  sc_FailedGroupVersions :: "GroupVersion list"
  sc_Complete :: bool
  sc_Generation :: "64 word"

definition groupVersionSet :: "GroupVersion list \<Rightarrow> (GroupVersion, unit) gomap" where
  "groupVersionSet gvs = fold (\<lambda>gv. map_put gv ()) gvs []"

definition carriedObservations :: "Registry \<Rightarrow> Scan \<Rightarrow> Observation list \<Rightarrow> Observation list" where
  "carriedObservations r scan fresh =
     (let freshKeys = fold (\<lambda>obs. map_put (observationKey obs) ()) fresh [];
          failed = groupVersionSet (sc_FailedGroupVersions scan);
          scanned = groupVersionSet (sc_ScannedGroupVersions scan)
      in concat (map (\<lambda>(key, prev).
           if map_get freshKeys key \<noteq> None then []
           else if \<not> time_IsZero (e_absentSince prev) then []
           else if map_get failed (gvr_GroupVersion (rk_gvr key)) \<noteq> None
           then [(e_obs prev) \<lparr> Served := True, Trusted := False, AbsenceExpired := False \<rparr>]
           else if map_get scanned (gvr_GroupVersion (rk_gvr key)) \<noteq> None \<or> sc_Complete scan then []
           else [e_obs prev]) (reg_entries r)))"

definition UpdateFromScan ::
  "(GroupVersionResource \<Rightarrow> string) \<Rightarrow> gotime \<Rightarrow> Registry \<Rightarrow> Scan
     \<Rightarrow> Registry \<times> (nat \<times> LifecycleEvent) list" where
  "UpdateFromScan gs now r scan =
     (let fresh = ObservationsFromEntries gs (sc_Entries scan) True;
          observations = fresh @ carriedObservations r scan fresh
      in update gs now r observations (sc_Generation scan))"

section \<open>Snapshot registries\<close>

record Snapshot =
  sn_Entries :: "Entry list"
  sn_DegradedGroupVersions :: "GroupVersion list"
  sn_NotReady :: bool
  sn_Generation :: "64 word"

definition assumeFollowableVerbs :: "Entry list \<Rightarrow> Entry list" where
  "assumeFollowableVerbs es =
     map (\<lambda>e. if \<not> en_Subresource e \<and> length (en_Verbs e) = 0 then e \<lparr> en_Verbs := requiredVerbs \<rparr> else e) es"

definition markDegraded :: "Entry list \<Rightarrow> GroupVersion list \<Rightarrow> Entry list" where
  "markDegraded es degraded =
     (if length degraded = 0 then es
      else
        (let degradedSet = fold (\<lambda>gv. map_put gv ()) degraded [] in
         map (\<lambda>e. if map_get degradedSet (gvr_GroupVersion (en_GVR e)) \<noteq> None
                   then e \<lparr> en_Degraded := True \<rparr> else e) es))"

definition NewSnapshotRegistry ::
  "(GroupVersionResource \<Rightarrow> string) \<Rightarrow> gotime \<Rightarrow> Snapshot \<Rightarrow> Registry" where
  "NewSnapshotRegistry gs now snap =
     (if sn_NotReady snap then newRegistry
      else
        (let es = markDegraded (assumeFollowableVerbs (sn_Entries snap)) (sn_DegradedGroupVersions snap)
         in fst (Update gs now newRegistry (ObservationsFromEntries gs es True) (sn_Generation snap))))"

section \<open>Entry lemmas\<close>

text \<open>Whether a stored observation is live depends on three facts.\<close>

lemma Followable_record [simp]:
  "Followable (recordFromObservation obs gen) \<longleftrightarrow>
     permanently_fit obs \<and> (Trusted obs \<or> CatalogReady obs)"
  by (auto simp: Followable_def recordFromObservation_def Evaluate_verdict_closed)

lemma verdict_Followable [simp]:
  "fo_Verdict (tr_Followability (recordFromObservation obs gen)) = VerdictFollowable \<longleftrightarrow>
     permanently_fit obs \<and> Served obs \<and> Trusted obs"
  by (auto simp: recordFromObservation_def Evaluate_verdict_closed)

lemma permanently_fit_absent [simp]:
  "permanently_fit (obs \<lparr> Served := b, AbsenceExpired := x \<rparr>) \<longleftrightarrow>
     \<not> x \<and> permanently_fit (obs \<lparr> AbsenceExpired := False \<rparr>)"
  by (simp add: permanently_fit_def)

lemma permanently_fit_AbsenceExpired:
  "permanently_fit obs \<Longrightarrow> permanently_fit (obs \<lparr> AbsenceExpired := False \<rparr>)"
  by (simp add: permanently_fit_def)

lemma record_identity [simp]: "tr_Identity (recordFromObservation obs gen) = ob_Identity obs"
  by (simp add: recordFromObservation_def)

text \<open>
  What the lifecycle loop leaves of an entry: observation, record and absence clock are unchanged.
\<close>

lemma settle_entry_keeps [simp]:
  "e_obs (settle_entry prev e now) = e_obs e"
  "e_record (settle_entry prev e now) = e_record e"
  "e_absentSince (settle_entry prev e now) = e_absentSince e"
  by (simp_all add: settle_entry_def split: option.splits)

lemma lifecycle_step_keeps [simp]:
  "e_obs (fst (lifecycle_step r now gen (k, e))) = e_obs e"
  "e_record (fst (lifecycle_step r now gen (k, e))) = e_record e"
  "e_absentSince (fst (lifecycle_step r now gen (k, e))) = e_absentSince e"
  by (simp_all add: lifecycle_step_def Let_def)

lemma computeLifecycle_entries:
  "fst (computeLifecycleLocked gs r nxt now gen) =
     map (\<lambda>(k, e). (k, fst (lifecycle_step r now gen (k, e)))) nxt"
  by (simp add: computeLifecycleLocked_def Let_def comp_def case_prod_beta)

lemma map_get_mapped:
  "map_get (map (\<lambda>(k, v). (k, f k v)) m) k = map_option (f k) (map_get m k)"
  by (induction m) auto

section \<open>The absence loop\<close>

text \<open>
  The entry that \<open>retainAbsentLocked\<close> keeps for a live record that was not observed.
\<close>

definition absence_start :: "entry \<Rightarrow> gotime \<Rightarrow> gotime" where
  "absence_start prev now = (if time_IsZero (e_absentSince prev) then now else e_absentSince prev)"

definition retained_entry :: "duration \<Rightarrow> gotime \<Rightarrow> 64 word \<Rightarrow> entry \<Rightarrow> entry option" where
  "retained_entry window now gen prev =
     (let obs = (e_obs prev) \<lparr> Served := False,
                   AbsenceExpired := (window \<le> time_Sub now (absence_start prev now)) \<rparr>
      in if Followable (e_record prev) \<and> Followable (recordFromObservation obs gen)
         then Some \<lparr> e_obs = obs, e_record = recordFromObservation obs gen,
                     e_absentSince = absence_start prev now, e_followableSince = 0, e_activated = False \<rparr>
         else None)"

lemma retain_absent_one_get:
  "map_get (retain_absent_one r now gen (key, prev) nxt) k =
     (if k = key \<and> map_get nxt k = None then retained_entry (reg_grace r) now gen prev
      else map_get nxt k)"
  by (auto simp: retain_absent_one_def retained_entry_def absence_start_def Let_def al.lookup_put)

lemma retain_fold_get:
  assumes "map_wf es"
  shows "map_get (fold (retain_absent_one r now gen) es nxt) k =
    (case map_get nxt k of
       Some e \<Rightarrow> Some e
     | None \<Rightarrow> (case map_get es k of None \<Rightarrow> None | Some prev \<Rightarrow> retained_entry (reg_grace r) now gen prev))"
  using assms
proof (induction es arbitrary: nxt)
  case (Cons ke es)
  obtain key prev where ke: "ke = (key, prev)" by fastforce
  have "map_get es key = None"
    using Cons.prems ke by (simp add: map_of_eq_None_iff)
  then show ?case
    using Cons ke by (auto simp: retain_absent_one_get split: option.splits)
qed (simp split: option.splits)

lemma retain_fold_wf:
  "map_wf nxt \<Longrightarrow> map_wf (fold (retain_absent_one r now gen) es nxt)"
proof (induction es arbitrary: nxt)
  case (Cons ke es)
  then show ?case by (cases ke) (simp add: retain_absent_one_def Let_def)
qed simp

section \<open>What an update stores\<close>

lemma rebuild_keeps [simp]:
  "reg_entries (rebuildIndexesLocked gs r) = reg_entries r"
  "reg_grace (rebuildIndexesLocked gs r) = reg_grace r"
  "reg_settle (rebuildIndexesLocked gs r) = reg_settle r"
  "reg_observers (rebuildIndexesLocked gs r) = reg_observers r"
  "reg_revision (rebuildIndexesLocked gs r) = reg_revision r"
  by (simp_all add: rebuildIndexesLocked_def Let_def)

text \<open>The next set before the lifecycle loop: the fresh entries, then the retained ones.\<close>

definition next_set :: "Registry \<Rightarrow> gotime \<Rightarrow> Observation list \<Rightarrow> 64 word \<Rightarrow> (recordKey, entry) gomap" where
  "next_set r now observations gen =
     retainAbsentLocked r
       (fold (\<lambda>obs. map_put (observationKey obs) (fresh_entry gen obs)) observations []) now gen"

lemma next_set_wf: "map_wf (next_set r now observations gen)"
  unfolding next_set_def retainAbsentLocked_def
  by (intro retain_fold_wf map_wf_fold_put) simp

lemma next_set_get:
  assumes "map_wf (reg_entries r)"
  shows "map_get (next_set r now observations gen) k =
    (case find (\<lambda>obs. observationKey obs = k) (rev observations) of
       Some obs \<Rightarrow> Some (fresh_entry gen obs)
     | None \<Rightarrow> (case map_get (reg_entries r) k of
                   None \<Rightarrow> None
                 | Some prev \<Rightarrow> retained_entry (reg_grace r) now gen prev))"
  unfolding next_set_def retainAbsentLocked_def
  by (simp add: retain_fold_get [OF assms] al.lookup_fold_put split: option.splits)

lemma update_entries:
  "reg_entries (fst (update gs now r observations gen)) =
     map (\<lambda>(k, e). (k, fst (lifecycle_step r now gen (k, e)))) (next_set r now observations gen)"
  by (simp add: update_def Let_def next_set_def case_prod_beta computeLifecycle_entries)

lemma update_get:
  "map_get (reg_entries (fst (update gs now r observations gen))) k =
     map_option (\<lambda>e. fst (lifecycle_step r now gen (k, e))) (map_get (next_set r now observations gen) k)"
  unfolding update_entries map_get_mapped ..

lemma update_fields [simp]:
  "reg_grace (fst (update gs now r observations gen)) = reg_grace r"
  "reg_settle (fst (update gs now r observations gen)) = reg_settle r"
  "reg_observers (fst (update gs now r observations gen)) = reg_observers r"
  "reg_generation (fst (update gs now r observations gen)) = gen"
  "reg_ready (fst (update gs now r observations gen))"
  by (simp_all add: update_def Let_def case_prod_beta)

section \<open>Invariant\<close>

text \<open>
  An entry stored under a key: the key is the observation's, the record is what the funnel makes of
  the observation, an absence clock runs only for a live record that is not served, and the settle
  bookkeeping belongs to a followable record.
\<close>

definition entry_ok :: "64 word \<Rightarrow> recordKey \<Rightarrow> entry \<Rightarrow> bool" where
  "entry_ok gen k e =
     (observationKey (e_obs e) = k
      \<and> e_record e = recordFromObservation (e_obs e) gen
      \<and> (time_IsZero (e_absentSince e) \<or> \<not> Served (e_obs e) \<and> Followable (e_record e))
      \<and> (e_activated e \<longrightarrow> entry_verdict e = VerdictFollowable)
      \<and> (time_IsZero (e_followableSince e) \<or> entry_verdict e = VerdictFollowable))"

definition indexes_ok :: "Registry \<Rightarrow> bool" where
  "indexes_ok r =
     ((\<forall>gvk. set (index_get (reg_byGVK r) gvk) = {k \<in> fst ` set (reg_entries r). rk_gvk k = gvk})
      \<and> (\<forall>gvr. map_get (reg_byGVR r) gvr = None \<longleftrightarrow> gvr \<notin> rk_gvr ` fst ` set (reg_entries r))
      \<and> (\<forall>gvr k. map_get (reg_byGVR r) gvr = Some k \<longrightarrow> k \<in> fst ` set (reg_entries r) \<and> rk_gvr k = gvr)
      \<and> (\<forall>g res. set (index_get (reg_byGroupResource r) \<lparr> gr_group = g, gr_resource = res \<rparr>) =
                   {k \<in> fst ` set (reg_entries r). gvr_Group (rk_gvr k) = g \<and> gvr_Resource (rk_gvr k) = res}))"

definition reg_inv :: "Registry \<Rightarrow> bool" where
  "reg_inv r =
     (reg_grace r = RemovalGrace \<and> reg_settle r = SettleWindow
      \<and> map_wf (reg_entries r)
      \<and> (\<forall>k e. map_get (reg_entries r) k = Some e \<longrightarrow> entry_ok (reg_generation r) k e)
      \<and> indexes_ok r)"

lemma index_get_append_at:
  "index_get (append_at k v m) k' = (if k' = k then index_get m k @ [v] else index_get m k')"
  by (simp add: append_at_def index_get_def al.lookup_put)

lemma set_append_fold:
  "set (index_get (fold (\<lambda>key. append_at (f key) key) keys m) k) =
     set (index_get m k) \<union> {key \<in> set keys. f key = k}"
  by (induction keys arbitrary: m) (auto simp: index_get_append_at)

lemma set_index_get_sort: "set (index_get (sort_index gs m) k) = set (index_get m k)"
proof -
  have "map_get (sort_index gs m) k = map_option (sort_key (\<lambda>key. gs (rk_gvr key))) (map_get m k)"
    unfolding sort_index_def by (induction m) auto
  then show ?thesis by (simp add: index_get_def split: option.splits)
qed

lemma index_get_Nil [simp]: "index_get [] k = []"
  by (simp add: index_get_def)

lemma rebuild_indexes_ok: "indexes_ok (rebuildIndexesLocked gs r)"
proof -
  let ?keys = "map fst (reg_entries r)"
  define M where "M = fold (\<lambda>key. map_put (rk_gvr key) key) ?keys []"
  have none: "map_get M gvr = None \<longleftrightarrow>
      gvr \<notin> rk_gvr ` fst ` set (reg_entries r)" for gvr
    using al.lookup_fold_put_None [of rk_gvr "\<lambda>k. k" ?keys gvr] by (simp add: M_def)
  have some: "k \<in> fst ` set (reg_entries r) \<and> rk_gvr k = gvr"
    if "map_get M gvr = Some k" for gvr k
    using al.lookup_fold_put_Some [OF that [unfolded M_def]] by auto
  have "reg_byGVR (rebuildIndexesLocked gs r) = M"
    by (simp add: rebuildIndexesLocked_def Let_def M_def)
  moreover have "set (index_get (reg_byGVK (rebuildIndexesLocked gs r)) gvk) =
      {k \<in> fst ` set (reg_entries r). rk_gvk k = gvk}" for gvk
    by (simp add: rebuildIndexesLocked_def Let_def set_index_get_sort set_append_fold)
  moreover have "set (index_get (reg_byGroupResource (rebuildIndexesLocked gs r))
        \<lparr> gr_group = g, gr_resource = res \<rparr>) =
      {k \<in> fst ` set (reg_entries r). gvr_Group (rk_gvr k) = g \<and> gvr_Resource (rk_gvr k) = res}" for g res
    by (simp add: rebuildIndexesLocked_def Let_def set_index_get_sort set_append_fold)
  ultimately show ?thesis
    unfolding indexes_ok_def rebuild_keeps using none some by auto
qed

lemma indexes_ok_cong:
  assumes "indexes_ok r" and "reg_entries r' = reg_entries r" and "reg_byGVK r' = reg_byGVK r"
    and "reg_byGVR r' = reg_byGVR r" and "reg_byGroupResource r' = reg_byGroupResource r"
  shows "indexes_ok r'"
  using assms by (simp add: indexes_ok_def)

lemma update_indexes_ok: "indexes_ok (fst (update gs now r observations gen))"
  by (rule indexes_ok_cong [OF rebuild_indexes_ok [of gs
        "r \<lparr> reg_entries := fst (computeLifecycleLocked gs r (next_set r now observations gen) now gen) \<rparr>"]])
    (simp_all add: update_def next_set_def Let_def case_prod_beta rebuildIndexesLocked_def)

lemma entry_verdict_record:
  "e_record e = recordFromObservation obs gen \<Longrightarrow>
     entry_verdict e = VerdictFollowable \<longleftrightarrow> permanently_fit obs \<and> Served obs \<and> Trusted obs"
  by simp

lemma lifecycle_step_settled:
  "e_activated (fst (lifecycle_step r now gen (k, e))) \<Longrightarrow> \<not> e_activated e \<Longrightarrow>
     entry_verdict e = VerdictFollowable"
  "\<not> time_IsZero (e_followableSince (fst (lifecycle_step r now gen (k, e)))) \<Longrightarrow>
     time_IsZero (e_followableSince e) \<Longrightarrow> entry_verdict e = VerdictFollowable"
  by (auto simp: lifecycle_step_def Let_def settle_entry_def activates_def split: option.splits if_splits)

lemma lifecycle_step_ok:
  assumes "entry_ok gen k e" and "\<not> e_activated e" and "time_IsZero (e_followableSince e)"
  shows "entry_ok gen k (fst (lifecycle_step r now gen (k, e)))"
  using assms lifecycle_step_settled [of r now gen k e]
  unfolding entry_ok_def lifecycle_step_keeps by blast

lemma fresh_entry_ok: "entry_ok gen (observationKey obs) (fresh_entry gen obs)"
  by (simp add: entry_ok_def fresh_entry_def time_IsZero_def)

lemma observationKey_absent [simp]:
  "observationKey (obs \<lparr> Served := b, AbsenceExpired := x \<rparr>) = observationKey obs"
  by (simp add: observationKey_def)

lemma retained_entry_ok:
  assumes "retained_entry window now gen prev = Some e" and "observationKey (e_obs prev) = k"
  shows "entry_ok gen k e" and "\<not> e_activated e" and "time_IsZero (e_followableSince e)"
  using assms
  by (auto simp: retained_entry_def entry_ok_def time_IsZero_def Let_def split: if_splits)

lemma next_set_ok:
  assumes "reg_inv r" and "map_get (next_set r now observations gen) k = Some e"
  shows "entry_ok gen k e" and "\<not> e_activated e" and "time_IsZero (e_followableSince e)"
proof -
  have wf: "map_wf (reg_entries r)" using assms(1) by (simp add: reg_inv_def)
  consider (fresh) obs where "find (\<lambda>obs. observationKey obs = k) (rev observations) = Some obs"
      and "e = fresh_entry gen obs"
    | (held) prev where "map_get (reg_entries r) k = Some prev"
      and "retained_entry (reg_grace r) now gen prev = Some e"
    using assms(2) unfolding next_set_get [OF wf] by (auto split: option.splits)
  then have "entry_ok gen k e \<and> \<not> e_activated e \<and> time_IsZero (e_followableSince e)"
  proof cases
    case fresh
    then show ?thesis
      using fresh_entry_ok [of gen obs] by (auto simp: find_Some_iff fresh_entry_def time_IsZero_def)
  next
    case held
    then have "observationKey (e_obs prev) = k"
      using assms(1) by (auto simp: reg_inv_def entry_ok_def)
    with held(2) show ?thesis using retained_entry_ok by blast
  qed
  then show "entry_ok gen k e" and "\<not> e_activated e" and "time_IsZero (e_followableSince e)"
    by simp_all
qed

lemma update_inv:
  assumes "reg_inv r"
  shows "reg_inv (fst (update gs now r observations gen))"
proof -
  have "entry_ok gen k e" if "map_get (reg_entries (fst (update gs now r observations gen))) k = Some e" for k e
    using that next_set_ok [OF assms] lifecycle_step_ok unfolding update_get by auto
  moreover have "map_wf (reg_entries (fst (update gs now r observations gen)))"
    using next_set_wf [of r now observations gen]
    by (simp add: update_entries comp_def case_prod_beta)
  ultimately show ?thesis
    using assms update_indexes_ok by (simp add: reg_inv_def)
qed

text \<open>The operations that change a registry, as one step function.\<close>

datatype reg_op =
    OpUpdate gotime "Observation list" "64 word"
  | OpScan gotime Scan
  | OpSubscribe "nat option"

fun reg_step :: "(GroupVersionResource \<Rightarrow> string) \<Rightarrow> Registry \<Rightarrow> reg_op \<Rightarrow> Registry" where
  "reg_step gs r (OpUpdate now obs gen) = fst (Update gs now r obs gen)"
| "reg_step gs r (OpScan now scan) = fst (UpdateFromScan gs now r scan)"
| "reg_step gs r (OpSubscribe ob) = Subscribe ob r"

lemma Subscribe_inv: "reg_inv r \<Longrightarrow> reg_inv (Subscribe ob r)"
  by (cases ob) (auto simp: Subscribe_def reg_inv_def indexes_ok_def)

lemma newRegistry_inv: "reg_inv newRegistry"
  by (simp add: reg_inv_def newRegistry_def indexes_ok_def)

lemma reg_step_inv: "reg_inv r \<Longrightarrow> reg_inv (reg_step gs r op)"
  by (cases op) (simp_all add: Update_def UpdateFromScan_def Let_def update_inv Subscribe_inv)

interpretation reg: state_machine "reg_step gs" reg_inv newRegistry for gs
  by unfold_locales (rule newRegistry_inv, rule reg_step_inv)

text \<open>
  C7: the registry is consistent after every sequence of updates, scans and subscriptions. Each
  stored record is exactly the funnel's judgement of the observation stored with it, under the key of
  that observation; an absence clock runs only for a live record that is not served; a settle clock
  and an activation belong only to a followable record; and the three indexes list exactly the stored
  keys.
\<close>

theorem registry_consistent: "reg_inv (foldl (reg_step gs) newRegistry ops)"
  by (rule reg.inv_run)

section \<open>Removal grace\<close>

definition live_at :: "Registry \<Rightarrow> recordKey \<Rightarrow> bool" where
  "live_at r k =
     (case map_get (reg_entries r) k of None \<Rightarrow> False | Some e \<Rightarrow> Followable (e_record e))"

definition observed :: "recordKey \<Rightarrow> Observation list \<Rightarrow> bool" where
  "observed k observations = (k \<in> observationKey ` set observations)"

lemma find_unobserved: "\<not> observed k observations \<Longrightarrow> find (\<lambda>obs. observationKey obs = k) (rev observations) = None"
  by (auto simp: observed_def find_None_iff)

lemma reg_inv_wf: "reg_inv r \<Longrightarrow> map_wf (reg_entries r)"
  by (simp add: reg_inv_def)

lemma reg_inv_entry:
  "reg_inv r \<Longrightarrow> map_get (reg_entries r) k = Some e \<Longrightarrow> entry_ok (reg_generation r) k e"
  by (simp add: reg_inv_def)

text \<open>A live entry that is not observed is kept exactly while its absence is shorter than the grace.\<close>

lemma retained_entry_live:
  assumes "entry_ok gen0 k prev" and "Followable (e_record prev)"
  shows "retained_entry window now gen prev = None \<longleftrightarrow> window \<le> time_Sub now (absence_start prev now)"
    and "retained_entry window now gen prev = Some e \<Longrightarrow>
      Followable (e_record e) \<and> e_absentSince e = absence_start prev now"
proof -
  have "permanently_fit (e_obs prev)" and "Trusted (e_obs prev) \<or> CatalogReady (e_obs prev)"
    using assms by (auto simp: entry_ok_def)
  then have "permanently_fit ((e_obs prev) \<lparr> AbsenceExpired := False \<rparr>)"
    using permanently_fit_AbsenceExpired by blast
  then show "retained_entry window now gen prev = None \<longleftrightarrow> window \<le> time_Sub now (absence_start prev now)"
    and "retained_entry window now gen prev = Some e \<Longrightarrow>
      Followable (e_record e) \<and> e_absentSince e = absence_start prev now"
    using assms(2) \<open>Trusted (e_obs prev) \<or> CatalogReady (e_obs prev)\<close>
    by (auto simp: retained_entry_def Let_def split: if_splits)
qed

lemma grace_time_Sub: "RemovalGrace \<le> time_Sub t u \<longleftrightarrow> RemovalGrace \<le> t - u"
  by (rule time_Sub_ge) (simp_all add: RemovalGrace_def min_duration_def max_duration_def)

lemma update_unobserved:
  assumes "reg_inv r" and "\<not> observed k observations"
  shows "map_get (reg_entries (fst (update gs now r observations gen))) k =
    (case map_get (reg_entries r) k of
       None \<Rightarrow> None
     | Some prev \<Rightarrow> map_option (\<lambda>e. fst (lifecycle_step r now gen (k, e)))
                      (retained_entry RemovalGrace now gen prev))"
  using assms(1) unfolding update_get next_set_get [OF reg_inv_wf [OF assms(1)]] find_unobserved [OF assms(2)]
  by (simp add: reg_inv_def split: option.splits)

lemma update_absent_live:
  assumes "reg_inv r" and "\<not> observed k observations"
    and "map_get (reg_entries r) k = Some prev" and "Followable (e_record prev)"
  shows "RemovalGrace \<le> now - absence_start prev now \<Longrightarrow>
      map_get (reg_entries (fst (update gs now r observations gen))) k = None"
    and "now - absence_start prev now < RemovalGrace \<Longrightarrow>
      \<exists>e. map_get (reg_entries (fst (update gs now r observations gen))) k = Some e
        \<and> Followable (e_record e) \<and> e_absentSince e = absence_start prev now"
proof -
  have ok: "entry_ok (reg_generation r) k prev" using assms(1,3) by (rule reg_inv_entry)
  note ret = retained_entry_live [OF ok assms(4), of RemovalGrace now gen, unfolded grace_time_Sub]
  show "map_get (reg_entries (fst (update gs now r observations gen))) k = None"
    if "RemovalGrace \<le> now - absence_start prev now"
    using ret(1) that assms(3) unfolding update_unobserved [OF assms(1,2)] by simp
  assume "now - absence_start prev now < RemovalGrace"
  then obtain e where "retained_entry RemovalGrace now gen prev = Some e"
    using ret(1) by (auto simp: not_le [symmetric])
  then show "\<exists>e. map_get (reg_entries (fst (update gs now r observations gen))) k = Some e
      \<and> Followable (e_record e) \<and> e_absentSince e = absence_start prev now"
    using ret(2) assms(3) unfolding update_unobserved [OF assms(1,2)] by simp
qed

type_synonym update_call = "gotime \<times> Observation list \<times> 64 word"

definition updates :: "(GroupVersionResource \<Rightarrow> string) \<Rightarrow> Registry \<Rightarrow> update_call list \<Rightarrow> Registry" where
  "updates gs r us = foldl (\<lambda>r (now, obs, gen). fst (Update gs now r obs gen)) r us"

lemma updates_Cons:
  "updates gs r ((now, obs, gen) # us) = updates gs (fst (update gs now r obs gen)) us"
  by (simp add: updates_def Update_def)

lemma updates_never_seen:
  assumes "reg_inv r" and "map_get (reg_entries r) k = None"
    and "\<forall>u \<in> set us. \<not> observed k (fst (snd u))"
  shows "\<not> live_at (updates gs r us) k"
  using assms
proof (induction us arbitrary: r)
  case (Cons u us)
  then show ?case
    by (cases u) (simp add: updates_Cons update_unobserved update_inv)
qed (simp add: updates_def live_at_def)

lemma updates_absent_clock:
  assumes "reg_inv r" and "map_get (reg_entries r) k = Some e" and "Followable (e_record e)"
    and "e_absentSince e = t0" and "t0 \<noteq> 0" and "\<forall>u \<in> set us. \<not> observed k (fst (snd u))"
  shows "live_at (updates gs r us) k \<longleftrightarrow> (\<forall>u \<in> set us. fst u - t0 < RemovalGrace)"
  using assms
proof (induction us arbitrary: r e)
  case Nil
  then show ?case by (simp add: updates_def live_at_def)
next
  case (Cons u us)
  obtain now obs gen where u: "u = (now, obs, gen)" by (cases u) auto
  have start: "absence_start e now = t0" using Cons.prems by (simp add: absence_start_def time_IsZero_def)
  note step = update_absent_live [OF Cons.prems(1) _ Cons.prems(2,3), of obs now gs gen, unfolded start]
  have inv: "reg_inv (fst (update gs now r obs gen))" using Cons.prems(1) by (rule update_inv)
  have unobs: "\<not> observed k obs" "\<forall>u \<in> set us. \<not> observed k (fst (snd u))" using Cons.prems(6) u by auto
  show ?case
  proof (cases "now - t0 < RemovalGrace")
    case True
    with step(2) unobs(1) obtain e' where
      "map_get (reg_entries (fst (update gs now r obs gen))) k = Some e'"
      "Followable (e_record e')" "e_absentSince e' = t0" by blast
    then show ?thesis
      using Cons.IH [OF inv _ _ _ Cons.prems(5) unobs(2)] True by (simp add: u updates_Cons)
  next
    case False
    then have "map_get (reg_entries (fst (update gs now r obs gen))) k = None"
      using step(1) unobs(1) by simp
    then show ?thesis
      using updates_never_seen [OF inv _ unobs(2)] False by (simp add: u updates_Cons)
  qed
qed

text \<open>
  C6: removals are slow. Take any reachable registry and a live type in it that was observed by the
  last update, and let any sequence of updates follow that never observe the type, the first of them
  at time \<open>t0\<close>. The type is live after them exactly when every one of those updates came less than
  sixty seconds after \<open>t0\<close>: a shorter discovery blink never drops it, and it never outlives the grace.
\<close>

theorem removal_grace:
  assumes "r = foldl (reg_step gs) newRegistry ops"
    and "map_get (reg_entries r) k = Some e" and "Followable (e_record e)"
    and "time_IsZero (e_absentSince e)"
    and "\<forall>u \<in> set us. \<not> observed k (fst (snd u))"
    and "us \<noteq> []" and "fst (hd us) = t0" and "t0 \<noteq> 0"
  shows "live_at (updates gs r us) k \<longleftrightarrow> (\<forall>u \<in> set us. fst u - t0 < RemovalGrace)"
proof -
  have inv: "reg_inv r" unfolding assms(1) by (rule reg.inv_run)
  obtain obs gen us' where us: "us = (t0, obs, gen) # us'"
    using assms(6,7) by (cases us) auto
  have start: "absence_start e t0 = t0" using assms(4) by (simp add: absence_start_def)
  have unobs: "\<not> observed k obs" "\<forall>u \<in> set us'. \<not> observed k (fst (snd u))" using assms(5) us by auto
  obtain e' where e': "map_get (reg_entries (fst (update gs t0 r obs gen))) k = Some e'"
    "Followable (e_record e')" "e_absentSince e' = t0"
    using update_absent_live(2) [OF inv unobs(1) assms(2,3), of t0 gs gen] start
    by (auto simp: RemovalGrace_def)
  have "live_at (updates gs (fst (update gs t0 r obs gen)) us') k
      \<longleftrightarrow> (\<forall>u \<in> set us'. fst u - t0 < RemovalGrace)"
    by (rule updates_absent_clock [OF update_inv [OF inv] e' assms(8) unobs(2)])
  then show ?thesis by (simp add: us updates_Cons RemovalGrace_def)
qed

definition sample_obs :: Observation where
  "sample_obs = hd (ObservationsFromEntries gvr_Resource
     [sample_entry ''apps'' ''Deployment'' ''deployments''] True)"

definition sample_registry :: Registry where
  "sample_registry = foldl (reg_step gvr_Resource) newRegistry [OpUpdate (1 * Second) [sample_obs] 1]"

theorem removal_grace_witness:
  "live_at (updates gvr_Resource sample_registry
     [(10 * Second, [], 2), (69 * Second, [], 2)]) (observationKey sample_obs)
   \<and> \<not> live_at (updates gvr_Resource sample_registry
     [(10 * Second, [], 2), (70 * Second, [], 2)]) (observationKey sample_obs)"
proof -
  let ?k = "observationKey sample_obs"
  let ?e = "the (map_get (reg_entries sample_registry) ?k)"
  have e: "map_get (reg_entries sample_registry) ?k = Some ?e" by code_simp
  have live: "Followable (e_record ?e)" by code_simp
  have zero: "time_IsZero (e_absentSince ?e)" by code_simp
  note rule = removal_grace [OF sample_registry_def e live zero, where ?t0.0 = "10 * Second"]
  have "live_at (updates gvr_Resource sample_registry
      [(10 * Second, [], 2), (69 * Second, [], 2)]) ?k"
    using rule [of "[(10 * Second, [], 2), (69 * Second, [], 2)]"]
    by (simp add: observed_def RemovalGrace_def)
  moreover have "\<not> live_at (updates gvr_Resource sample_registry
      [(10 * Second, [], 2), (70 * Second, [], 2)]) ?k"
    using rule [of "[(10 * Second, [], 2), (70 * Second, [], 2)]"]
    by (simp add: observed_def RemovalGrace_def)
  ultimately show ?thesis ..
qed

section \<open>Change counter\<close>

lemma keys_followableKeys:
  "fst ` set (followableKeys es) = {k. \<exists>e. (k, e) \<in> set es \<and> Followable (e_record e)}"
  by (force simp: followableKeys_def)

lemma followableKeys_wf: "map_wf es \<Longrightarrow> map_wf (followableKeys es)"
  by (induction es) (force simp: followableKeys_def)+

lemma live_at_iff: "reg_inv r \<Longrightarrow> live_at r k \<longleftrightarrow> (\<exists>e. (k, e) \<in> set (reg_entries r) \<and> Followable (e_record e))"
  unfolding live_at_def
  by (cases "map_get (reg_entries r) k") (auto simp: map_of_eq_Some_iff [OF reg_inv_wf, symmetric])

lemma keys_followableKeysLocked: "reg_inv r \<Longrightarrow> fst ` set (followableKeysLocked r) = {k. live_at r k}"
  by (auto simp: followableKeysLocked_def keys_followableKeys live_at_iff)

lemma sameKeySet_iff:
  assumes "map_wf a" and "map_wf b"
  shows "sameKeySet a b \<longleftrightarrow> fst ` set a = fst ` set b"
proof -
  have card: "card (fst ` set a) = length a" "card (fst ` set b) = length b"
    using distinct_card [OF assms(1)] distinct_card [OF assms(2)] by simp_all
  have "(\<forall>key \<in> set (map fst a). map_get b key \<noteq> None) \<longleftrightarrow> fst ` set a \<subseteq> fst ` set b"
    by (auto simp: map_of_eq_None_iff)
  moreover have "fst ` set a = fst ` set b"
    if "length a = length b" and "fst ` set a \<subseteq> fst ` set b"
    using that card by (intro card_subset_eq) auto
  ultimately show ?thesis
    unfolding sameKeySet_def using card by auto
qed

lemma update_revision:
  "reg_revision (fst (update gs now r observations gen)) =
     (if \<not> reg_ready r \<or> gen \<noteq> reg_generation r
         \<or> \<not> sameKeySet (followableKeysLocked r) (followableKeysLocked (fst (update gs now r observations gen)))
      then reg_revision r + 1 else reg_revision r)"
  by (simp add: update_def Let_def case_prod_beta followableKeysLocked_def)

text \<open>
  the revision counter is a faithful change signal. Publishing an update on a reachable registry
  leaves the counter alone exactly when the registry was already ready, the scan generation did not
  move and the set of live types is the same as before; otherwise it advances by one.
\<close>

theorem revision_signals_change:
  assumes "r = foldl (reg_step gs) newRegistry ops"
    and "r' = fst (Update gs now r observations gen)"
  shows "Revision r' =
    (if Ready r \<and> gen = Generation r \<and> {k. live_at r' k} = {k. live_at r k}
     then Revision r else Revision r + 1)"
proof -
  have inv: "reg_inv r" unfolding assms(1) by (rule reg.inv_run)
  have inv': "reg_inv r'" unfolding assms(2) Update_def by (rule update_inv [OF inv])
  have "sameKeySet (followableKeysLocked r) (followableKeysLocked r') \<longleftrightarrow>
      {k. live_at r k} = {k. live_at r' k}"
    using followableKeys_wf [OF reg_inv_wf [OF inv]] followableKeys_wf [OF reg_inv_wf [OF inv']]
    by (simp add: sameKeySet_iff keys_followableKeysLocked inv inv' followableKeysLocked_def [symmetric])
  then show ?thesis
    using update_revision [of gs now r observations gen]
    unfolding Revision_def Ready_def Generation_def assms(2) Update_def by auto
qed

section \<open>Lifecycle events\<close>

lemma set_dispatch: "(ob, ev) \<in> set (dispatchLifecycle obs evs) \<longleftrightarrow> ob \<in> set obs \<and> ev \<in> set evs"
  by (auto simp: dispatchLifecycle_def)

lemma computeLifecycle_events:
  "set (snd (computeLifecycleLocked gs r nxt now gen)) =
     (\<Union>ke \<in> set nxt. set (snd (lifecycle_step r now gen ke)))
     \<union> set (removal_events r (fst (computeLifecycleLocked gs r nxt now gen)) now gen)"
  by (simp add: computeLifecycleLocked_def sortLifecycleEvents_def Let_def case_prod_beta comp_def)

lemma update_events:
  assumes "(ob, ev) \<in> set (snd (update gs now r observations gen))"
  obtains (entry) k e where "(k, e) \<in> set (next_set r now observations gen)"
      and "ev \<in> set (snd (lifecycle_step r now gen (k, e)))"
  | (gone) "ev \<in> set (removal_events r (reg_entries (fst (update gs now r observations gen))) now gen)"
proof -
  let ?c = "computeLifecycleLocked gs r (next_set r now observations gen) now gen"
  have "snd (update gs now r observations gen) = dispatchLifecycle (reg_observers r) (snd ?c)"
    by (simp add: update_def Let_def next_set_def case_prod_beta)
  moreover have "reg_entries (fst (update gs now r observations gen)) = fst ?c"
    by (simp add: update_entries computeLifecycle_entries)
  ultimately have "ev \<in> (\<Union>ke \<in> set (next_set r now observations gen). set (snd (lifecycle_step r now gen ke)))
      \<union> set (removal_events r (reg_entries (fst (update gs now r observations gen))) now gen)"
    using assms by (simp add: set_dispatch computeLifecycle_events)
  then show thesis using entry gone by fastforce
qed

lemma removal_events_cases:
  assumes "ev \<in> set (removal_events r m now gen)"
  obtains k prev where "(k, prev) \<in> set (reg_entries r)" and "map_get m k = None"
    and "Followable (e_record prev)"
    and "ev = lifecycleEvent TypeRemoved (e_record prev) (Some (entry_verdict prev)) VerdictRefused
      ReasonAbsenceExpired now gen"
  using assms by (auto simp: removal_events_def split: if_splits)

lemma lifecycleEvent_fields [simp]:
  "ev_Kind (lifecycleEvent kind rec from to reason at gen) = kind"
  "ev_GVK (lifecycleEvent kind rec from to reason at gen) = id_GVK (tr_Identity rec)"
  "ev_GVR (lifecycleEvent kind rec from to reason at gen) = id_GVR (tr_Identity rec)"
  by (simp_all add: lifecycleEvent_def)

lemma transition_event_cases:
  assumes "ev \<in> set (appendTransitionEvent [] prev e now gen)"
  obtains p where "prev = Some p" and "ev_GVK ev = id_GVK (tr_Identity (e_record e))"
    and "ev_GVR ev = id_GVR (tr_Identity (e_record e))"
    and "ev_Kind ev = TypeWobbling \<and> entry_verdict p = VerdictFollowable \<and> entry_verdict e = VerdictRetained
      \<or> ev_Kind ev = TypeRecovered \<and> entry_verdict p = VerdictRetained \<and> entry_verdict e = VerdictFollowable
      \<or> ev_Kind ev = TypeRefused \<and> Followable (e_record p) \<and> entry_verdict e = VerdictRefused"
  using assms
  by (cases prev) (auto simp: appendTransitionEvent_def Let_def wasLive_def Followable_def split: if_splits)

lemma lifecycle_step_events:
  assumes "ev \<in> set (snd (lifecycle_step r now gen (k, e)))"
  shows "ev \<in> set (appendTransitionEvent [] (map_get (reg_entries r) k)
            (settle_entry (map_get (reg_entries r) k) e now) now gen)
    \<or> activates (reg_settle r) (settle_entry (map_get (reg_entries r) k) e now) now
      \<and> ev_Kind ev = TypeActivated \<and> ev_GVK ev = id_GVK (tr_Identity (e_record e))
      \<and> ev_GVR ev = id_GVR (tr_Identity (e_record e))"
  using assms by (auto simp: lifecycle_step_def Let_def split: if_splits)

lemma entry_ok_key:
  "entry_ok gen k e \<Longrightarrow> id_GVK (tr_Identity (e_record e)) = rk_gvk k \<and> id_GVR (tr_Identity (e_record e)) = rk_gvr k"
  by (auto simp: entry_ok_def observationKey_def)

lemma settle_time_Sub: "SettleWindow \<le> time_Sub t u \<longleftrightarrow> SettleWindow \<le> t - u"
  by (rule time_Sub_ge) (simp_all add: SettleWindow_def min_duration_def max_duration_def)

text \<open>
  C34: a type activates only after it has settled, and once per streak. Whenever an update of a
  reachable registry delivers \<open>TypeActivated\<close>, the type named is now followable, has been so without a
  gap for at least five seconds, and no earlier update had activated that streak.
\<close>

theorem activation_settled:
  assumes "r = foldl (reg_step gs) newRegistry ops"
    and "(ob, ev) \<in> set (snd (Update gs now r observations gen))"
    and "ev_Kind ev = TypeActivated"
  shows "\<exists>k e. map_get (reg_entries (fst (Update gs now r observations gen))) k = Some e
    \<and> rk_gvk k = ev_GVK ev \<and> rk_gvr k = ev_GVR ev
    \<and> entry_verdict e = VerdictFollowable \<and> e_activated e
    \<and> SettleWindow \<le> now - e_followableSince e
    \<and> (case map_get (reg_entries r) k of
          None \<Rightarrow> e_followableSince e = now
        | Some p \<Rightarrow> if entry_verdict p = VerdictFollowable
                    then \<not> e_activated p \<and> e_followableSince e = e_followableSince p
                    else e_followableSince e = now)"
proof -
  have inv: "reg_inv r" unfolding assms(1) by (rule reg.inv_run)
  from assms(2) [unfolded Update_def] show ?thesis
  proof (cases rule: update_events)
    case gone
    then show ?thesis using assms(3) by (auto elim!: removal_events_cases)
  next
    case (entry k e)
    let ?prev = "map_get (reg_entries r) k"
    have get: "map_get (next_set r now observations gen) k = Some e"
      using entry(1) next_set_wf by simp
    have act: "activates (reg_settle r) (settle_entry ?prev e now) now"
      and id: "ev_GVK ev = rk_gvk k" "ev_GVR ev = rk_gvr k"
      using lifecycle_step_events [OF entry(2)] assms(3) entry_ok_key [OF next_set_ok(1) [OF inv get]]
      by (auto elim!: transition_event_cases)
    have "reg_settle r = SettleWindow" using inv by (simp add: reg_inv_def)
    with act have v: "entry_verdict e = VerdictFollowable" "\<not> e_activated (settle_entry ?prev e now)"
      "SettleWindow \<le> now - e_followableSince (settle_entry ?prev e now)"
      by (auto simp: activates_def settle_time_Sub)
    have new: "map_get (reg_entries (fst (update gs now r observations gen))) k =
        Some ((settle_entry ?prev e now) \<lparr> e_activated := True \<rparr>)"
      using get act by (simp add: update_get lifecycle_step_def Let_def)
    show ?thesis
      unfolding Update_def using new v id
      by (intro exI [of _ k] exI [of _ "(settle_entry ?prev e now) \<lparr> e_activated := True \<rparr>"])
        (auto simp: settle_entry_def split: option.splits)
  qed
qed

definition watched_registry :: Registry where
  "watched_registry = foldl (reg_step gvr_Resource) newRegistry
     [OpSubscribe (Some 7), OpUpdate (1 * Second) [sample_obs] 1]"

theorem activation_settled_witness:
  "\<exists>ev k e. snd (Update gvr_Resource (6 * Second) watched_registry [sample_obs] 1) = [(7, ev)]
    \<and> ev_Kind ev = TypeActivated
    \<and> map_get (reg_entries (fst (Update gvr_Resource (6 * Second) watched_registry [sample_obs] 1))) k = Some e
    \<and> SettleWindow \<le> 6 * Second - e_followableSince e
    \<and> snd (Update gvr_Resource (5 * Second) watched_registry [sample_obs] 1) = []"
proof -
  let ?out = "snd (Update gvr_Resource (6 * Second) watched_registry [sample_obs] 1)"
  let ?ev = "snd (hd ?out)"
  have out: "map fst ?out = [7]" by code_simp
  have kind: "ev_Kind ?ev = TypeActivated" by code_simp
  have none: "snd (Update gvr_Resource (5 * Second) watched_registry [sample_obs] 1) = []" by code_simp
  from out have eq: "?out = [(7, ?ev)]" by (auto simp: map_eq_Cons_conv)
  then have "(7, ?ev) \<in> set ?out" by (rule singleton_mem)
  from activation_settled [OF watched_registry_def this kind] obtain k e where
    "map_get (reg_entries (fst (Update gvr_Resource (6 * Second) watched_registry [sample_obs] 1))) k = Some e"
    and "SettleWindow \<le> 6 * Second - e_followableSince e" by blast
  with eq kind none show ?thesis by blast
qed

text \<open>
  no event claims a loss that did not happen. An update of a reachable registry delivers
  \<open>TypeRemoved\<close> only for a type that was live, has been absent for the whole removal grace and is no
  longer stored; it delivers \<open>TypeRefused\<close> only for a type that was live and is now stored as refused.
\<close>

theorem no_spurious_loss:
  assumes "r = foldl (reg_step gs) newRegistry ops"
    and "(ob, ev) \<in> set (snd (Update gs now r observations gen))"
    and "ev_Kind ev \<in> {TypeRemoved, TypeRefused}"
  shows "\<exists>k p. map_get (reg_entries r) k = Some p \<and> Followable (e_record p)
    \<and> rk_gvk k = ev_GVK ev \<and> rk_gvr k = ev_GVR ev
    \<and> (if ev_Kind ev = TypeRemoved
       then RemovalGrace \<le> now - e_absentSince p
         \<and> record_at (fst (Update gs now r observations gen)) k = None
       else \<exists>rec. record_at (fst (Update gs now r observations gen)) k = Some rec
         \<and> fo_Verdict (tr_Followability rec) = VerdictRefused)"
proof -
  have inv: "reg_inv r" unfolding assms(1) by (rule reg.inv_run)
  from assms(2) [unfolded Update_def] show ?thesis
  proof (cases rule: update_events)
    case gone
    then obtain k p where kp: "(k, p) \<in> set (reg_entries r)" "Followable (e_record p)"
      and none: "map_get (reg_entries (fst (update gs now r observations gen))) k = None"
      and ev: "ev = lifecycleEvent TypeRemoved (e_record p) (Some (entry_verdict p)) VerdictRefused
        ReasonAbsenceExpired now gen"
      by (rule removal_events_cases)
    then have get: "map_get (reg_entries r) k = Some p" using reg_inv_wf [OF inv] by simp
    have "find (\<lambda>obs. observationKey obs = k) (rev observations) = None"
      using none unfolding update_get next_set_get [OF reg_inv_wf [OF inv]] by (auto split: option.splits)
    then have unobs: "\<not> observed k observations" by (auto simp: observed_def find_None_iff)
    have "\<not> now - absence_start p now < RemovalGrace"
      using update_absent_live(2) [OF inv unobs get kp(2), of now gs gen] none by auto
    then have "RemovalGrace \<le> now - e_absentSince p"
      by (auto simp: absence_start_def RemovalGrace_def split: if_splits)
    then show ?thesis
      using get kp none ev entry_ok_key [OF reg_inv_entry [OF inv get]]
      by (auto simp: Update_def record_at_def)
  next
    case (entry k e)
    let ?prev = "map_get (reg_entries r) k"
    have get: "map_get (next_set r now observations gen) k = Some e"
      using entry(1) next_set_wf by simp
    have "ev \<in> set (appendTransitionEvent [] ?prev (settle_entry ?prev e now) now gen)"
      using lifecycle_step_events [OF entry(2)] assms(3) by auto
    then obtain p where "?prev = Some p" "ev_GVK ev = rk_gvk k" "ev_GVR ev = rk_gvr k"
      "ev_Kind ev = TypeRefused" "Followable (e_record p)" "entry_verdict e = VerdictRefused"
      using assms(3) entry_ok_key [OF next_set_ok(1) [OF inv get]]
      by (auto elim!: transition_event_cases)
    moreover have "record_at (fst (update gs now r observations gen)) k = Some (e_record e)"
      using get by (simp add: record_at_def update_get)
    ultimately show ?thesis
      by (intro exI [of _ k] exI [of _ p]) (simp add: Update_def)
  qed
qed

section \<open>Discovery failures\<close>



text \<open>The observation that is carried for a record whose group/version failed.\<close>

definition untrusted_obs :: "Observation \<Rightarrow> Observation" where
  "untrusted_obs obs = obs \<lparr> Served := True, Trusted := False, AbsenceExpired := False \<rparr>"

lemma untrusted_obs_simps [simp]:
  "observationKey (untrusted_obs obs) = observationKey obs"
  "CatalogReady (untrusted_obs obs) = CatalogReady obs"
  "Served (untrusted_obs obs)" "\<not> Trusted (untrusted_obs obs)"
  "permanently_fit obs \<Longrightarrow> permanently_fit (untrusted_obs obs)"
  by (simp_all add: untrusted_obs_def observationKey_def permanently_fit_def)






section \<open>Lookups\<close>

lemma set_records: "set (records r keep) = {rec. keep rec \<and> (\<exists>k e. (k, e) \<in> set (reg_entries r) \<and> e_record e = rec)}"
  by (force simp: records_def sortRecords_def)

lemma record_at_stored:
  assumes "reg_inv r" and "k \<in> fst ` set (reg_entries r)"
  obtains rec where "record_at r k = Some rec" and "rec \<in> set (reg_All r)"
    and "id_GVK (tr_Identity rec) = rk_gvk k" and "id_GVR (tr_Identity rec) = rk_gvr k"
proof -
  from assms(2) obtain e where "(k, e) \<in> set (reg_entries r)" by force
  moreover from this have get: "map_get (reg_entries r) k = Some e" using reg_inv_wf [OF assms(1)] by simp
  ultimately show thesis
    using that [of "e_record e"] entry_ok_key [OF reg_inv_entry [OF assms(1) get]]
    by (auto simp: record_at_def reg_All_def set_records)
qed

lemma All_identities:
  assumes "reg_inv r"
  shows "(id_GVK \<circ> tr_Identity) ` set (reg_All r) = rk_gvk ` fst ` set (reg_entries r)"
    and "(id_GVR \<circ> tr_Identity) ` set (reg_All r) = rk_gvr ` fst ` set (reg_entries r)"
proof -
  have id: "id_GVK (tr_Identity (e_record e)) = rk_gvk k \<and> id_GVR (tr_Identity (e_record e)) = rk_gvr k"
    if "(k, e) \<in> set (reg_entries r)" for k e
    using that reg_inv_wf [OF assms] entry_ok_key [OF reg_inv_entry [OF assms]] by simp
  have all: "set (reg_All r) = (e_record \<circ> snd) ` set (reg_entries r)"
    by (force simp: reg_All_def set_records)
  show "(id_GVK \<circ> tr_Identity) ` set (reg_All r) = rk_gvk ` fst ` set (reg_entries r)"
    and "(id_GVR \<circ> tr_Identity) ` set (reg_All r) = rk_gvr ` fst ` set (reg_entries r)"
    unfolding all image_comp using id by (auto intro!: image_cong)
qed

text \<open>
  the lookups answer from the published records and miss none. On a reachable registry a lookup
  by kind or by resource finds nothing exactly when no record has that kind or resource, and what it
  finds is a published record of that kind or resource.
\<close>

theorem lookups_exact:
  assumes "r = foldl (reg_step gs) newRegistry ops"
  shows "(case ByGVK r gvk of
            None \<Rightarrow> gvk \<notin> (id_GVK \<circ> tr_Identity) ` set (reg_All r)
          | Some rec \<Rightarrow> rec \<in> set (reg_All r) \<and> id_GVK (tr_Identity rec) = gvk)
    \<and> (case ByGVR r gvr of
          None \<Rightarrow> gvr \<notin> (id_GVR \<circ> tr_Identity) ` set (reg_All r)
        | Some rec \<Rightarrow> rec \<in> set (reg_All r) \<and> id_GVR (tr_Identity rec) = gvr)"
proof
  have inv: "reg_inv r" unfolding assms by (rule reg.inv_run)
  then have ix: "indexes_ok r" by (simp add: reg_inv_def)
  then have keys: "set (index_get (reg_byGVK r) gvk) = {k \<in> fst ` set (reg_entries r). rk_gvk k = gvk}"
    by (simp add: indexes_ok_def)
  show "case ByGVK r gvk of None \<Rightarrow> gvk \<notin> (id_GVK \<circ> tr_Identity) ` set (reg_All r)
      | Some rec \<Rightarrow> rec \<in> set (reg_All r) \<and> id_GVK (tr_Identity rec) = gvk"
  proof (cases "index_get (reg_byGVK r) gvk")
    case Nil
    with keys have "gvk \<notin> rk_gvk ` fst ` set (reg_entries r)" by (auto simp: set_eq_iff)
    then show ?thesis using Nil by (simp add: ByGVK_def All_identities [OF inv] del: comp_apply)
  next
    case (Cons k ks)
    with keys have "k \<in> fst ` set (reg_entries r)" and "rk_gvk k = gvk" by (auto simp: set_eq_iff)
    then obtain rec where "record_at r k = Some rec" and "rec \<in> set (reg_All r)"
      and "id_GVK (tr_Identity rec) = gvk" by (metis record_at_stored [OF inv])
    then show ?thesis using Cons by (simp add: ByGVK_def)
  qed
  show "case ByGVR r gvr of None \<Rightarrow> gvr \<notin> (id_GVR \<circ> tr_Identity) ` set (reg_All r)
      | Some rec \<Rightarrow> rec \<in> set (reg_All r) \<and> id_GVR (tr_Identity rec) = gvr"
  proof (cases "map_get (reg_byGVR r) gvr")
    case None
    then have "gvr \<notin> rk_gvr ` fst ` set (reg_entries r)" using ix by (simp add: indexes_ok_def)
    then show ?thesis using None by (simp add: ByGVR_def All_identities [OF inv] del: comp_apply)
  next
    case (Some k)
    then have "k \<in> fst ` set (reg_entries r)" and "rk_gvr k = gvr"
      using ix by (auto simp: indexes_ok_def)
    then obtain rec where "record_at r k = Some rec" and "rec \<in> set (reg_All r)"
      and "id_GVR (tr_Identity rec) = gvr" by (metis record_at_stored [OF inv])
    then show ?thesis using Some by (simp add: ByGVR_def)
  qed
qed

end
