(* ===== verification/Type_Materializer.thy ===== *)
theory Type_Materializer
  imports Type_Registry
begin

text \<open>
  Package \<open>internal/typeset\<close>, the second axis: the materializer (\<open>materializer.go\<close>,
  \<open>materialization_lifecycle.go\<close>), which tracks which GitTargets claim a type, how far its checkpoint
  has come and which revision it serves.

  A materializer is a record of two maps; every operation takes the clock reading, returns the new
  materializer and the events it dispatches, sorted as the code sorts them. The pointers to
  \<open>typeState\<close> that the code mutates are entries of the map \<open>mt_types\<close>, one per resource, so a mutation
  is an update of that entry.

  The lemmas show the phase invariant on every reachable state, that a sync starts exactly for the
  types the pull query lists, that losing followability drops the checkpoint and keeps it dropped,
  what a sweep leaves of the leases, and that a claim and an activation may come in either order.
\<close>

section \<open>State\<close>

datatype Phase =
  PhaseDormant | PhaseRequested | PhaseSyncing | PhaseSynced | PhaseResyncing | PhaseFailing

type_synonym GitTargetRef = string

record typeState =
  ts_phase :: Phase
  ts_followable :: bool
  ts_frozen :: bool
  ts_pendingResync :: bool
  ts_checkpointRV :: string

datatype MaterializationEventKind =
  SyncRequested | SyncStarted | TypeSynced | SyncFailed | Released | Unclaimed

fun mkind_string :: "MaterializationEventKind \<Rightarrow> string" where
  "mkind_string SyncRequested = ''SyncRequested''"
| "mkind_string SyncStarted = ''SyncStarted''"
| "mkind_string TypeSynced = ''TypeSynced''"
| "mkind_string SyncFailed = ''SyncFailed''"
| "mkind_string Released = ''Released''"
| "mkind_string Unclaimed = ''Unclaimed''"

record MaterializationEvent =
  me_Kind :: MaterializationEventKind
  me_GVR :: GroupVersionResource
  me_Phase :: Phase
  me_RV :: string
  me_At :: gotime

record Materializer =
  mt_claims :: "(GroupVersionResource, (GitTargetRef, gotime) gomap) gomap"
  mt_types :: "(GroupVersionResource, typeState) gomap"
  mt_observers :: "nat list"
  mt_lastSweepAt :: gotime

definition newMaterializer :: "gotime \<Rightarrow> Materializer" where
  "newMaterializer now =
     \<lparr> mt_claims = [], mt_types = [], mt_observers = [], mt_lastSweepAt = now \<rparr>"

section \<open>Events\<close>

definition m_event ::
  "MaterializationEventKind \<Rightarrow> GroupVersionResource \<Rightarrow> typeState \<Rightarrow> gotime \<Rightarrow> MaterializationEvent" where
  "m_event kind gvr st now =
     \<lparr> me_Kind = kind, me_GVR = gvr, me_Phase = ts_phase st, me_RV = ts_checkpointRV st, me_At = now \<rparr>"

definition dispatchMaterialization ::
  "nat list \<Rightarrow> MaterializationEvent list \<Rightarrow> (nat \<times> MaterializationEvent) list" where
  "dispatchMaterialization obs events = concat (map (\<lambda>ev. map (\<lambda>ob. (ob, ev)) obs) events)"

definition sortMaterializationEvents ::
  "(GroupVersionResource \<Rightarrow> string) \<Rightarrow> MaterializationEvent list \<Rightarrow> MaterializationEvent list" where
  "sortMaterializationEvents gs events =
     sort_key (\<lambda>ev. (gs (me_GVR ev), mkind_string (me_Kind ev))) events"

definition mt_Subscribe :: "nat option \<Rightarrow> Materializer \<Rightarrow> Materializer" where
  "mt_Subscribe obs m =
     (case obs of None \<Rightarrow> m | Some ob \<Rightarrow> m \<lparr> mt_observers := mt_observers m @ [ob] \<rparr>)"

section \<open>Helpers that run under the lock\<close>

definition dormant :: typeState where
  "dormant = \<lparr> ts_phase = PhaseDormant, ts_followable = False, ts_frozen = False,
                ts_pendingResync = False, ts_checkpointRV = [] \<rparr>"

text \<open>\<open>stateLocked\<close>: the state of a type, and the map with the entry created.\<close>

definition state_of :: "Materializer \<Rightarrow> GroupVersionResource \<Rightarrow> typeState" where
  "state_of m gvr = (case map_get (mt_types m) gvr of None \<Rightarrow> dormant | Some st \<Rightarrow> st)"

definition put_state :: "GroupVersionResource \<Rightarrow> typeState \<Rightarrow> Materializer \<Rightarrow> Materializer" where
  "put_state gvr st m = m \<lparr> mt_types := map_put gvr st (mt_types m) \<rparr>"

definition stateLocked :: "GroupVersionResource \<Rightarrow> Materializer \<Rightarrow> Materializer \<times> typeState" where
  "stateLocked gvr m = (put_state gvr (state_of m gvr) m, state_of m gvr)"

definition claims_of :: "Materializer \<Rightarrow> GroupVersionResource \<Rightarrow> (GitTargetRef, gotime) gomap" where
  "claims_of m gvr = (case map_get (mt_claims m) gvr of None \<Rightarrow> [] | Some refs \<Rightarrow> refs)"

definition maybeRequestLocked ::
  "GroupVersionResource \<Rightarrow> typeState \<Rightarrow> gotime \<Rightarrow> MaterializationEvent list \<Rightarrow> Materializer
     \<Rightarrow> Materializer \<times> typeState \<times> MaterializationEvent list" where
  "maybeRequestLocked gvr st now events m =
     (if ts_followable st \<and> \<not> ts_frozen st \<and> ts_phase st = PhaseDormant \<and> length (claims_of m gvr) > 0
      then (let st' = st \<lparr> ts_phase := PhaseRequested \<rparr>
            in (put_state gvr st' m, st', events @ [m_event SyncRequested gvr st' now]))
      else (m, st, events))"

definition releaseLocked ::
  "GroupVersionResource \<Rightarrow> typeState \<Rightarrow> gotime \<Rightarrow> Materializer \<Rightarrow> Materializer \<times> MaterializationEvent" where
  "releaseLocked gvr st now m =
     (let st' = st \<lparr> ts_phase := PhaseDormant, ts_checkpointRV := [], ts_pendingResync := False \<rparr>
      in (put_state gvr st' m, m_event Released gvr st' now))"

definition forceReleaseLocked ::
  "GroupVersionResource \<Rightarrow> typeState \<Rightarrow> gotime \<Rightarrow> MaterializationEvent list \<Rightarrow> Materializer
     \<Rightarrow> Materializer \<times> MaterializationEvent list" where
  "forceReleaseLocked gvr st now events m =
     (if ts_phase st = PhaseDormant then (put_state gvr st m, events)
      else (let (m', ev) = releaseLocked gvr st now m in (m', events @ [ev])))"

section \<open>Operations\<close>

definition declare_one ::
  "GitTargetRef \<Rightarrow> gotime \<Rightarrow> GroupVersionResource \<Rightarrow> Materializer \<times> MaterializationEvent list
     \<Rightarrow> Materializer \<times> MaterializationEvent list" where
  "declare_one ref now gvr = (\<lambda>(m, events).
     (let m1 = m \<lparr> mt_claims := map_put gvr (map_put ref now (claims_of m gvr)) (mt_claims m) \<rparr>;
          (m2, st) = stateLocked gvr m1;
          (m3, st', events') = maybeRequestLocked gvr st now events m2
      in (m3, events')))"

type_synonym deliveries = "(nat \<times> MaterializationEvent) list"

definition Declare ::
  "(GroupVersionResource \<Rightarrow> string) \<Rightarrow> gotime \<Rightarrow> GitTargetRef \<Rightarrow> GroupVersionResource list \<Rightarrow> Materializer
     \<Rightarrow> Materializer \<times> deliveries" where
  "Declare gs now ref desired m =
     (let (m', events) = fold (declare_one ref now) desired (m, [])
      in (m', dispatchMaterialization (mt_observers m) (sortMaterializationEvents gs events)))"

definition OnLifecycleEvent :: "gotime \<Rightarrow> LifecycleEvent \<Rightarrow> Materializer \<Rightarrow> Materializer \<times> deliveries" where
  "OnLifecycleEvent now ev m =
     (let gvr = ev_GVR ev;
          (m', events) =
            (if ev_Kind ev = TypeActivated \<or> ev_Kind ev = TypeRecovered
             then
               (let (m1, st0) = stateLocked gvr m;
                    st = st0 \<lparr> ts_followable := True, ts_frozen := False \<rparr>;
                    m2 = put_state gvr st m1;
                    (m3, st', events) = maybeRequestLocked gvr st now [] m2
                in (m3, if ts_phase st' = PhaseSynced \<and> length (claims_of m3 gvr) > 0
                        then events @ [m_event TypeSynced gvr st' now] else events))
             else if ev_Kind ev = TypeWobbling
             then
               (case map_get (mt_types m) gvr of
                  None \<Rightarrow> (m, [])
                | Some st \<Rightarrow> (put_state gvr (st \<lparr> ts_frozen := True \<rparr>) m, []))
             else
               (case map_get (mt_types m) gvr of
                  None \<Rightarrow> (m, [])
                | Some st \<Rightarrow> forceReleaseLocked gvr (st \<lparr> ts_followable := False \<rparr>) now [] m))
      in (m', dispatchMaterialization (mt_observers m) events))"

text \<open>\<open>BeginSync\<close>: the phase it moves to, if it starts.\<close>

definition begin_state :: "typeState \<Rightarrow> typeState option" where
  "begin_state st =
     (case ts_phase st of
        PhaseRequested \<Rightarrow> Some (st \<lparr> ts_phase := PhaseSyncing \<rparr>)
      | PhaseSynced \<Rightarrow>
          if ts_pendingResync st
          then Some (st \<lparr> ts_pendingResync := False, ts_phase := PhaseResyncing \<rparr>) else None
      | PhaseFailing \<Rightarrow>
          Some (st \<lparr> ts_phase := (if ts_checkpointRV st \<noteq> [] then PhaseResyncing else PhaseSyncing) \<rparr>)
      | PhaseDormant \<Rightarrow> None
      | PhaseSyncing \<Rightarrow> None
      | PhaseResyncing \<Rightarrow> None)"

definition BeginSync ::
  "gotime \<Rightarrow> GroupVersionResource \<Rightarrow> Materializer \<Rightarrow> Materializer \<times> bool \<times> deliveries" where
  "BeginSync now gvr m =
     (case map_get (mt_types m) gvr of
        None \<Rightarrow> (m, False, [])
      | Some st \<Rightarrow>
          if ts_frozen st then (m, False, [])
          else (case begin_state st of
                  None \<Rightarrow> (m, False, [])
                | Some st' \<Rightarrow>
                    (put_state gvr st' m, True,
                     dispatchMaterialization (mt_observers m) [m_event SyncStarted gvr st' now])))"

definition in_flight :: "typeState \<Rightarrow> bool" where
  "in_flight st = (ts_phase st = PhaseSyncing \<or> ts_phase st = PhaseResyncing)"

definition SyncSucceeded ::
  "gotime \<Rightarrow> GroupVersionResource \<Rightarrow> string \<Rightarrow> Materializer \<Rightarrow> Materializer \<times> deliveries" where
  "SyncSucceeded now gvr rv m =
     (case map_get (mt_types m) gvr of
        None \<Rightarrow> (m, [])
      | Some st \<Rightarrow>
          if in_flight st
          then (let st' = st \<lparr> ts_phase := PhaseSynced, ts_checkpointRV := rv, ts_pendingResync := False \<rparr>
                in (put_state gvr st' m,
                    dispatchMaterialization (mt_observers m) [m_event TypeSynced gvr st' now]))
          else (m, []))"

definition mt_SyncFailed ::
  "gotime \<Rightarrow> GroupVersionResource \<Rightarrow> Materializer \<Rightarrow> Materializer \<times> deliveries" where
  "mt_SyncFailed now gvr m =
     (case map_get (mt_types m) gvr of
        None \<Rightarrow> (m, [])
      | Some st \<Rightarrow>
          if in_flight st
          then (let st' = st \<lparr> ts_phase := PhaseFailing \<rparr>
                in (put_state gvr st' m,
                    dispatchMaterialization (mt_observers m) [m_event SyncFailed gvr st' now]))
          else (m, []))"

definition RestoreSynced :: "GroupVersionResource \<Rightarrow> string \<Rightarrow> Materializer \<Rightarrow> Materializer" where
  "RestoreSynced gvr rv m =
     (if rv = [] then m
      else put_state gvr
        \<lparr> ts_phase = PhaseSynced, ts_followable = True, ts_frozen = False, ts_pendingResync = False,
          ts_checkpointRV = rv \<rparr> m)"

definition RequestResync ::
  "gotime \<Rightarrow> GroupVersionResource \<Rightarrow> Materializer \<Rightarrow> Materializer \<times> bool \<times> deliveries" where
  "RequestResync now gvr m =
     (case map_get (mt_types m) gvr of
        None \<Rightarrow> (m, False, [])
      | Some st \<Rightarrow>
          if \<not> ts_frozen st \<and> ts_phase st = PhaseSynced \<and> \<not> ts_pendingResync st
             \<and> length (claims_of m gvr) > 0
          then (let st' = st \<lparr> ts_pendingResync := True \<rparr>
                in (put_state gvr st' m, True,
                    dispatchMaterialization (mt_observers m) [m_event SyncRequested gvr st' now]))
          else (m, False, []))"

section \<open>The sweep\<close>

definition gcLeasesLocked :: "gotime \<Rightarrow> Materializer \<Rightarrow> Materializer \<times> GroupVersionResource list" where
  "gcLeasesLocked previousSweepAt m =
     (let kept = map (\<lambda>(gvr, refs). (gvr, filter (\<lambda>(ref, renewedAt). \<not> renewedAt < previousSweepAt) refs))
                   (mt_claims m);
          unclaimed = map fst (filter (\<lambda>(gvr, refs).
            length refs > 0 \<and> length (filter (\<lambda>(ref, renewedAt). \<not> renewedAt < previousSweepAt) refs) = 0)
            (mt_claims m))
      in (m \<lparr> mt_claims := filter (\<lambda>(gvr, refs). length refs \<noteq> 0) kept \<rparr>, unclaimed))"

definition sweepTypeLocked ::
  "GroupVersionResource \<Rightarrow> typeState \<Rightarrow> gotime \<Rightarrow> MaterializationEvent list \<Rightarrow> Materializer
     \<Rightarrow> Materializer \<times> MaterializationEvent list" where
  "sweepTypeLocked gvr st now events m =
     (if ts_frozen st then (m, events)
      else
        (let live = (length (claims_of m gvr) > 0);
             release = (let (m', ev) = releaseLocked gvr st now m in (m', events @ [ev]))
         in case ts_phase st of
              PhaseSynced \<Rightarrow>
                if \<not> live then release
                else if \<not> ts_pendingResync st
                then (let st' = st \<lparr> ts_pendingResync := True \<rparr>
                      in (put_state gvr st' m, events @ [m_event SyncRequested gvr st' now]))
                else (m, events)
            | PhaseRequested \<Rightarrow> if \<not> live then release else (m, events)
            | PhaseFailing \<Rightarrow> if \<not> live then release else (m, events)
            | PhaseDormant \<Rightarrow> (m, events)
            | PhaseSyncing \<Rightarrow> (m, events)
            | PhaseResyncing \<Rightarrow> (m, events)))"

definition unclaim_one ::
  "gotime \<Rightarrow> GroupVersionResource \<Rightarrow> Materializer \<times> MaterializationEvent list
     \<Rightarrow> Materializer \<times> MaterializationEvent list" where
  "unclaim_one now gvr = (\<lambda>(m, events).
     (let (m', st) = stateLocked gvr m in (m', events @ [m_event Unclaimed gvr st now])))"

definition sweep_one ::
  "gotime \<Rightarrow> GroupVersionResource \<Rightarrow> Materializer \<times> MaterializationEvent list
     \<Rightarrow> Materializer \<times> MaterializationEvent list" where
  "sweep_one now gvr = (\<lambda>(m, events). sweepTypeLocked gvr (state_of m gvr) now events m)"

definition Sweep ::
  "(GroupVersionResource \<Rightarrow> string) \<Rightarrow> gotime \<Rightarrow> Materializer \<Rightarrow> Materializer \<times> deliveries" where
  "Sweep gs now m =
     (let (m1, unclaimed) = gcLeasesLocked (mt_lastSweepAt m) m;
          (m2, events2) = fold (unclaim_one now) unclaimed (m1, []);
          (m3, events3) = fold (sweep_one now) (map fst (mt_types m2)) (m2, events2);
          m4 = m3 \<lparr> mt_lastSweepAt := now \<rparr>
      in (m4, dispatchMaterialization (mt_observers m) (sortMaterializationEvents gs events3)))"

section \<open>Queries\<close>

definition mt_Phase :: "Materializer \<Rightarrow> GroupVersionResource \<Rightarrow> Phase \<times> bool" where
  "mt_Phase m gvr =
     (case map_get (mt_types m) gvr of None \<Rightarrow> (PhaseDormant, False) | Some st \<Rightarrow> (ts_phase st, True))"

definition Checkpoint :: "Materializer \<Rightarrow> GroupVersionResource \<Rightarrow> string \<times> bool" where
  "Checkpoint m gvr =
     (case map_get (mt_types m) gvr of
        None \<Rightarrow> ([], False)
      | Some st \<Rightarrow> (ts_checkpointRV st, ts_checkpointRV st \<noteq> []))"

definition pending_state :: "typeState \<Rightarrow> bool" where
  "pending_state st =
     (if ts_frozen st then False
      else case ts_phase st of
             PhaseRequested \<Rightarrow> True
           | PhaseFailing \<Rightarrow> True
           | PhaseSynced \<Rightarrow> ts_pendingResync st
           | PhaseDormant \<Rightarrow> False
           | PhaseSyncing \<Rightarrow> False
           | PhaseResyncing \<Rightarrow> False)"

definition PendingSyncs :: "(GroupVersionResource \<Rightarrow> string) \<Rightarrow> Materializer \<Rightarrow> GroupVersionResource list" where
  "PendingSyncs gs m = sort_key gs (map fst (filter (\<lambda>(gvr, st). pending_state st) (mt_types m)))"

definition Claimants :: "Materializer \<Rightarrow> GroupVersionResource \<Rightarrow> GitTargetRef list" where
  "Claimants m gvr = sort (map fst (claims_of m gvr))"

record TypeMaterialization =
  tm_GVR :: GroupVersionResource
  tm_Phase :: Phase
  tm_CheckpointRV :: string
  tm_Followable :: bool
  tm_Claimants :: "GitTargetRef list"

definition Serviceable :: "TypeMaterialization \<Rightarrow> bool" where
  "Serviceable t = (tm_CheckpointRV t \<noteq> [])"

definition Inventory :: "(GroupVersionResource \<Rightarrow> string) \<Rightarrow> Materializer \<Rightarrow> TypeMaterialization list" where
  "Inventory gs m =
     sort_key (\<lambda>t. gs (tm_GVR t))
       (map (\<lambda>(gvr, st). \<lparr> tm_GVR = gvr, tm_Phase = ts_phase st, tm_CheckpointRV = ts_checkpointRV st,
                            tm_Followable = ts_followable st, tm_Claimants = Claimants m gvr \<rparr>) (mt_types m))"

section \<open>Runs\<close>

datatype mat_op =
    Op_Declare gotime GitTargetRef "GroupVersionResource list"
  | Op_Lifecycle gotime LifecycleEvent
  | Op_BeginSync gotime GroupVersionResource
  | Op_Succeeded gotime GroupVersionResource string
  | Op_Failed gotime GroupVersionResource
  | Op_Restore GroupVersionResource string
  | Op_Resync gotime GroupVersionResource
  | Op_Sweep gotime
  | Op_Subscribe "nat option"

fun mat_step :: "(GroupVersionResource \<Rightarrow> string) \<Rightarrow> Materializer \<Rightarrow> mat_op \<Rightarrow> Materializer" where
  "mat_step gs m (Op_Declare now ref desired) = fst (Declare gs now ref desired m)"
| "mat_step gs m (Op_Lifecycle now ev) = fst (OnLifecycleEvent now ev m)"
| "mat_step gs m (Op_BeginSync now gvr) = fst (BeginSync now gvr m)"
| "mat_step gs m (Op_Succeeded now gvr rv) = fst (SyncSucceeded now gvr rv m)"
| "mat_step gs m (Op_Failed now gvr) = fst (mt_SyncFailed now gvr m)"
| "mat_step gs m (Op_Restore gvr rv) = RestoreSynced gvr rv m"
| "mat_step gs m (Op_Resync now gvr) = fst (RequestResync now gvr m)"
| "mat_step gs m (Op_Sweep now) = fst (Sweep gs now m)"
| "mat_step gs m (Op_Subscribe ob) = mt_Subscribe ob m"

text \<open>The states the operations can reach from a new materializer.\<close>

inductive reachable :: "(GroupVersionResource \<Rightarrow> string) \<Rightarrow> Materializer \<Rightarrow> bool" for gs where
  start: "reachable gs (newMaterializer now)"
| step: "reachable gs m \<Longrightarrow> reachable gs (mat_step gs m op)"

section \<open>The per-type automaton\<close>

text \<open>
  What may happen to one type, whatever the others do: the abstract machine that the operations are
  shown to implement type by type.
\<close>

inductive tstep :: "typeState \<Rightarrow> typeState \<Rightarrow> bool" where
  request: "ts_followable st \<Longrightarrow> \<not> ts_frozen st \<Longrightarrow> ts_phase st = PhaseDormant \<Longrightarrow>
    tstep st (st \<lparr> ts_phase := PhaseRequested \<rparr>)"
| activate: "tstep st (st \<lparr> ts_followable := True, ts_frozen := False \<rparr>)"
| wobble: "tstep st (st \<lparr> ts_frozen := True \<rparr>)"
| lose: "tstep st (st \<lparr> ts_followable := False, ts_phase := PhaseDormant, ts_checkpointRV := [],
    ts_pendingResync := False \<rparr>)"
| lose_dormant: "ts_phase st = PhaseDormant \<Longrightarrow> tstep st (st \<lparr> ts_followable := False \<rparr>)"
| begin_sync: "\<not> ts_frozen st \<Longrightarrow> begin_state st = Some st' \<Longrightarrow> tstep st st'"
| succeed: "in_flight st \<Longrightarrow>
    tstep st (st \<lparr> ts_phase := PhaseSynced, ts_checkpointRV := rv, ts_pendingResync := False \<rparr>)"
| fail_sync: "in_flight st \<Longrightarrow> tstep st (st \<lparr> ts_phase := PhaseFailing \<rparr>)"
| restore: "rv \<noteq> [] \<Longrightarrow>
    tstep st \<lparr> ts_phase = PhaseSynced, ts_followable = True, ts_frozen = False, ts_pendingResync = False,
               ts_checkpointRV = rv \<rparr>"
| flag: "\<not> ts_frozen st \<Longrightarrow> ts_phase st = PhaseSynced \<Longrightarrow> tstep st (st \<lparr> ts_pendingResync := True \<rparr>)"
| release: "\<not> ts_frozen st \<Longrightarrow> \<not> in_flight st \<Longrightarrow>
    tstep st (st \<lparr> ts_phase := PhaseDormant, ts_checkpointRV := [], ts_pendingResync := False \<rparr>)"

definition type_inv :: "typeState \<Rightarrow> bool" where
  "type_inv st =
     ((ts_checkpointRV st \<noteq> [] \<longrightarrow> ts_phase st \<in> {PhaseSynced, PhaseResyncing, PhaseFailing})
      \<and> (ts_phase st \<noteq> PhaseDormant \<longrightarrow> ts_followable st)
      \<and> (ts_pendingResync st \<longrightarrow> ts_phase st = PhaseSynced))"

lemma type_inv_tstep: "tstep st st' \<Longrightarrow> type_inv st \<Longrightarrow> type_inv st'"
proof (induction rule: tstep.induct)
  case (begin_sync st st')
  then show ?case
    by (cases "ts_phase st") (auto simp: type_inv_def begin_state_def split: if_splits)
qed (auto simp: type_inv_def in_flight_def)

lemma type_inv_rtstep: "tstep\<^sup>*\<^sup>* st st' \<Longrightarrow> type_inv st \<Longrightarrow> type_inv st'"
  by (induction rule: rtranclp_induct) (auto intro: type_inv_tstep)

lemma type_inv_dormant: "type_inv dormant"
  by (simp add: type_inv_def dormant_def)

section \<open>What each operation does to one type\<close>

lemma state_of_put [simp]: "state_of (put_state gvr st m) g = (if g = gvr then st else state_of m g)"
  by (simp add: state_of_def put_state_def al.lookup_put)

lemma put_state_keeps [simp]:
  "mt_claims (put_state gvr st m) = mt_claims m"
  "mt_lastSweepAt (put_state gvr st m) = mt_lastSweepAt m"
  "claims_of (put_state gvr st m) g = claims_of m g"
  by (simp_all add: put_state_def claims_of_def)

lemma state_of_claims [simp]: "state_of (m \<lparr> mt_claims := c \<rparr>) g = state_of m g"
  by (simp add: state_of_def)

lemma state_of_sweepAt [simp]: "state_of (m \<lparr> mt_lastSweepAt := t \<rparr>) g = state_of m g"
  by (simp add: state_of_def)

lemma state_of_Some: "map_get (mt_types m) gvr = Some st \<Longrightarrow> state_of m gvr = st"
  by (simp add: state_of_def)

lemma maybeRequest_effect:
  assumes "maybeRequestLocked gvr st now events m = (m', st', events')" and "state_of m gvr = st"
  shows "state_of m' g = (if g = gvr then st' else state_of m g)" and "tstep\<^sup>=\<^sup>= st st'"
    and "mt_claims m' = mt_claims m" and "claims_of m' = claims_of m"
    and "st' = (if ts_followable st \<and> \<not> ts_frozen st \<and> ts_phase st = PhaseDormant \<and> claims_of m gvr \<noteq> []
      then st \<lparr> ts_phase := PhaseRequested \<rparr> else st)"
  using assms
  by (auto simp: maybeRequestLocked_def Let_def fun_eq_iff intro: tstep.request split: if_splits)

lemma declare_one_effect:
  "tstep\<^sup>=\<^sup>= (state_of m g) (state_of (fst (declare_one ref now gvr (m, events))) g)"
  "mt_claims (fst (declare_one ref now gvr (m, events))) =
     map_put gvr (map_put ref now (claims_of m gvr)) (mt_claims m)"
proof -
  let ?m1 = "m \<lparr> mt_claims := map_put gvr (map_put ref now (claims_of m gvr)) (mt_claims m) \<rparr>"
  let ?m2 = "put_state gvr (state_of m gvr) ?m1"
  obtain m3 st' evs where eq: "maybeRequestLocked gvr (state_of m gvr) now events ?m2 = (m3, st', evs)"
    by (cases "maybeRequestLocked gvr (state_of m gvr) now events ?m2") auto
  have fst: "fst (declare_one ref now gvr (m, events)) = m3"
    using eq by (simp add: declare_one_def stateLocked_def Let_def)
  have st: "state_of ?m2 gvr = state_of m gvr" by simp
  note eff = maybeRequest_effect [OF eq st]
  show "tstep\<^sup>=\<^sup>= (state_of m g) (state_of (fst (declare_one ref now gvr (m, events))) g)"
    unfolding fst using eff(1,2) by auto
  show "mt_claims (fst (declare_one ref now gvr (m, events))) =
      map_put gvr (map_put ref now (claims_of m gvr)) (mt_claims m)"
    unfolding fst using eff(3) by simp
qed

lemma declare_fold_effect:
  "tstep\<^sup>*\<^sup>* (state_of (fst me) g) (state_of (fst (fold (declare_one ref now) gvrs me)) g)"
proof (induction gvrs arbitrary: me)
  case (Cons gvr gvrs)
  have "tstep\<^sup>*\<^sup>* (state_of (fst me) g) (state_of (fst (declare_one ref now gvr me)) g)"
    using declare_one_effect(1) [of "fst me" g ref now gvr "snd me"] by auto
  with Cons.IH [of "declare_one ref now gvr me"] show ?case by simp
qed simp

lemma sweep_one_effect:
  "tstep\<^sup>=\<^sup>= (state_of m g) (state_of (fst (sweep_one now gvr (m, events))) g)"
  "mt_claims (fst (sweep_one now gvr (m, events))) = mt_claims m"
  by (auto simp: sweep_one_def sweepTypeLocked_def releaseLocked_def Let_def in_flight_def
      intro: tstep.release tstep.flag split: Phase.splits)

lemma sweep_fold_effect:
  "tstep\<^sup>*\<^sup>* (state_of (fst me) g) (state_of (fst (fold (sweep_one now) gvrs me)) g)"
proof (induction gvrs arbitrary: me)
  case (Cons gvr gvrs)
  have "tstep\<^sup>*\<^sup>* (state_of (fst me) g) (state_of (fst (sweep_one now gvr me)) g)"
    using sweep_one_effect(1) [of "fst me" g now gvr "snd me"] by auto
  with Cons.IH [of "sweep_one now gvr me"] show ?case by simp
qed simp

lemma unclaim_fold_effect:
  "state_of (fst (fold (unclaim_one now) gvrs me)) g = state_of (fst me) g"
  "mt_claims (fst (fold (unclaim_one now) gvrs me)) = mt_claims (fst me)"
  by (induction gvrs arbitrary: me) (auto simp: unclaim_one_def stateLocked_def split: prod.splits)

text \<open>The stages of a sweep, named.\<close>

definition sweep_claims :: "gotime \<Rightarrow> Materializer \<Rightarrow> Materializer" where
  "sweep_claims now m =
     fst (fold (unclaim_one now) (snd (gcLeasesLocked (mt_lastSweepAt m) m))
       (fst (gcLeasesLocked (mt_lastSweepAt m) m), []))"

lemma Sweep_stages:
  "\<exists>events. fst (Sweep gs now m) =
     (fst (fold (sweep_one now) (map fst (mt_types (sweep_claims now m))) (sweep_claims now m, events)))
       \<lparr> mt_lastSweepAt := now \<rparr>"
proof -
  let ?p = "fold (unclaim_one now) (snd (gcLeasesLocked (mt_lastSweepAt m) m))
    (fst (gcLeasesLocked (mt_lastSweepAt m) m), [])"
  have "?p = (sweep_claims now m, snd ?p)" by (simp add: sweep_claims_def)
  then show ?thesis
    by (intro exI [of _ "snd ?p"]) (simp add: Sweep_def Let_def case_prod_beta sweep_claims_def)
qed

lemma state_of_sweep_claims: "state_of (sweep_claims now m) g = state_of m g"
  by (simp add: sweep_claims_def unclaim_fold_effect gcLeasesLocked_def Let_def)

lemma OnLifecycle_effect:
  "state_of (fst (OnLifecycleEvent now ev m)) g =
     (if g \<noteq> ev_GVR ev then state_of m g
      else if ev_Kind ev = TypeActivated \<or> ev_Kind ev = TypeRecovered
      then (let st = (state_of m g) \<lparr> ts_followable := True, ts_frozen := False \<rparr>
            in if ts_phase st = PhaseDormant \<and> claims_of m g \<noteq> []
               then st \<lparr> ts_phase := PhaseRequested \<rparr> else st)
      else if ev_Kind ev = TypeWobbling
      then (if map_get (mt_types m) g = None then dormant else (state_of m g) \<lparr> ts_frozen := True \<rparr>)
      else (if ts_phase (state_of m g) = PhaseDormant then (state_of m g) \<lparr> ts_followable := False \<rparr>
            else (state_of m g) \<lparr> ts_followable := False, ts_phase := PhaseDormant,
                    ts_checkpointRV := [], ts_pendingResync := False \<rparr>))"
proof (cases "ev_Kind ev = TypeActivated \<or> ev_Kind ev = TypeRecovered")
  case True
  then show ?thesis
    by (simp add: OnLifecycleEvent_def stateLocked_def maybeRequestLocked_def Let_def)
next
  case False
  show ?thesis
  proof (cases "ev_Kind ev = TypeWobbling")
    case True
    then show ?thesis
      by (cases "map_get (mt_types m) (ev_GVR ev)") (simp_all add: OnLifecycleEvent_def state_of_def put_state_def al.lookup_put)
  next
    case nwob: False
    show ?thesis
    proof (cases "map_get (mt_types m) (ev_GVR ev)")
      case None
      then have "fst (OnLifecycleEvent now ev m) = m" and "state_of m (ev_GVR ev) = dormant"
        using False nwob by (simp_all add: OnLifecycleEvent_def Let_def state_of_def)
      then show ?thesis using False nwob by (simp add: dormant_def)
    next
      case (Some st)
      then have "state_of m (ev_GVR ev) = st" by (rule state_of_Some)
      then show ?thesis
        using Some False nwob
        by (simp add: OnLifecycleEvent_def forceReleaseLocked_def releaseLocked_def Let_def)
    qed
  qed
qed

lemma OnLifecycle_simulates:
  "tstep\<^sup>*\<^sup>* (state_of m g) (state_of (fst (OnLifecycleEvent now ev m)) g)"
proof -
  let ?act = "(state_of m g) \<lparr> ts_followable := True, ts_frozen := False \<rparr>"
  have act: "tstep (state_of m g) ?act" by (rule tstep.activate)
  have req: "tstep\<^sup>*\<^sup>* (state_of m g) (?act \<lparr> ts_phase := PhaseRequested \<rparr>)"
    if "ts_phase (state_of m g) = PhaseDormant"
    using act tstep.request [of ?act] that by (auto intro: rtranclp.rtrancl_into_rtrancl)
  have none: "map_get (mt_types m) g = None \<Longrightarrow> state_of m g = dormant" by (simp add: state_of_def)
  show ?thesis
    unfolding OnLifecycle_effect Let_def using act req none
    by (auto intro: r_into_rtranclp tstep.wobble tstep.lose tstep.lose_dormant)
qed

text \<open>Every operation drives each type by steps of the automaton.\<close>

lemma mat_step_simulates: "tstep\<^sup>*\<^sup>* (state_of m g) (state_of (mat_step gs m op) g)"
proof (cases op)
  case (Op_Declare now ref gvrs)
  then show ?thesis
    using declare_fold_effect [of "(m, [])" g ref now gvrs]
    by (simp add: Declare_def Let_def case_prod_beta)
next
  case (Op_Lifecycle now ev)
  then show ?thesis using OnLifecycle_simulates by simp
next
  case (Op_BeginSync now gvr)
  then show ?thesis
    by (auto simp: BeginSync_def dest: state_of_Some intro: tstep.begin_sync r_into_rtranclp split: option.splits)
next
  case (Op_Succeeded now gvr rv)
  then show ?thesis
    by (auto simp: SyncSucceeded_def Let_def dest: state_of_Some intro: tstep.succeed r_into_rtranclp
        split: option.splits)
next
  case (Op_Failed now gvr)
  then show ?thesis
    by (auto simp: mt_SyncFailed_def Let_def dest: state_of_Some intro: tstep.fail_sync r_into_rtranclp
        split: option.splits)
next
  case (Op_Restore gvr rv)
  then show ?thesis by (auto simp: RestoreSynced_def intro: tstep.restore r_into_rtranclp)
next
  case (Op_Resync now gvr)
  then show ?thesis
    by (auto simp: RequestResync_def Let_def dest: state_of_Some intro: tstep.flag r_into_rtranclp
        split: option.splits)
next
  case (Op_Sweep now)
  obtain events where "fst (Sweep gs now m) =
      (fst (fold (sweep_one now) (map fst (mt_types (sweep_claims now m))) (sweep_claims now m, events)))
        \<lparr> mt_lastSweepAt := now \<rparr>"
    using Sweep_stages by blast
  then show ?thesis
    using Op_Sweep sweep_fold_effect [of "(sweep_claims now m, events)" g now] state_of_sweep_claims
    by simp
next
  case (Op_Subscribe ob)
  then show ?thesis by (cases ob) (simp_all add: mt_Subscribe_def state_of_def)
qed

lemma reachable_type_inv: "reachable gs m \<Longrightarrow> type_inv (state_of m g)"
proof (induction rule: reachable.induct)
  case (start now)
  then show ?case by (simp add: newMaterializer_def state_of_def type_inv_dormant)
next
  case (step m op)
  then show ?case using mat_step_simulates type_inv_rtstep by blast
qed

text \<open>
  C35: the phase machine keeps its promise on every reachable state. A type serves a checkpoint only
  while it is synced, re-anchoring or failing after a sync; any phase other than dormant belongs to a
  followable type; a pending re-anchor belongs to a synced type.
\<close>

theorem materializer_invariant:
  assumes "reachable gs m"
  shows "(snd (Checkpoint m gvr) \<longrightarrow> fst (mt_Phase m gvr) \<in> {PhaseSynced, PhaseResyncing, PhaseFailing})
    \<and> (fst (mt_Phase m gvr) \<noteq> PhaseDormant \<longrightarrow> ts_followable (state_of m gvr))
    \<and> (ts_pendingResync (state_of m gvr) \<longrightarrow> fst (mt_Phase m gvr) = PhaseSynced)"
proof -
  have "type_inv (state_of m gvr)" using assms by (rule reachable_type_inv)
  moreover have "fst (mt_Phase m gvr) = ts_phase (state_of m gvr)"
    and "snd (Checkpoint m gvr) \<longleftrightarrow> ts_checkpointRV (state_of m gvr) \<noteq> []"
    by (auto simp: mt_Phase_def Checkpoint_def state_of_def dormant_def split: option.splits)
  ultimately show ?thesis by (simp add: type_inv_def)
qed

definition sample_gvr :: GroupVersionResource where
  "sample_gvr = \<lparr> gvr_Group = ''apps'', gvr_Version = ''v1'', gvr_Resource = ''deployments'' \<rparr>"

definition sample_event :: "EventKind \<Rightarrow> LifecycleEvent" where
  "sample_event kind = \<lparr> ev_Kind = kind, ev_GVK = zero_gvk, ev_GVR = sample_gvr, ev_From = None,
     ev_To = VerdictFollowable, ev_Reason = NoReason, ev_Generation = 1, ev_At = 1 \<rparr>"

text \<open>A run to a served checkpoint: claim, activation, sync.\<close>

definition sample_run :: "mat_op list" where
  "sample_run =
     [Op_Declare 1 ''t'' [sample_gvr], Op_Lifecycle 2 (sample_event TypeActivated),
      Op_BeginSync 3 sample_gvr, Op_Succeeded 4 sample_gvr ''100'']"

lemma reachable_run: "reachable gs m \<Longrightarrow> reachable gs (foldl (mat_step gs) m ops)"
  by (induction ops arbitrary: m) (auto intro: reachable.step)

theorem materializer_invariant_witness:
  "let m = foldl (mat_step gvr_Resource) (newMaterializer 0) sample_run
   in Checkpoint m sample_gvr = (''100'', True)
     \<and> fst (mt_Phase m sample_gvr) \<in> {PhaseSynced, PhaseResyncing, PhaseFailing}"
proof -
  let ?m = "foldl (mat_step gvr_Resource) (newMaterializer 0) sample_run"
  have "reachable gvr_Resource ?m" by (rule reachable_run [OF reachable.start])
  moreover have cp: "Checkpoint ?m sample_gvr = (''100'', True)" by code_simp
  ultimately show ?thesis
    using materializer_invariant [of gvr_Resource ?m sample_gvr] by (simp add: Let_def)
qed

section \<open>Well-formed tables\<close>

definition tables_ok :: "Materializer \<Rightarrow> bool" where
  "tables_ok m =
     (map_wf (mt_types m) \<and> map_wf (mt_claims m)
      \<and> (\<forall>refs \<in> snd ` set (mt_claims m). refs \<noteq> [] \<and> map_wf refs))"

lemma put_state_ok: "tables_ok m \<Longrightarrow> tables_ok (put_state gvr st m)"
  by (simp add: tables_ok_def put_state_def)

lemma claims_of_wf: "tables_ok m \<Longrightarrow> map_wf (claims_of m gvr)"
  by (force simp: tables_ok_def claims_of_def split: option.splits dest: map_of_SomeD)

lemma update_not_Nil: "map_put k v m \<noteq> []"
  by (cases m) auto

lemma claim_ok:
  assumes "tables_ok m"
  shows "tables_ok (m \<lparr> mt_claims := map_put gvr (map_put ref now (claims_of m gvr)) (mt_claims m) \<rparr>)"
  using assms claims_of_wf [OF assms, of gvr]
  by (auto simp: tables_ok_def set_map_put update_not_Nil)

lemma declare_one_ok: "tables_ok (fst me) \<Longrightarrow> tables_ok (fst (declare_one ref now gvr me))"
  using claim_ok [of "fst me" gvr ref now]
  by (auto simp: declare_one_def stateLocked_def maybeRequestLocked_def Let_def case_prod_beta
      intro!: put_state_ok)

lemma declare_fold_ok: "tables_ok (fst me) \<Longrightarrow> tables_ok (fst (fold (declare_one ref now) gvrs me))"
  by (induction gvrs arbitrary: me) (simp_all add: declare_one_ok)

lemma sweep_one_ok: "tables_ok (fst me) \<Longrightarrow> tables_ok (fst (sweep_one now gvr me))"
  by (auto simp: sweep_one_def sweepTypeLocked_def releaseLocked_def Let_def case_prod_beta
      intro!: put_state_ok split: Phase.splits)

lemma sweep_fold_ok: "tables_ok (fst me) \<Longrightarrow> tables_ok (fst (fold (sweep_one now) gvrs me))"
  by (induction gvrs arbitrary: me) (simp_all add: sweep_one_ok)

lemma unclaim_fold_ok: "tables_ok (fst me) \<Longrightarrow> tables_ok (fst (fold (unclaim_one now) gvrs me))"
proof (induction gvrs arbitrary: me)
  case (Cons gvr gvrs)
  have "tables_ok (fst (unclaim_one now gvr me))"
    using Cons.prems by (simp add: unclaim_one_def stateLocked_def case_prod_beta put_state_ok)
  then show ?case using Cons.IH by simp
qed simp

lemma gc_claims:
  "mt_claims (fst (gcLeasesLocked prev m)) =
     filter (\<lambda>(gvr, refs). refs \<noteq> [])
       (map (\<lambda>(gvr, refs). (gvr, filter (\<lambda>(ref, t). prev \<le> t) refs)) (mt_claims m))"
  by (simp add: gcLeasesLocked_def Let_def not_less)

lemma gc_ok: "tables_ok m \<Longrightarrow> tables_ok (fst (gcLeasesLocked prev m))"
proof -
  assume ok: "tables_ok m"
  have "map_wf (mt_claims (fst (gcLeasesLocked prev m)))"
    unfolding gc_claims using ok
    by (auto simp: tables_ok_def filter_map comp_def case_prod_beta intro: distinct_map_filter)
  moreover have "refs \<noteq> [] \<and> map_wf refs" if "refs \<in> snd ` set (mt_claims (fst (gcLeasesLocked prev m)))" for refs
  proof -
    from that obtain g rs where "(g, rs) \<in> set (mt_claims m)"
      and refs: "refs = filter (\<lambda>(ref, t). prev \<le> t) rs" "refs \<noteq> []"
      unfolding gc_claims by auto
    then have "rs \<in> snd ` set (mt_claims m)" by force
    then have "map_wf rs" using ok unfolding tables_ok_def by blast
    then show ?thesis using refs by (auto intro: distinct_map_filter)
  qed
  moreover have "mt_types (fst (gcLeasesLocked prev m)) = mt_types m"
    by (simp add: gcLeasesLocked_def Let_def)
  ultimately show ?thesis using ok unfolding tables_ok_def by simp
qed

lemma sweep_claims_ok: "tables_ok m \<Longrightarrow> tables_ok (sweep_claims now m)"
  unfolding sweep_claims_def by (rule unclaim_fold_ok) (simp add: gc_ok)

lemma OnLifecycle_ok: "tables_ok m \<Longrightarrow> tables_ok (fst (OnLifecycleEvent now ev m))"
  by (simp add: OnLifecycleEvent_def stateLocked_def maybeRequestLocked_def forceReleaseLocked_def
      releaseLocked_def Let_def put_state_ok split: option.splits)

lemma tables_ok_sweepAt [simp]: "tables_ok (m \<lparr> mt_lastSweepAt := t \<rparr>) = tables_ok m"
  by (simp add: tables_ok_def)

lemma Sweep_ok: "tables_ok m \<Longrightarrow> tables_ok (fst (Sweep gs now m))"
proof -
  assume ok: "tables_ok m"
  obtain events where "fst (Sweep gs now m) =
      (fst (fold (sweep_one now) (map fst (mt_types (sweep_claims now m))) (sweep_claims now m, events)))
        \<lparr> mt_lastSweepAt := now \<rparr>"
    using Sweep_stages by blast
  then show ?thesis using sweep_fold_ok [of "(sweep_claims now m, events)"] sweep_claims_ok [OF ok] by simp
qed

lemma mat_step_ok: "tables_ok m \<Longrightarrow> tables_ok (mat_step gs m op)"
proof (cases op)
  case (Op_Declare now ref gvrs)
  assume "tables_ok m"
  then show ?thesis
    using Op_Declare declare_fold_ok [of "(m, [])"] by (simp add: Declare_def Let_def case_prod_beta)
next
  case (Op_Subscribe ob)
  assume "tables_ok m"
  then show ?thesis using Op_Subscribe by (cases ob) (simp_all add: mt_Subscribe_def tables_ok_def)
qed (simp_all add: OnLifecycle_ok Sweep_ok BeginSync_def SyncSucceeded_def mt_SyncFailed_def RestoreSynced_def
    RequestResync_def Let_def put_state_ok split: option.splits)

lemma reachable_tables_ok: "reachable gs m \<Longrightarrow> tables_ok m"
proof (induction rule: reachable.induct)
  case (start now)
  show ?case by (simp add: newMaterializer_def tables_ok_def)
qed (rule mat_step_ok)

section \<open>Starting a sync\<close>

lemma begin_state_pending: "\<not> ts_frozen st \<Longrightarrow> begin_state st \<noteq> None \<longleftrightarrow> pending_state st"
  by (cases "ts_phase st") (auto simp: begin_state_def pending_state_def)

text \<open>
  the pull query and the push operation agree. On a reachable state \<open>BeginSync\<close> starts a sync for
  exactly the types \<open>PendingSyncs\<close> lists; when it declines, it changes nothing and dispatches nothing;
  when it starts, the type was followable and not frozen and is in flight afterwards, with the
  checkpoint it served before still in place.
\<close>

theorem BeginSync_pending:
  assumes "reachable gs m" and "BeginSync now gvr m = (m', started, out)"
  shows "started = (gvr \<in> set (PendingSyncs gs m))
    \<and> (if started
       then ts_followable (state_of m gvr) \<and> \<not> ts_frozen (state_of m gvr)
         \<and> in_flight (state_of m' gvr) \<and> Checkpoint m' gvr = Checkpoint m gvr
       else m' = m \<and> out = [])"
proof -
  have wf: "map_wf (mt_types m)" using reachable_tables_ok [OF assms(1)] by (simp add: tables_ok_def)
  have pend: "gvr \<in> set (PendingSyncs gs m) \<longleftrightarrow> (\<exists>st. map_get (mt_types m) gvr = Some st \<and> pending_state st)"
    using wf by (force simp: PendingSyncs_def map_of_eq_Some_iff)
  show ?thesis
  proof (cases "\<exists>st. map_get (mt_types m) gvr = Some st \<and> pending_state st")
    case True
    then obtain st where st: "map_get (mt_types m) gvr = Some st" "pending_state st" by blast
    have nf: "\<not> ts_frozen st" using st(2) by (auto simp: pending_state_def split: if_splits)
    then obtain st' where st': "begin_state st = Some st'" using begin_state_pending st(2) by auto
    have "ts_phase st \<noteq> PhaseDormant" using st' by (auto simp: begin_state_def)
    then have fo: "ts_followable st"
      using reachable_type_inv [OF assms(1), of gvr] state_of_Some [OF st(1)] by (simp add: type_inv_def)
    have fl: "in_flight st'" and rv: "ts_checkpointRV st' = ts_checkpointRV st"
      using st' by (auto simp: begin_state_def in_flight_def split: Phase.splits if_splits)
    have "m' = put_state gvr st' m" and "started"
      using assms(2) st nf st' by (auto simp: BeginSync_def)
    then show ?thesis
      using True pend st nf fo fl rv
      by (simp add: state_of_Some Checkpoint_def put_state_def al.lookup_put state_of_def)
  next
    case False
    then have "m' = m \<and> \<not> started \<and> out = []"
      using assms(2) begin_state_pending
      by (auto simp: BeginSync_def split: option.splits if_splits)
    then show ?thesis using False pend by simp
  qed
qed

section \<open>Losing a type\<close>

text \<open>The operations that may make a type followable again.\<close>

fun revives :: "GroupVersionResource \<Rightarrow> mat_op \<Rightarrow> bool" where
  "revives gvr (Op_Lifecycle now ev) =
     (ev_GVR ev = gvr \<and> (ev_Kind ev = TypeActivated \<or> ev_Kind ev = TypeRecovered))"
| "revives gvr (Op_Restore g rv) = (g = gvr)"
| "revives gvr _ = False"

lemma declare_fold_followable:
  "ts_followable (state_of (fst (fold (declare_one ref now) gvrs me)) g) = ts_followable (state_of (fst me) g)"
proof (induction gvrs arbitrary: me)
  case (Cons gvr gvrs)
  have "ts_followable (state_of (fst (declare_one ref now gvr me)) g) = ts_followable (state_of (fst me) g)"
    by (simp add: declare_one_def stateLocked_def maybeRequestLocked_def Let_def case_prod_beta)
  then show ?case using Cons.IH by simp
qed simp

lemma sweep_fold_followable:
  "ts_followable (state_of (fst (fold (sweep_one now) gvrs me)) g) = ts_followable (state_of (fst me) g)"
proof (induction gvrs arbitrary: me)
  case (Cons gvr gvrs)
  have "ts_followable (state_of (fst (sweep_one now gvr me)) g) = ts_followable (state_of (fst me) g)"
    by (auto simp: sweep_one_def sweepTypeLocked_def releaseLocked_def Let_def case_prod_beta split: Phase.splits)
  then show ?case using Cons.IH by simp
qed simp

lemma begin_state_followable: "begin_state st = Some st' \<Longrightarrow> ts_followable st' = ts_followable st"
  by (auto simp: begin_state_def split: Phase.splits if_splits)

lemma followable_step:
  assumes "\<not> ts_followable (state_of m g)" and "\<not> revives g op"
  shows "\<not> ts_followable (state_of (mat_step gs m op) g)"
proof (cases op)
  case (Op_Declare now ref gvrs)
  then show ?thesis
    using assms(1) declare_fold_followable [of ref now gvrs "(m, [])" g]
    by (simp add: Declare_def Let_def case_prod_beta)
next
  case (Op_Lifecycle now ev)
  then show ?thesis using assms by (auto simp: OnLifecycle_effect Let_def dormant_def)
next
  case (Op_Sweep now)
  obtain events where "fst (Sweep gs now m) =
      (fst (fold (sweep_one now) (map fst (mt_types (sweep_claims now m))) (sweep_claims now m, events)))
        \<lparr> mt_lastSweepAt := now \<rparr>"
    using Sweep_stages by blast
  then show ?thesis
    using Op_Sweep assms(1) by (simp add: sweep_fold_followable state_of_sweep_claims)
next
  case (Op_Subscribe ob)
  then show ?thesis using assms(1) by (cases ob) (simp_all add: mt_Subscribe_def state_of_def)
next
  case (Op_BeginSync now gvr)
  then show ?thesis
    using assms(1) by (auto simp: BeginSync_def dest: state_of_Some begin_state_followable split: option.splits)
next
  case (Op_Restore gvr rv)
  then show ?thesis using assms by (auto simp: RestoreSynced_def)
qed (use assms(1) in \<open>auto simp: SyncSucceeded_def mt_SyncFailed_def RequestResync_def Let_def
      dest: state_of_Some split: option.splits\<close>)

lemma followable_run:
  assumes "\<not> ts_followable (state_of m g)" and "\<not> (\<exists>op \<in> set ops. revives g op)"
  shows "\<not> ts_followable (state_of (foldl (mat_step gs) m ops) g)"
  using assms
proof (induction ops arbitrary: m)
  case (Cons op ops)
  then show ?case using followable_step [of m g op gs] by simp
qed simp

text \<open>
  a type that is removed or refused serves nothing until it is followable again. From any
  reachable state, after the removal or refusal of a type and any further operations that neither
  re-activate, recover nor restore it, the type is dormant and has no checkpoint: not even the late
  success of a sync that was in flight brings one back.
\<close>

theorem lost_type_serves_nothing:
  assumes "reachable gs m" and "ev_Kind ev \<in> {TypeRemoved, TypeRefused}"
    and "\<not> (\<exists>op \<in> set ops. revives (ev_GVR ev) op)"
  shows "let m' = foldl (mat_step gs) (fst (OnLifecycleEvent now ev m)) ops
    in fst (mt_Phase m' (ev_GVR ev)) = PhaseDormant \<and> Checkpoint m' (ev_GVR ev) = ([], False)"
proof -
  let ?m0 = "fst (OnLifecycleEvent now ev m)"
  let ?m' = "foldl (mat_step gs) ?m0 ops"
  let ?g = "ev_GVR ev"
  have "reachable gs (mat_step gs m (Op_Lifecycle now ev))" using assms(1) by (rule reachable.step)
  then have r: "reachable gs ?m'" by (simp add: reachable_run)
  have "\<not> ts_followable (state_of ?m0 ?g)"
    using assms(2) by (auto simp: OnLifecycle_effect)
  then have nf: "\<not> ts_followable (state_of ?m' ?g)" using assms(3) by (rule followable_run)
  then have "ts_phase (state_of ?m' ?g) = PhaseDormant" and "ts_checkpointRV (state_of ?m' ?g) = []"
    using reachable_type_inv [OF r, of ?g] by (auto simp: type_inv_def)
  then show ?thesis
    by (auto simp: Let_def mt_Phase_def Checkpoint_def state_of_def split: option.splits)
qed

section \<open>Leases\<close>

lemma map_get_filter_nonempty:
  assumes "map_wf c"
  shows "(case map_get (filter (\<lambda>(k, v). v \<noteq> []) (map (\<lambda>(k, v). (k, f v)) c)) k of None \<Rightarrow> [] | Some v \<Rightarrow> v) =
    (case map_get c k of None \<Rightarrow> [] | Some v \<Rightarrow> f v)"
  using assms
proof (induction c)
  case (Cons kv c)
  obtain a b where kv: "kv = (a, b)" by fastforce
  have none: "map_get c a = None" using Cons.prems kv by (simp add: map_of_eq_None_iff)
  have "map_get (filter (\<lambda>(k, v). v \<noteq> []) (map (\<lambda>(k, v). (k, f v)) c)) a = None"
    using none by (force simp: map_of_eq_None_iff)
  then show ?case using Cons kv none by auto
qed simp

lemma sweep_fold_claims: "mt_claims (fst (fold (sweep_one now) gvrs me)) = mt_claims (fst me)"
proof (induction gvrs arbitrary: me)
  case (Cons gvr gvrs)
  then show ?case using sweep_one_effect(2) [of now gvr "fst me" "snd me"] by simp
qed simp

lemma claims_of_sweep:
  assumes "tables_ok m"
  shows "claims_of (sweep_claims now m) gvr = filter (\<lambda>(ref, t). mt_lastSweepAt m \<le> t) (claims_of m gvr)"
proof -
  have "mt_claims (sweep_claims now m) = mt_claims (fst (gcLeasesLocked (mt_lastSweepAt m) m))"
    by (simp add: sweep_claims_def unclaim_fold_effect)
  moreover have "map_wf (mt_claims m)" using assms by (simp add: tables_ok_def)
  ultimately show ?thesis
    using map_get_filter_nonempty [of "mt_claims m" "filter (\<lambda>(ref, t). mt_lastSweepAt m \<le> t)" gvr]
    by (simp add: claims_of_def gc_claims split: option.splits)
qed

lemma claims_of_Sweep:
  assumes "tables_ok m"
  shows "claims_of (fst (Sweep gs now m)) gvr = filter (\<lambda>(ref, t). mt_lastSweepAt m \<le> t) (claims_of m gvr)"
proof -
  obtain events where eq: "fst (Sweep gs now m) =
      (fst (fold (sweep_one now) (map fst (mt_types (sweep_claims now m))) (sweep_claims now m, events)))
        \<lparr> mt_lastSweepAt := now \<rparr>"
    using Sweep_stages by blast
  have "claims_of (fst (Sweep gs now m)) gvr = claims_of (sweep_claims now m) gvr"
    unfolding eq by (simp add: claims_of_def sweep_fold_claims)
  then show ?thesis using claims_of_sweep [OF assms] by simp
qed

text \<open>After its turn in the sweep a type that is neither frozen nor in flight is claimed or dormant.\<close>

definition swept :: "Materializer \<Rightarrow> GroupVersionResource \<Rightarrow> bool" where
  "swept m gvr =
     (ts_frozen (state_of m gvr) \<or> in_flight (state_of m gvr) \<or> claims_of m gvr \<noteq> []
      \<or> ts_phase (state_of m gvr) = PhaseDormant)"

lemma sweep_one_swept: "swept (fst (sweep_one now gvr (m, events))) gvr"
  by (cases "ts_phase (state_of m gvr)")
    (auto simp: swept_def sweep_one_def sweepTypeLocked_def releaseLocked_def Let_def in_flight_def)

lemma sweep_one_other: "g \<noteq> gvr \<Longrightarrow> swept m g \<Longrightarrow> swept (fst (sweep_one now gvr (m, events))) g"
  by (cases "ts_phase (state_of m gvr)")
    (auto simp: swept_def sweep_one_def sweepTypeLocked_def releaseLocked_def Let_def)

lemma sweep_fold_swept:
  "g \<in> set gvrs \<or> swept (fst me) g \<Longrightarrow> swept (fst (fold (sweep_one now) gvrs me)) g"
proof (induction gvrs arbitrary: me)
  case (Cons gvr gvrs)
  have "g \<in> set gvrs \<or> swept (fst (sweep_one now gvr me)) g"
    using Cons.prems sweep_one_swept [of now gvr "fst me" "snd me"]
      sweep_one_other [of g gvr "fst me" now "snd me"] by (cases "g = gvr") auto
  then show ?case using Cons.IH by simp
qed simp

lemma untracked_swept: "g \<notin> fst ` set (mt_types m) \<Longrightarrow> swept m g"
  by (simp add: swept_def state_of_def map_of_eq_None_iff [symmetric] dormant_def)

lemma Sweep_swept: "swept (fst (Sweep gs now m)) g"
proof -
  obtain events where eq: "fst (Sweep gs now m) =
      (fst (fold (sweep_one now) (map fst (mt_types (sweep_claims now m))) (sweep_claims now m, events)))
        \<lparr> mt_lastSweepAt := now \<rparr>"
    using Sweep_stages by blast
  have "swept (fst (fold (sweep_one now) (map fst (mt_types (sweep_claims now m))) (sweep_claims now m, events))) g"
    by (rule sweep_fold_swept) (use untracked_swept [of g "sweep_claims now m"] in auto)
  then show ?thesis unfolding eq by (simp add: swept_def claims_of_def)
qed

text \<open>
  a claim is a lease of one sweep interval. A sweep of a reachable state keeps exactly the claims
  that were renewed since the sweep before it, and afterwards a type nobody claims is dormant and
  serves no checkpoint, unless discovery is wobbling for it or a sync of it is in flight.
\<close>

theorem sweep_leases:
  assumes "reachable gs m" and "m' = fst (Sweep gs now m)"
  shows "set (Claimants m' gvr) = {ref. \<exists>t. (ref, t) \<in> set (claims_of m gvr) \<and> mt_lastSweepAt m \<le> t}
    \<and> (Claimants m' gvr \<noteq> [] \<or> ts_frozen (state_of m' gvr) \<or> in_flight (state_of m' gvr)
       \<or> fst (mt_Phase m' gvr) = PhaseDormant \<and> Checkpoint m' gvr = ([], False))"
proof -
  have ok: "tables_ok m" using assms(1) by (rule reachable_tables_ok)
  have cl: "claims_of m' gvr = filter (\<lambda>(ref, t). mt_lastSweepAt m \<le> t) (claims_of m gvr)"
    unfolding assms(2) by (rule claims_of_Sweep [OF ok])
  have "reachable gs (mat_step gs m (Op_Sweep now))" using assms(1) by (rule reachable.step)
  then have inv: "type_inv (state_of m' gvr)" using assms(2) reachable_type_inv by simp
  have set: "set (Claimants m' gvr) = fst ` set (claims_of m' gvr)"
    unfolding Claimants_def set_sort by simp
  then have "set (Claimants m' gvr) = {ref. \<exists>t. (ref, t) \<in> set (claims_of m gvr) \<and> mt_lastSweepAt m \<le> t}"
    unfolding cl by force
  moreover have "Claimants m' gvr = [] \<longleftrightarrow> claims_of m' gvr = []"
    using set by (metis image_is_empty set_empty)
  moreover have "fst (mt_Phase m' gvr) = PhaseDormant \<and> Checkpoint m' gvr = ([], False)"
    if "ts_phase (state_of m' gvr) = PhaseDormant"
    using that inv by (auto simp: type_inv_def mt_Phase_def Checkpoint_def state_of_def split: option.splits)
  ultimately show ?thesis
    using Sweep_swept [of gs now m gvr] assms(2) by (auto simp: swept_def)
qed

section \<open>Order of claim and activation\<close>

lemma declare_single:
  "state_of (fst (Declare gs now ref [gvr] m)) g =
     (if g = gvr \<and> ts_followable (state_of m g) \<and> \<not> ts_frozen (state_of m g)
          \<and> ts_phase (state_of m g) = PhaseDormant
      then (state_of m g) \<lparr> ts_phase := PhaseRequested \<rparr> else state_of m g)"
  "claims_of (fst (Declare gs now ref [gvr] m)) g =
     (if g = gvr then map_put ref now (claims_of m g) else claims_of m g)"
  by (auto simp: Declare_def declare_one_def stateLocked_def maybeRequestLocked_def Let_def claims_of_def
      al.lookup_put update_not_Nil put_state_def state_of_def)

lemma OnLifecycle_claims: "claims_of (fst (OnLifecycleEvent now ev m)) g = claims_of m g"
  by (simp add: OnLifecycleEvent_def stateLocked_def maybeRequestLocked_def forceReleaseLocked_def
      releaseLocked_def Let_def split: option.splits)

text \<open>
  a claim and an activation converge. Whether a GitTarget claims a type before or after the type
  is activated (or recovers), every type ends in the same state with the same claims, and a type that
  was dormant ends up requested.
\<close>

theorem claim_activation_converge:
  assumes "ev_Kind ev \<in> {TypeActivated, TypeRecovered}"
    and "a = fst (OnLifecycleEvent now ev (fst (Declare gs now ref [ev_GVR ev] m)))"
    and "b = fst (Declare gs now ref [ev_GVR ev] (fst (OnLifecycleEvent now ev m)))"
  shows "state_of a g = state_of b g \<and> claims_of a g = claims_of b g
    \<and> (ts_phase (state_of a (ev_GVR ev)) =
        (if ts_phase (state_of m (ev_GVR ev)) = PhaseDormant then PhaseRequested
         else ts_phase (state_of m (ev_GVR ev))))"
  using assms(1) unfolding assms(2,3)
  by (auto simp: declare_single OnLifecycle_claims OnLifecycle_effect Let_def update_not_Nil)

text \<open>
  a checkpoint can outlive the last claim. Claim and activate a type, begin its sync, let two
  sweeps age the claim out and only then let the sync succeed: the type now serves a checkpoint that
  no GitTarget claims, although the file comment says nothing outside ``followable and claimed'' ever
  holds one.
\<close>

theorem checkpoint_without_claim:
  "let m = foldl (mat_step gvr_Resource) (newMaterializer 0)
             (take 3 sample_run @ [Op_Sweep 10, Op_Sweep 20, Op_Succeeded 21 sample_gvr ''100''])
   in Claimants m sample_gvr = [] \<and> Checkpoint m sample_gvr = (''100'', True)"
  by code_simp

end
