(* ===== verification/Api_Types.thy ===== *)
theory Api_Types
  imports Go_Base
begin

text \<open>
  The custom resources of package \<open>v1alpha3\<close> (src/api/v1alpha3) as far as the controllers decide on
  them, with the methods the package gives them: the namespace policy (\<open>NamespaceMatcher\<close>), the
  source-namespace fields of a \<open>WatchRule\<close> item, the scope check of a \<open>ClusterWatchRule\<close>, the
  delegation fields of a \<open>ClusterProvider\<close>, the policy fields of a \<open>GitTarget\<close>, and the deletion
  policy (\<open>PruneMode\<close>).

  A nil pointer field is \<open>None\<close>. Two functions of apimachinery are parameters, collected in
  \<open>apimachinery\<close>: \<open>LabelSelectorAsSelector\<close>, which turns a selector into a predicate on label sets or
  fails, and \<open>IsDNS1123Label\<close>. Fields that no modelled function reads are left out of the records.
\<close>

section \<open>Library types\<close>

type_synonym labels = "(string, string) gomap"

text \<open>\<open>metav1.LabelSelector\<close>, as data; what it means is the parameter \<open>am_LabelSelectorAsSelector\<close>.\<close>

record LabelSelectorRequirement =
  lsr_Key :: string
  lsr_Operator :: string
  lsr_Values :: "string list"

record LabelSelector =
  ls_MatchLabels :: labels
  ls_MatchExpressions :: "LabelSelectorRequirement list"

definition empty_selector :: LabelSelector where
  "empty_selector = \<lparr> ls_MatchLabels = [], ls_MatchExpressions = [] \<rparr>"

record apimachinery =
  am_LabelSelectorAsSelector :: "LabelSelector \<Rightarrow> string + (labels \<Rightarrow> bool)"
  am_IsDNS1123Label :: "string \<Rightarrow> string list"

record NamespacedName =
  nn_Namespace :: string
  nn_Name :: string

section \<open>Namespace policies\<close>

record NamespaceMatcher =
  nm_Names :: "string list"
  nm_Selector :: "LabelSelector option"

definition MatchesName :: "NamespaceMatcher option \<Rightarrow> string \<Rightarrow> bool" where
  "MatchesName m nsName =
     (case m of
        None \<Rightarrow> False
      | Some m \<Rightarrow> list_ex (\<lambda>n. n = nsName) (nm_Names m))"

text \<open>The result is the error: the first entry that is no namespace name, with what is wrong with it.\<close>

definition ValidateNames ::
  "apimachinery \<Rightarrow> NamespaceMatcher option \<Rightarrow> (string \<times> string) option" where
  "ValidateNames am m =
     (case m of
        None \<Rightarrow> None
      | Some m \<Rightarrow>
          (case find (\<lambda>n. am_IsDNS1123Label am n \<noteq> []) (nm_Names m) of
             None \<Rightarrow> None
           | Some n \<Rightarrow> Some (n, Join ''; '' (am_IsDNS1123Label am n))))"

definition HasSelector :: "NamespaceMatcher option \<Rightarrow> bool" where
  "HasSelector m = (case m of None \<Rightarrow> False | Some m \<Rightarrow> nm_Selector m \<noteq> None)"

definition Declared :: "NamespaceMatcher option \<Rightarrow> bool" where
  "Declared m = (m \<noteq> None)"

definition SelectorAdmits ::
  "apimachinery \<Rightarrow> NamespaceMatcher option \<Rightarrow> labels \<Rightarrow> string + bool" where
  "SelectorAdmits am m nsLabels =
     (case m of
        None \<Rightarrow> Inr False
      | Some m \<Rightarrow>
          (case nm_Selector m of
             None \<Rightarrow> Inr False
           | Some ls \<Rightarrow>
               (case am_LabelSelectorAsSelector am ls of
                  Inl err \<Rightarrow> Inl err
                | Inr sel \<Rightarrow> Inr (sel nsLabels))))"

definition Matches ::
  "apimachinery \<Rightarrow> NamespaceMatcher option \<Rightarrow> string \<Rightarrow> labels \<Rightarrow> string + bool" where
  "Matches am m nsName nsLabels =
     (case m of
        None \<Rightarrow> Inr False
      | Some pol \<Rightarrow>
          if MatchesName m nsName then Inr True
          else (case nm_Selector pol of
                  None \<Rightarrow> Inr False
                | Some ls \<Rightarrow>
                    (case am_LabelSelectorAsSelector am ls of
                       Inl err \<Rightarrow> Inl err
                     | Inr sel \<Rightarrow> Inr (sel nsLabels))))"

section \<open>WatchRule\<close>

type_synonym OperationType = string

definition OperationCreate :: OperationType where "OperationCreate = ''CREATE''"

definition OperationUpdate :: OperationType where "OperationUpdate = ''UPDATE''"

definition OperationDelete :: OperationType where "OperationDelete = ''DELETE''"

definition OperationAll :: OperationType where "OperationAll = ''*''"

record ResourceRule =
  rr_Operations :: "OperationType list"
  rr_APIGroups :: "string list"
  rr_APIVersions :: "string list"
  rr_Resources :: "string list"
  rr_SourceNamespace :: string

record WatchRule =
  wr_Name :: string
  wr_Namespace :: string
  wr_TargetRef :: string
  wr_Rules :: "ResourceRule list"

definition SourceNamespaceWildcard :: string where
  "SourceNamespaceWildcard = ''*''"

definition EffectiveSourceNamespace :: "ResourceRule \<Rightarrow> string \<Rightarrow> string" where
  "EffectiveSourceNamespace r ruleNamespace =
     (if rr_SourceNamespace r \<noteq> [] then rr_SourceNamespace r else ruleNamespace)"

definition IsSourceNamespaceWildcard :: "ResourceRule \<Rightarrow> bool" where
  "IsSourceNamespaceWildcard r = (rr_SourceNamespace r = SourceNamespaceWildcard)"

definition OverridesSourceNamespace :: "ResourceRule \<Rightarrow> string \<Rightarrow> bool" where
  "OverridesSourceNamespace r ruleNamespace =
     (IsSourceNamespaceWildcard r \<or> EffectiveSourceNamespace r ruleNamespace \<noteq> ruleNamespace)"

section \<open>ClusterWatchRule\<close>

type_synonym ResourceScope = string

definition ResourceScopeCluster :: ResourceScope where "ResourceScopeCluster = ''Cluster''"

record ClusterResourceRule =
  crr_Operations :: "OperationType list"
  crr_APIGroups :: "string list"
  crr_APIVersions :: "string list"
  crr_Resources :: "string list"
  crr_Scope :: ResourceScope

record ClusterWatchRule =
  cwr_Name :: string
  cwr_TargetName :: string
  cwr_TargetNamespace :: string
  cwr_Rules :: "ClusterResourceRule list"

definition DeclaresNamespacedScope :: "ClusterWatchRule \<Rightarrow> bool" where
  "DeclaresNamespacedScope s =
     list_ex (\<lambda>r. crr_Scope r \<noteq> [] \<and> crr_Scope r \<noteq> ResourceScopeCluster) (cwr_Rules s)"

section \<open>ClusterProvider\<close>

definition DefaultClusterProviderName :: string where
  "DefaultClusterProviderName = ''default''"

text \<open>\<open>KubeConfig\<close> is only tested for presence, so it is the name of the referenced Secret, if any.\<close>

record ClusterProvider =
  cp_Name :: string
  cp_KubeConfig :: "string option"
  cp_AllowedNamespaces :: "NamespaceMatcher option"
  cp_AllowSourceNamespaceOverride :: bool
  cp_Attribution :: "string option"

definition IsInCluster :: "ClusterProvider \<Rightarrow> bool" where
  "IsInCluster p = (cp_KubeConfig p = None)"

definition AuditRoute :: "ClusterProvider \<Rightarrow> string" where
  "AuditRoute p =
     (case cp_Attribution p of
        None \<Rightarrow> cp_Name p
      | Some route \<Rightarrow> if route = [] then cp_Name p else route)"

definition AllowsNamespace ::
  "apimachinery \<Rightarrow> ClusterProvider \<Rightarrow> string \<Rightarrow> labels \<Rightarrow> string + bool" where
  "AllowsNamespace am p nsName nsLabels = Matches am (cp_AllowedNamespaces p) nsName nsLabels"

definition AllowsSourceNamespaceOverride :: "ClusterProvider \<Rightarrow> bool" where
  "AllowsSourceNamespaceOverride p = cp_AllowSourceNamespaceOverride p"

section \<open>Deletion policy\<close>

type_synonym PruneMode = string

definition PruneNever :: PruneMode where "PruneNever = ''Never''"

definition PruneOnEvent :: PruneMode where "PruneOnEvent = ''OnEvent''"

definition PruneAlways :: PruneMode where "PruneAlways = ''Always''"

record PrunePolicy =
  pp_Mode :: PruneMode

definition OrDefault :: "PruneMode \<Rightarrow> PruneMode" where
  "OrDefault m = (if m = [] then PruneOnEvent else m)"

definition EffectiveMode :: "PrunePolicy option \<Rightarrow> PruneMode" where
  "EffectiveMode p = (case p of None \<Rightarrow> PruneOnEvent | Some p \<Rightarrow> OrDefault (pp_Mode p))"

definition AppliesEventDeletes :: "PruneMode \<Rightarrow> bool" where
  "AppliesEventDeletes m = (m = PruneOnEvent \<or> m = PruneAlways)"

definition SweepsOrphans :: "PruneMode \<Rightarrow> bool" where
  "SweepsOrphans m = (m = PruneAlways)"

definition pruneRankNever :: int where "pruneRankNever = 0"

definition pruneRankOnEvent :: int where "pruneRankOnEvent = 1"

definition pruneRankAlways :: int where "pruneRankAlways = 2"

definition restrictiveness :: "PruneMode \<Rightarrow> int" where
  "restrictiveness m =
     (let d = OrDefault m in
      if d = PruneAlways then pruneRankAlways
      else if d = PruneOnEvent then pruneRankOnEvent
      else if d = PruneNever then pruneRankNever
      else pruneRankNever)"

definition MoreRestrictiveOf :: "PruneMode \<Rightarrow> PruneMode \<Rightarrow> PruneMode" where
  "MoreRestrictiveOf m other =
     (if restrictiveness other < restrictiveness m then OrDefault other else OrDefault m)"

section \<open>GitTarget\<close>

record GitTargetPlacementSpec =
  ps_ByType :: "(string, string) gomap"
  ps_Default :: string

record GitTarget =
  gt_Name :: string
  gt_Namespace :: string
  gt_CreationTimestamp :: gotime
  gt_ProviderRef :: string
  gt_Branch :: string
  gt_Path :: string
  gt_ClusterProviderRef :: "string option"
  gt_AllowedSourceNamespaces :: "NamespaceMatcher option"
  gt_Placement :: "GitTargetPlacementSpec option"
  gt_Prune :: "PrunePolicy option"

definition SourceCluster :: "GitTarget \<Rightarrow> string" where
  "SourceCluster g =
     (case gt_ClusterProviderRef g of
        None \<Rightarrow> DefaultClusterProviderName
      | Some name \<Rightarrow> if name = [] then DefaultClusterProviderName else name)"

definition IsLocalSource :: "GitTarget \<Rightarrow> bool" where
  "IsLocalSource g = (SourceCluster g = DefaultClusterProviderName)"

definition DeclaresSourceNamespacePolicy :: "GitTarget \<Rightarrow> bool" where
  "DeclaresSourceNamespacePolicy g = Declared (gt_AllowedSourceNamespaces g)"

definition AllowsSourceNamespace ::
  "apimachinery \<Rightarrow> GitTarget \<Rightarrow> string \<Rightarrow> labels \<Rightarrow> string + bool" where
  "AllowsSourceNamespace am g nsName nsLabels =
     Matches am (gt_AllowedSourceNamespaces g) nsName nsLabels"

definition EffectivePruneMode :: "GitTarget \<Rightarrow> PruneMode" where
  "EffectivePruneMode g = EffectiveMode (gt_Prune g)"

section \<open>Facts about namespace policies\<close>

named_theorems matcher_simps \<open>equations of the namespace policy\<close>

lemma MatchesName_Some [matcher_simps]: "MatchesName (Some m) ns \<longleftrightarrow> ns \<in> set (nm_Names m)"
  by (auto simp: MatchesName_def list_ex_iff)

lemma MatchesName_None [matcher_simps]: "\<not> MatchesName None ns"
  by (simp add: MatchesName_def)

lemma HasSelector_Some [matcher_simps]: "HasSelector (Some m) \<longleftrightarrow> nm_Selector m \<noteq> None"
  by (simp add: HasSelector_def)

lemma HasSelector_None [matcher_simps]: "\<not> HasSelector None"
  by (simp add: HasSelector_def)

text \<open>A policy is its names or its selector; without names in play the two entry points agree.\<close>

lemma Matches_eq:
  "Matches am m ns ls = (if MatchesName m ns then Inr True else SelectorAdmits am m ls)"
  by (auto simp: Matches_def SelectorAdmits_def MatchesName_None split: option.splits)

lemma SelectorAdmits_no_selector: "\<not> HasSelector m \<Longrightarrow> SelectorAdmits am m ls = Inr False"
  by (auto simp: SelectorAdmits_def HasSelector_def split: option.splits)

text \<open>Whether a selector evaluates does not depend on the labels it is evaluated on.\<close>

lemma SelectorAdmits_error_uniform:
  "SelectorAdmits am m ls = Inl e \<Longrightarrow> SelectorAdmits am m ls' = Inl e"
  by (auto simp: SelectorAdmits_def split: option.splits sum.splits)

section \<open>Facts about the deletion policy\<close>

lemmas prune_modes = PruneNever_def PruneOnEvent_def PruneAlways_def

lemma OrDefault_idem [simp]: "OrDefault (OrDefault m) = OrDefault m"
  by (simp add: OrDefault_def prune_modes)

lemma restrictiveness_OrDefault [simp]: "restrictiveness (OrDefault m) = restrictiveness m"
  by (simp add: restrictiveness_def)

text \<open>The rank is exactly the number of deletion paths the mode opens.\<close>

lemma restrictiveness_paths:
  "restrictiveness m =
     (if SweepsOrphans (OrDefault m) then 2 else if AppliesEventDeletes (OrDefault m) then 1 else 0)"
  by (simp add: restrictiveness_def Let_def SweepsOrphans_def AppliesEventDeletes_def
      pruneRankNever_def pruneRankOnEvent_def pruneRankAlways_def)

lemma SweepsOrphans_rank: "SweepsOrphans (OrDefault m) \<longleftrightarrow> 2 \<le> restrictiveness m"
  by (simp add: restrictiveness_paths)

lemma AppliesEventDeletes_rank: "AppliesEventDeletes (OrDefault m) \<longleftrightarrow> 1 \<le> restrictiveness m"
  by (auto simp: restrictiveness_paths SweepsOrphans_def AppliesEventDeletes_def)

lemma restrictiveness_MoreRestrictiveOf:
  "restrictiveness (MoreRestrictiveOf m k) = min (restrictiveness m) (restrictiveness k)"
  by (simp add: MoreRestrictiveOf_def)

lemma MoreRestrictiveOf_resolved: "OrDefault (MoreRestrictiveOf m k) = MoreRestrictiveOf m k"
  by (simp add: MoreRestrictiveOf_def)

text \<open>
  A write that was planned under one deletion policy and is applied under another may delete on
  a path exactly when both policies open that path; so loosening a policy never turns an already
  planned write into deletions, and tightening stops them at once.
\<close>

theorem MoreRestrictiveOf_meet:
  "AppliesEventDeletes (MoreRestrictiveOf m k) =
     (AppliesEventDeletes (OrDefault m) \<and> AppliesEventDeletes (OrDefault k)) \<and>
   SweepsOrphans (MoreRestrictiveOf m k) =
     (SweepsOrphans (OrDefault m) \<and> SweepsOrphans (OrDefault k))"
proof -
  have "AppliesEventDeletes (MoreRestrictiveOf m k) \<longleftrightarrow> 1 \<le> restrictiveness (MoreRestrictiveOf m k)"
    using AppliesEventDeletes_rank [of "MoreRestrictiveOf m k"] by (simp add: MoreRestrictiveOf_resolved)
  moreover have "SweepsOrphans (MoreRestrictiveOf m k) \<longleftrightarrow> 2 \<le> restrictiveness (MoreRestrictiveOf m k)"
    using SweepsOrphans_rank [of "MoreRestrictiveOf m k"] by (simp add: MoreRestrictiveOf_resolved)
  ultimately show ?thesis
    by (simp add: AppliesEventDeletes_rank SweepsOrphans_rank restrictiveness_MoreRestrictiveOf)
qed

end
