(* ===== verification/Rule_Store.thy ===== *)
theory Rule_Store
  imports Api_Types
begin

text \<open>
  The in-memory cache of compiled rules (src/internal/rulestore/store.go): the compiled forms of
  WatchRule and ClusterWatchRule, the store with its write operations, and the matching of an event
  against the compiled rules.

  The read-write mutex makes every operation one step. The two maps are association lists, so the
  order in which \<open>GetMatchingRules\<close> and the snapshots report rules is the (arbitrary) list order. Slices
  are values: a copied rule equals the stored one, and what shares memory with what is not part of
  the model.
\<close>

section \<open>Compiled rules\<close>

record CompiledResourceRule =
  ci_Operations :: "OperationType list"
  ci_APIGroups :: "string list"
  ci_APIVersions :: "string list"
  ci_Resources :: "string list"
  ci_SourceNamespaces :: "string list"

record CompiledRule =
  cr_Source :: NamespacedName
  cr_GitTargetRef :: string
  cr_GitTargetNamespace :: string
  cr_GitProviderRef :: string
  cr_GitProviderNamespace :: string
  cr_Branch :: string
  cr_Path :: string
  cr_IsClusterScoped :: bool
  cr_ResourceRules :: "CompiledResourceRule list"

record CompiledClusterResourceRule =
  cci_Operations :: "OperationType list"
  cci_APIGroups :: "string list"
  cci_APIVersions :: "string list"
  cci_Resources :: "string list"

record CompiledClusterRule =
  cc_Source :: NamespacedName
  cc_GitTargetRef :: string
  cc_GitTargetNamespace :: string
  cc_GitProviderRef :: string
  cc_GitProviderNamespace :: string
  cc_Branch :: string
  cc_Path :: string
  cc_Rules :: "CompiledClusterResourceRule list"

section \<open>The store\<close>

record RuleStore =
  rs_rules :: "(NamespacedName, CompiledRule) gomap"
  rs_clusterRules :: "(NamespacedName, CompiledClusterRule) gomap"
  rs_ready :: bool

definition NewStore :: RuleStore where
  "NewStore = \<lparr> rs_rules = [], rs_clusterRules = [], rs_ready = False \<rparr>"

text \<open>The loop of \<open>AddOrUpdateWatchRule\<close>: item \<open>i\<close> takes entry \<open>i\<close> of the resolved namespaces, if there is one.\<close>

definition compile_item :: "ResourceRule \<Rightarrow> string list \<Rightarrow> CompiledResourceRule" where
  "compile_item r namespaces =
     \<lparr> ci_Operations = rr_Operations r, ci_APIGroups = rr_APIGroups r,
       ci_APIVersions = rr_APIVersions r, ci_Resources = rr_Resources r,
       ci_SourceNamespaces = namespaces \<rparr>"

fun compile_items :: "ResourceRule list \<Rightarrow> string list list \<Rightarrow> CompiledResourceRule list" where
  "compile_items [] sourceNamespaces = []"
| "compile_items (r # rs) [] = compile_item r [] # compile_items rs []"
| "compile_items (r # rs) (ns # nss) = compile_item r ns # compile_items rs nss"

definition compile_rule ::
  "WatchRule \<Rightarrow> string list list \<Rightarrow> string \<Rightarrow> string \<Rightarrow> string \<Rightarrow> string \<Rightarrow> string \<Rightarrow> string \<Rightarrow> CompiledRule"
where
  "compile_rule rule sourceNamespaces tn tns pn pns branch path =
     \<lparr> cr_Source = \<lparr> nn_Namespace = wr_Namespace rule, nn_Name = wr_Name rule \<rparr>,
       cr_GitTargetRef = tn, cr_GitTargetNamespace = tns,
       cr_GitProviderRef = pn, cr_GitProviderNamespace = pns,
       cr_Branch = branch, cr_Path = path,
       cr_IsClusterScoped = False,
       cr_ResourceRules = compile_items (wr_Rules rule) sourceNamespaces \<rparr>"

definition AddOrUpdateWatchRule ::
  "RuleStore \<Rightarrow> WatchRule \<Rightarrow> string list list \<Rightarrow> string \<Rightarrow> string \<Rightarrow> string \<Rightarrow> string \<Rightarrow> string \<Rightarrow> string
    \<Rightarrow> RuleStore"
where
  "AddOrUpdateWatchRule s rule sourceNamespaces tn tns pn pns branch path =
     (let key = \<lparr> nn_Namespace = wr_Namespace rule, nn_Name = wr_Name rule \<rparr>;
          compiled = compile_rule rule sourceNamespaces tn tns pn pns branch path
      in s\<lparr> rs_rules := map_put key compiled (rs_rules s) \<rparr>)"

definition deepCopyCompiledRule :: "CompiledRule \<Rightarrow> CompiledRule" where
  "deepCopyCompiledRule r =
     (if cr_ResourceRules r \<noteq> [] then
        r\<lparr> cr_ResourceRules :=
             map (\<lambda>i. i\<lparr> ci_SourceNamespaces := [] @ ci_SourceNamespaces i \<rparr>) (cr_ResourceRules r) \<rparr>
      else r)"

definition deepCopyCompiledClusterRule :: "CompiledClusterRule \<Rightarrow> CompiledClusterRule" where
  "deepCopyCompiledClusterRule r =
     (if cc_Rules r \<noteq> [] then r\<lparr> cc_Rules := map (\<lambda>i. i) (cc_Rules r) \<rparr> else r)"

definition GetWatchRule :: "RuleStore \<Rightarrow> NamespacedName \<Rightarrow> CompiledRule option" where
  "GetWatchRule s key =
     (case map_get (rs_rules s) key of
        None \<Rightarrow> None
      | Some rule \<Rightarrow> Some (deepCopyCompiledRule rule))"

definition compile_cluster_item :: "ClusterResourceRule \<Rightarrow> CompiledClusterResourceRule" where
  "compile_cluster_item r =
     \<lparr> cci_Operations = crr_Operations r, cci_APIGroups = crr_APIGroups r,
       cci_APIVersions = crr_APIVersions r, cci_Resources = crr_Resources r \<rparr>"

definition compile_cluster_rule ::
  "ClusterWatchRule \<Rightarrow> string \<Rightarrow> string \<Rightarrow> string \<Rightarrow> string \<Rightarrow> string \<Rightarrow> string \<Rightarrow> CompiledClusterRule"
where
  "compile_cluster_rule rule tn tns pn pns branch path =
     \<lparr> cc_Source = \<lparr> nn_Namespace = [], nn_Name = cwr_Name rule \<rparr>,
       cc_GitTargetRef = tn, cc_GitTargetNamespace = tns,
       cc_GitProviderRef = pn, cc_GitProviderNamespace = pns,
       cc_Branch = branch, cc_Path = path,
       cc_Rules = map compile_cluster_item (cwr_Rules rule) \<rparr>"

definition AddOrUpdateClusterWatchRule ::
  "RuleStore \<Rightarrow> ClusterWatchRule \<Rightarrow> string \<Rightarrow> string \<Rightarrow> string \<Rightarrow> string \<Rightarrow> string \<Rightarrow> string \<Rightarrow> RuleStore"
where
  "AddOrUpdateClusterWatchRule s rule tn tns pn pns branch path =
     (let key = \<lparr> nn_Namespace = [], nn_Name = cwr_Name rule \<rparr>;
          compiled = compile_cluster_rule rule tn tns pn pns branch path
      in s\<lparr> rs_clusterRules := map_put key compiled (rs_clusterRules s) \<rparr>)"

definition DeleteWatchRule :: "RuleStore \<Rightarrow> NamespacedName \<Rightarrow> RuleStore" where
  "DeleteWatchRule s key = s\<lparr> rs_rules := map_del key (rs_rules s) \<rparr>"

definition DeleteClusterWatchRule :: "RuleStore \<Rightarrow> NamespacedName \<Rightarrow> RuleStore" where
  "DeleteClusterWatchRule s key = s\<lparr> rs_clusterRules := map_del key (rs_clusterRules s) \<rparr>"

definition MarkReady :: "RuleStore \<Rightarrow> RuleStore" where
  "MarkReady s = s\<lparr> rs_ready := True \<rparr>"

definition IsReady :: "RuleStore \<Rightarrow> bool" where
  "IsReady s = rs_ready s"

section \<open>Matching\<close>

definition ci_matchesSourceNamespace :: "CompiledResourceRule \<Rightarrow> string \<Rightarrow> bool" where
  "ci_matchesSourceNamespace r eventNamespace =
     (if eventNamespace = [] then True
      else list_ex (\<lambda>ns. ns = eventNamespace) (ci_SourceNamespaces r))"

definition ci_matchesOperations :: "CompiledResourceRule \<Rightarrow> OperationType \<Rightarrow> bool" where
  "ci_matchesOperations r operation =
     (if ci_Operations r = [] then True
      else list_ex (\<lambda>op. op = OperationAll \<or> op = operation) (ci_Operations r))"

definition ci_matchesAPIGroups :: "CompiledResourceRule \<Rightarrow> string \<Rightarrow> bool" where
  "ci_matchesAPIGroups r apiGroup =
     (if ci_APIGroups r = [] then True
      else list_ex (\<lambda>g. g = ''*'' \<or> g = apiGroup) (ci_APIGroups r))"

definition ci_matchesAPIVersions :: "CompiledResourceRule \<Rightarrow> string \<Rightarrow> bool" where
  "ci_matchesAPIVersions r apiVersion =
     (if ci_APIVersions r = [] then True
      else list_ex (\<lambda>v. v = ''*'' \<or> v = apiVersion) (ci_APIVersions r))"

definition ci_singleResourceMatches :: "string \<Rightarrow> string \<Rightarrow> bool" where
  "ci_singleResourceMatches ruleResource resourcePlural =
     (if ruleResource = [] then False
      else if ruleResource = ''*'' then True
      else if EqualFold ruleResource resourcePlural then True
      else if HasSuffix ruleResource ''/*'' then
        HasPrefix (ToLower resourcePlural)
          (ToLower (take (length ruleResource - 2) ruleResource) @ ''/'')
      else False)"

definition ci_resourceMatches :: "CompiledResourceRule \<Rightarrow> string \<Rightarrow> bool" where
  "ci_resourceMatches r resourcePlural =
     list_ex (\<lambda>p. ci_singleResourceMatches p resourcePlural) (ci_Resources r)"

definition ci_matches ::
  "CompiledResourceRule \<Rightarrow> string \<Rightarrow> string \<Rightarrow> OperationType \<Rightarrow> string \<Rightarrow> string \<Rightarrow> bool" where
  "ci_matches r eventNamespace resourcePlural operation apiGroup apiVersion =
     (if \<not> ci_matchesSourceNamespace r eventNamespace then False
      else if \<not> ci_matchesOperations r operation then False
      else if \<not> ci_matchesAPIGroups r apiGroup then False
      else if \<not> ci_matchesAPIVersions r apiVersion then False
      else ci_resourceMatches r resourcePlural)"

definition cr_matches ::
  "CompiledRule \<Rightarrow> string \<Rightarrow> string \<Rightarrow> OperationType \<Rightarrow> string \<Rightarrow> string \<Rightarrow> bool" where
  "cr_matches r eventNamespace resourcePlural operation apiGroup apiVersion =
     list_ex (\<lambda>i. ci_matches i eventNamespace resourcePlural operation apiGroup apiVersion)
       (cr_ResourceRules r)"

text \<open>The object is only asked for its namespace: \<open>None\<close> is a nil object.\<close>

definition GetMatchingRules ::
  "RuleStore \<Rightarrow> string option \<Rightarrow> string \<Rightarrow> OperationType \<Rightarrow> string \<Rightarrow> string \<Rightarrow> bool \<Rightarrow> CompiledRule list"
where
  "GetMatchingRules s obj resourcePlural operation apiGroup apiVersion isClusterScoped =
     (let eventNamespace = (case obj of None \<Rightarrow> [] | Some ns \<Rightarrow> ns) in
      filter (\<lambda>rule. \<not> (cr_IsClusterScoped rule \<noteq> isClusterScoped)
                \<and> cr_matches rule eventNamespace resourcePlural operation apiGroup apiVersion)
        (map snd (rs_rules s)))"

definition cci_matchesOperations :: "CompiledClusterResourceRule \<Rightarrow> OperationType \<Rightarrow> bool" where
  "cci_matchesOperations r operation =
     (if cci_Operations r = [] then True
      else list_ex (\<lambda>op. op = OperationAll \<or> op = operation) (cci_Operations r))"

definition cci_matchesAPIGroups :: "CompiledClusterResourceRule \<Rightarrow> string \<Rightarrow> bool" where
  "cci_matchesAPIGroups r apiGroup =
     (if cci_APIGroups r = [] then True
      else list_ex (\<lambda>g. g = ''*'' \<or> g = apiGroup) (cci_APIGroups r))"

definition cci_matchesAPIVersions :: "CompiledClusterResourceRule \<Rightarrow> string \<Rightarrow> bool" where
  "cci_matchesAPIVersions r apiVersion =
     (if cci_APIVersions r = [] then True
      else list_ex (\<lambda>v. v = ''*'' \<or> v = apiVersion) (cci_APIVersions r))"

definition cci_singleResourceMatches :: "string \<Rightarrow> string \<Rightarrow> bool" where
  "cci_singleResourceMatches ruleResource resourcePlural =
     (if ruleResource = [] then False
      else if ruleResource = ''*'' then True
      else if EqualFold ruleResource resourcePlural then True
      else if HasSuffix ruleResource ''/*'' then
        HasPrefix (ToLower resourcePlural)
          (ToLower (take (length ruleResource - 2) ruleResource) @ ''/'')
      else False)"

definition cci_resourceMatches :: "CompiledClusterResourceRule \<Rightarrow> string \<Rightarrow> bool" where
  "cci_resourceMatches r resourcePlural =
     list_ex (\<lambda>p. cci_singleResourceMatches p resourcePlural) (cci_Resources r)"

definition matchesCluster ::
  "CompiledClusterResourceRule \<Rightarrow> string \<Rightarrow> OperationType \<Rightarrow> string \<Rightarrow> string \<Rightarrow> bool" where
  "matchesCluster r resourcePlural operation apiGroup apiVersion =
     (if \<not> cci_matchesOperations r operation then False
      else if \<not> cci_matchesAPIGroups r apiGroup then False
      else if \<not> cci_matchesAPIVersions r apiVersion then False
      else cci_resourceMatches r resourcePlural)"

definition clusterRuleMatches ::
  "CompiledClusterRule \<Rightarrow> string \<Rightarrow> OperationType \<Rightarrow> string \<Rightarrow> string \<Rightarrow> bool \<Rightarrow> bool" where
  "clusterRuleMatches clusterRule resourcePlural operation apiGroup apiVersion isClusterScoped =
     (if \<not> isClusterScoped then False
      else list_ex (\<lambda>rule. matchesCluster rule resourcePlural operation apiGroup apiVersion)
             (cc_Rules clusterRule))"

definition GetMatchingClusterRules ::
  "RuleStore \<Rightarrow> string \<Rightarrow> OperationType \<Rightarrow> string \<Rightarrow> string \<Rightarrow> bool \<Rightarrow> CompiledClusterRule list" where
  "GetMatchingClusterRules s resourcePlural operation apiGroup apiVersion isClusterScoped =
     filter (\<lambda>r. clusterRuleMatches r resourcePlural operation apiGroup apiVersion isClusterScoped)
       (map snd (rs_clusterRules s))"

definition SnapshotWatchRules :: "RuleStore \<Rightarrow> CompiledRule list" where
  "SnapshotWatchRules s = map deepCopyCompiledRule (map snd (rs_rules s))"

definition SnapshotClusterWatchRules :: "RuleStore \<Rightarrow> CompiledClusterRule list" where
  "SnapshotClusterWatchRules s = map deepCopyCompiledClusterRule (map snd (rs_clusterRules s))"


section \<open>The abstract store\<close>

text \<open>The write operations as commands, and the abstract machine: two partial maps and a flag.\<close>

datatype store_op =
    OpAdd WatchRule "string list list" string string string string string string
  | OpAddCluster ClusterWatchRule string string string string string string
  | OpDelete NamespacedName
  | OpDeleteCluster NamespacedName
  | OpMarkReady

fun store_step :: "RuleStore \<Rightarrow> store_op \<Rightarrow> RuleStore" where
  "store_step s (OpAdd r nss tn tns pn pns b p) = AddOrUpdateWatchRule s r nss tn tns pn pns b p"
| "store_step s (OpAddCluster r tn tns pn pns b p) = AddOrUpdateClusterWatchRule s r tn tns pn pns b p"
| "store_step s (OpDelete k) = DeleteWatchRule s k"
| "store_step s (OpDeleteCluster k) = DeleteClusterWatchRule s k"
| "store_step s OpMarkReady = MarkReady s"

type_synonym abstract_store =
  "(NamespacedName \<rightharpoonup> CompiledRule) \<times> (NamespacedName \<rightharpoonup> CompiledClusterRule) \<times> bool"

fun abstract_step :: "abstract_store \<Rightarrow> store_op \<Rightarrow> abstract_store" where
  "abstract_step (rs, cs, rdy) (OpAdd r nss tn tns pn pns b p) =
     (let c = compile_rule r nss tn tns pn pns b p in (rs(cr_Source c \<mapsto> c), cs, rdy))"
| "abstract_step (rs, cs, rdy) (OpAddCluster r tn tns pn pns b p) =
     (let c = compile_cluster_rule r tn tns pn pns b p in (rs, cs(cc_Source c \<mapsto> c), rdy))"
| "abstract_step (rs, cs, rdy) (OpDelete k) = (rs(k := None), cs, rdy)"
| "abstract_step (rs, cs, rdy) (OpDeleteCluster k) = (rs, cs(k := None), rdy)"
| "abstract_step (rs, cs, rdy) OpMarkReady = (rs, cs, True)"

definition store_abs :: "RuleStore \<Rightarrow> abstract_store" where
  "store_abs s = (map_get (rs_rules s), map_get (rs_clusterRules s), rs_ready s)"

text \<open>
  The invariant: each map holds a key once, each rule stands under its own name, a WatchRule is never
  cluster-scoped, and a ClusterWatchRule has no namespace.
\<close>

definition store_inv :: "RuleStore \<Rightarrow> bool" where
  "store_inv s \<longleftrightarrow>
     map_wf (rs_rules s) \<and> map_wf (rs_clusterRules s) \<and>
     (\<forall>(k, c) \<in> set (rs_rules s). cr_Source c = k \<and> \<not> cr_IsClusterScoped c) \<and>
     (\<forall>(k, c) \<in> set (rs_clusterRules s). cc_Source c = k \<and> nn_Namespace k = [])"

text \<open>The last command of a history that concerns a key decides what is stored under it.\<close>

fun rule_write :: "store_op \<Rightarrow> (NamespacedName \<times> CompiledRule option) option" where
  "rule_write (OpAdd r nss tn tns pn pns b p) =
     (let c = compile_rule r nss tn tns pn pns b p in Some (cr_Source c, Some c))"
| "rule_write (OpDelete k) = Some (k, None)"
| "rule_write e = None"

fun last_write :: "store_op list \<Rightarrow> NamespacedName \<Rightarrow> CompiledRule option" where
  "last_write [] k = None"
| "last_write (e # earlier) k =
     (case rule_write e of
        Some (k', v) \<Rightarrow> if k' = k then v else last_write earlier k
      | None \<Rightarrow> last_write earlier k)"

lemma deepCopyCompiledRule_id [simp]: "deepCopyCompiledRule r = r"
  by (simp add: deepCopyCompiledRule_def)

lemma deepCopyCompiledClusterRule_id [simp]: "deepCopyCompiledClusterRule r = r"
  by (simp add: deepCopyCompiledClusterRule_def)

lemma GetWatchRule_eq: "GetWatchRule s k = map_get (rs_rules s) k"
  by (simp add: GetWatchRule_def split: option.splits)

lemma cr_Source_compile [simp]:
  "cr_Source (compile_rule r nss tn tns pn pns b p) =
     \<lparr> nn_Namespace = wr_Namespace r, nn_Name = wr_Name r \<rparr>"
  by (simp add: compile_rule_def)

lemma cr_IsClusterScoped_compile [simp]:
  "\<not> cr_IsClusterScoped (compile_rule r nss tn tns pn pns b p)"
  by (simp add: compile_rule_def)

lemma cc_Source_compile [simp]:
  "cc_Source (compile_cluster_rule r tn tns pn pns b p) =
     \<lparr> nn_Namespace = [], nn_Name = cwr_Name r \<rparr>"
  by (simp add: compile_cluster_rule_def)

lemmas store_ops = AddOrUpdateWatchRule_def AddOrUpdateClusterWatchRule_def DeleteWatchRule_def
  DeleteClusterWatchRule_def MarkReady_def

lemma store_inv_start: "store_inv NewStore"
  by (simp add: store_inv_def NewStore_def)

lemma store_inv_step: "store_inv s \<Longrightarrow> store_inv (store_step s e)"
  by (cases e) (auto simp: store_inv_def store_ops Let_def set_map_put set_map_del)

lemma store_abs_step: "store_abs (store_step s e) = abstract_step (store_abs s) e"
  by (cases e) (auto simp: store_abs_def store_ops Let_def al.lookup_put al.lookup_del fun_eq_iff)

interpretation rstore: machine_refinement store_step store_inv NewStore abstract_step store_abs
  by unfold_locales (auto intro: store_inv_start store_inv_step simp: store_abs_step)

lemma abstract_history:
  "fst (foldl abstract_step (Map.empty, Map.empty, False) ops) k = last_write (rev ops) k"
proof (induction ops rule: rev_induct)
  case (snoc e ops)
  obtain rs cs rdy where "foldl abstract_step (Map.empty, Map.empty, False) ops = (rs, cs, rdy)"
    by (metis prod_cases3)
  with snoc show ?case by (cases e) (auto simp: Let_def)
qed simp

lemma stored_rule_history: "map_get (rs_rules (foldl store_step NewStore ops)) k = last_write (rev ops) k"
proof -
  have "map_get (rs_rules (foldl store_step NewStore ops)) k =
      fst (store_abs (foldl store_step NewStore ops)) k"
    by (simp add: store_abs_def)
  also have "\<dots> = fst (foldl abstract_step (Map.empty, Map.empty, False) ops) k"
    by (simp add: rstore.abs_run) (simp add: store_abs_def NewStore_def)
  finally show ?thesis by (simp add: abstract_history)
qed

lemma rules_of_inv:
  assumes "store_inv s"
  shows "c \<in> snd ` set (rs_rules s) \<longleftrightarrow> map_get (rs_rules s) (cr_Source c) = Some c"
  using assms unfolding store_inv_def by (force simp: map_of_eq_Some_iff)

text \<open>
  C36: the rule store implements the abstract store. After any sequence of write operations,
  reading a WatchRule by key returns what the last operation on that key left: the compiled rule of
  that addition, or nothing after a deletion or when the key was never written.
\<close>

theorem rule_store_refines_history:
  "GetWatchRule (foldl store_step NewStore ops) k = last_write (rev ops) k"
  by (simp add: GetWatchRule_eq stored_rule_history)


section \<open>What matching means\<close>

text \<open>
  The specification of a resource pattern, of a list filter with a wildcard, and of an item: the
  declarative reading of the API documentation.
\<close>

definition resource_pattern :: "string \<Rightarrow> string \<Rightarrow> bool" where
  "resource_pattern p r \<longleftrightarrow>
     p \<noteq> [] \<and> (p = ''*'' \<or> ToLower p = ToLower r \<or>
       (\<exists>q sub. p = q @ ''/*'' \<and> ToLower r = ToLower q @ ''/'' @ sub))"

definition listed :: "string list \<Rightarrow> string \<Rightarrow> bool" where
  "listed xs x \<longleftrightarrow> xs = [] \<or> ''*'' \<in> set xs \<or> x \<in> set xs"

definition item_selects ::
  "CompiledResourceRule \<Rightarrow> string \<Rightarrow> string \<Rightarrow> OperationType \<Rightarrow> string \<Rightarrow> string \<Rightarrow> bool" where
  "item_selects i ns r op g v \<longleftrightarrow>
     (ns = [] \<or> ns \<in> set (ci_SourceNamespaces i)) \<and> listed (ci_Operations i) op \<and>
     listed (ci_APIGroups i) g \<and> listed (ci_APIVersions i) v \<and>
     (\<exists>p \<in> set (ci_Resources i). resource_pattern p r)"

lemma take_suffix: "suffix q p \<Longrightarrow> p = take (length p - length q) p @ q"
  by (auto simp: suffix_def)

lemma subresource_pattern:
  "HasSuffix p ''/*'' \<and> HasPrefix (ToLower r) (ToLower (take (length p - 2) p) @ ''/'') \<longleftrightarrow>
     (\<exists>q sub. p = q @ ''/*'' \<and> ToLower r = ToLower q @ ''/'' @ sub)"
  (is "?L \<longleftrightarrow> ?R")
proof
  assume L: ?L
  then have "p = take (length p - 2) p @ ''/*''"
    using take_suffix [of "''/*''" p] by (simp add: HasSuffix_def numeral_2_eq_2)
  moreover have "\<exists>sub. ToLower r = ToLower (take (length p - 2) p) @ ''/'' @ sub"
    using L by (auto simp: HasPrefix_def prefix_def)
  ultimately show ?R by blast
next
  assume ?R
  then show ?L by (auto simp: HasSuffix_def HasPrefix_def suffix_def prefix_def)
qed

lemma ci_singleResourceMatches_iff: "ci_singleResourceMatches p r \<longleftrightarrow> resource_pattern p r"
  unfolding ci_singleResourceMatches_def resource_pattern_def EqualFold_def
  using subresource_pattern [of p r] by argo

lemma listed_loop: "(if xs = [] then True else list_ex (\<lambda>y. y = ''*'' \<or> y = x) xs) = listed xs x"
  by (auto simp: listed_def list_ex_iff)

lemma ci_matches_iff: "ci_matches i ns r op g v \<longleftrightarrow> item_selects i ns r op g v"
proof -
  have "ci_matchesSourceNamespace i ns = (ns = [] \<or> ns \<in> set (ci_SourceNamespaces i))"
    by (auto simp: ci_matchesSourceNamespace_def list_ex_iff)
  moreover have "ci_resourceMatches i r = (\<exists>p \<in> set (ci_Resources i). resource_pattern p r)"
    by (simp add: ci_resourceMatches_def ci_singleResourceMatches_iff list_ex_iff)
  ultimately show ?thesis
    unfolding ci_matches_def item_selects_def ci_matchesOperations_def ci_matchesAPIGroups_def
      ci_matchesAPIVersions_def OperationAll_def listed_loop by argo
qed

text \<open>The cluster-rule routines are copies of the WatchRule ones without the namespace.\<close>

definition as_item :: "CompiledClusterResourceRule \<Rightarrow> CompiledResourceRule" where
  "as_item i =
     \<lparr> ci_Operations = cci_Operations i, ci_APIGroups = cci_APIGroups i,
       ci_APIVersions = cci_APIVersions i, ci_Resources = cci_Resources i,
       ci_SourceNamespaces = [] \<rparr>"

lemma matchesCluster_eq: "matchesCluster i r op g v = ci_matches (as_item i) [] r op g v"
  unfolding matchesCluster_def ci_matches_def as_item_def ci_matchesSourceNamespace_def
    ci_matchesOperations_def ci_matchesAPIGroups_def ci_matchesAPIVersions_def ci_resourceMatches_def
    ci_singleResourceMatches_def cci_matchesOperations_def cci_matchesAPIGroups_def
    cci_matchesAPIVersions_def cci_resourceMatches_def cci_singleResourceMatches_def
  by simp

text \<open>
  C37: which WatchRules an event is delivered to. After any sequence of store operations, a
  namespaced event is matched by exactly those stored rules that have an item listing the event's
  namespace (an event without a namespace passes), its operation, group and version, and a resource
  pattern for its resource; each matched rule is the one stored under its own name.
\<close>

theorem GetMatchingRules_spec:
  "set (GetMatchingRules (foldl store_step NewStore ops) (Some ns) r op g v False) =
     {c. last_write (rev ops) (cr_Source c) = Some c \<and>
         (\<exists>i \<in> set (cr_ResourceRules c). item_selects i ns r op g v)}"
proof -
  let ?s = "foldl store_step NewStore ops"
  have "store_inv ?s" by (rule rstore.inv_run)
  then have "c \<in> snd ` set (rs_rules ?s) \<longleftrightarrow> last_write (rev ops) (cr_Source c) = Some c" for c
    by (simp add: rules_of_inv stored_rule_history)
  moreover have "c \<in> snd ` set (rs_rules ?s) \<Longrightarrow> \<not> cr_IsClusterScoped c" for c
    using \<open>store_inv ?s\<close> by (auto simp: store_inv_def)
  ultimately show ?thesis
    by (auto simp: GetMatchingRules_def cr_matches_def list_ex_iff ci_matches_iff)
qed

text \<open>
  scopes never mix. A cluster-scoped resource matches no WatchRule, and a namespaced
  resource matches no ClusterWatchRule, whatever was stored and whatever the rules say.
\<close>

theorem scopes_never_mix:
  "GetMatchingRules (foldl store_step NewStore ops) obj r op g v True = [] \<and>
   GetMatchingClusterRules (foldl store_step NewStore ops) r op g v False = []"
proof -
  have "store_inv (foldl store_step NewStore ops)" by (rule rstore.inv_run)
  then show ?thesis
    by (auto simp: GetMatchingRules_def GetMatchingClusterRules_def clusterRuleMatches_def
        store_inv_def filter_empty_conv)
qed

section \<open>Compiled items\<close>

lemma length_compile_items [simp]: "length (compile_items rs nss) = length rs"
  by (induction rs nss rule: compile_items.induct) auto

lemma compile_items_nth:
  "j < length rs \<Longrightarrow>
     compile_items rs nss ! j = compile_item (rs ! j) (if j < length nss then nss ! j else [])"
proof (induction rs nss arbitrary: j rule: compile_items.induct)
  case (2 r rs)
  then show ?case by (cases j) auto
next
  case (3 r rs ns nss)
  then show ?case by (cases j) auto
qed simp

lemma compile_items_namespaces:
  "length nss = length rs \<Longrightarrow> map ci_SourceNamespaces (compile_items rs nss) = nss"
  by (rule nth_equalityI) (simp_all add: compile_items_nth compile_item_def)

end
