(* ===== verification/Source_Authz.thy ===== *)
theory Source_Authz
  imports Api_Types
begin

text \<open>
  Cross-object authorization (src/internal/authz): may a GitTarget mirror through its ClusterProvider
  (\<open>GitTargetAdmitted\<close>), and which source-cluster namespaces may each item of a WatchRule watch
  (\<open>ResolveWatchRuleSourceScope\<close>).

  \<^item> The API reader is a record of two functions, one per kind read; all reads of one call see the
    same objects.
  \<^item> The \<open>SourceNamespaceResolver\<close> interface is a record of two state-passing functions, and \<open>None\<close> is
    the nil resolver. What an implementation owes its callers is the locale \<open>source_resolver\<close>; the
    watch manager's implementation is shown to satisfy it in \<open>Source_Scope\<close>.
  \<^item> The operator-facing message of a decision is left out of the records; every verdict, reason and
    namespace set is kept.
\<close>

section \<open>Reading the API\<close>

datatype ReadError = NotFound | ReadFailed string

record Reader =
  rd_ClusterProvider :: "string \<Rightarrow> ReadError + ClusterProvider"
  rd_NamespaceLabels :: "string \<Rightarrow> ReadError + labels"

section \<open>ClusterProvider admission\<close>

definition ReasonClusterProviderNotFound :: string where
  "ReasonClusterProviderNotFound = ''ClusterProviderNotFound''"

definition ReasonNamespaceNotAuthorized :: string where
  "ReasonNamespaceNotAuthorized = ''NamespaceNotAuthorized''"

record Decision =
  de_Allowed :: bool
  de_Reason :: string

definition GitTargetAdmitted :: "apimachinery \<Rightarrow> Reader \<Rightarrow> GitTarget \<Rightarrow> string + Decision" where
  "GitTargetAdmitted am reader target =
     (case rd_ClusterProvider reader (SourceCluster target) of
        Inl NotFound \<Rightarrow> Inr \<lparr> de_Allowed = False, de_Reason = ReasonClusterProviderNotFound \<rparr>
      | Inl (ReadFailed err) \<Rightarrow> Inl err
      | Inr provider \<Rightarrow>
          (let decided = (\<lambda>nsLabels.
                 case AllowsNamespace am provider (gt_Namespace target) nsLabels of
                   Inl selErr \<Rightarrow> \<lparr> de_Allowed = False, de_Reason = ReasonNamespaceNotAuthorized \<rparr>
                 | Inr allowed \<Rightarrow>
                     if \<not> allowed then \<lparr> de_Allowed = False, de_Reason = ReasonNamespaceNotAuthorized \<rparr>
                     else \<lparr> de_Allowed = True, de_Reason = [] \<rparr>)
           in case rd_NamespaceLabels reader (gt_Namespace target) of
                Inl NotFound \<Rightarrow> Inr (decided [])
              | Inl (ReadFailed err) \<Rightarrow> Inl err
              | Inr nsLabels \<Rightarrow> Inr (decided nsLabels)))"

section \<open>Verdicts and decisions\<close>

definition ReasonLegacySourceNamespace :: string where
  "ReasonLegacySourceNamespace = ''LegacySourceNamespace''"

definition ReasonSourceNamespaceAllowed :: string where
  "ReasonSourceNamespaceAllowed = ''SourceNamespaceAllowed''"

definition ReasonNoAdmittedSourceNamespaces :: string where
  "ReasonNoAdmittedSourceNamespaces = ''NoAdmittedSourceNamespaces''"

definition ReasonSourceNamespaceNotAllowed :: string where
  "ReasonSourceNamespaceNotAllowed = ''SourceNamespaceNotAllowed''"

definition ReasonSourceNamespacePolicyUnavailable :: string where
  "ReasonSourceNamespacePolicyUnavailable = ''SourceNamespacePolicyUnavailable''"

definition ReasonCheckingSourceNamespacePolicy :: string where
  "ReasonCheckingSourceNamespacePolicy = ''CheckingSourceNamespacePolicy''"

datatype SourceScopeVerdict =
    SourceScopeUnknown
  | SourceScopeAdmitted
  | SourceScopeDenied
  | SourceScopeUnavailable

record 's SourceNamespaceResolver =
  sr_ResolveSourceNamespace :: "'s \<Rightarrow> GitTarget \<Rightarrow> string \<Rightarrow> SourceScopeVerdict \<times> 's"
  sr_EnumerateSourceNamespaces :: "'s \<Rightarrow> GitTarget \<Rightarrow> (string list \<times> SourceScopeVerdict) \<times> 's"

record SourceNamespaceDecision =
  sd_Index :: nat
  sd_Requested :: string
  sd_Namespaces :: "string list"
  sd_Verdict :: SourceScopeVerdict
  sd_Reason :: string

definition sd_Admitted :: "SourceNamespaceDecision \<Rightarrow> bool" where
  "sd_Admitted d = (sd_Verdict d = SourceScopeAdmitted)"

definition sd_Terminal :: "SourceNamespaceDecision \<Rightarrow> bool" where
  "sd_Terminal d = (sd_Verdict d = SourceScopeDenied \<or> sd_Verdict d = SourceScopeUnavailable)"

record ResolvedSourceScope =
  ss_Items :: "SourceNamespaceDecision list"
  ss_Verdict :: SourceScopeVerdict
  ss_Reason :: string

definition zero_scope :: ResolvedSourceScope where
  "zero_scope = \<lparr> ss_Items = [], ss_Verdict = SourceScopeUnknown, ss_Reason = [] \<rparr>"

definition ss_Admitted :: "ResolvedSourceScope \<Rightarrow> bool" where
  "ss_Admitted s = (ss_Verdict s = SourceScopeAdmitted)"

definition ss_Terminal :: "ResolvedSourceScope \<Rightarrow> bool" where
  "ss_Terminal s = (ss_Verdict s = SourceScopeDenied \<or> ss_Verdict s = SourceScopeUnavailable)"

definition NamespacesFor :: "ResolvedSourceScope \<Rightarrow> int \<Rightarrow> string list" where
  "NamespacesFor s index =
     (if index < 0 \<or> index \<ge> int (length (ss_Items s)) then []
      else sd_Namespaces (ss_Items s ! nat index))"

definition Fingerprint :: "ResolvedSourceScope \<Rightarrow> string" where
  "Fingerprint s =
     Join '';'' (map (\<lambda>item. Itoa (sd_Index item) @ ''='' @ Join '','' (sd_Namespaces item)) (ss_Items s))"

section \<open>One item\<close>

definition sortedUnique :: "string list \<Rightarrow> string list" where
  "sortedUnique xs = sort (rev (fold (\<lambda>v out. if v \<in> set out then out else v # out) xs []))"

definition resolveWith ::
  "'s SourceNamespaceResolver option \<Rightarrow> 's \<Rightarrow> GitTarget \<Rightarrow> string \<Rightarrow> SourceScopeVerdict \<times> 's" where
  "resolveWith resolver st target namespace =
     (if MatchesName (gt_AllowedSourceNamespaces target) namespace then (SourceScopeAdmitted, st)
      else if \<not> HasSelector (gt_AllowedSourceNamespaces target) then (SourceScopeDenied, st)
      else case resolver of
             None \<Rightarrow> (SourceScopeUnknown, st)
           | Some r \<Rightarrow> sr_ResolveSourceNamespace r st target namespace)"

definition enumerateWith ::
  "'s SourceNamespaceResolver option \<Rightarrow> 's \<Rightarrow> GitTarget \<Rightarrow> (string list \<times> SourceScopeVerdict) \<times> 's" where
  "enumerateWith resolver st target =
     (case resolver of
        None \<Rightarrow> (([], SourceScopeUnknown), st)
      | Some r \<Rightarrow> sr_EnumerateSourceNamespaces r st target)"

text \<open>
  The gate carries its inputs in a struct; here the fixed ones are arguments, and the part that
  changes while the items are decided is a record: the memoised provider verdict and the state of
  the resolver.
\<close>

record 's itemGate =
  ig_delegation :: "SourceNamespaceDecision option"
  ig_delegationAsked :: bool
  ig_resolver :: 's

definition refusal_template :: SourceNamespaceDecision where
  "refusal_template =
     \<lparr> sd_Index = 0, sd_Requested = [], sd_Namespaces = [], sd_Verdict = SourceScopeDenied,
       sd_Reason = ReasonSourceNamespaceNotAllowed \<rparr>"

definition evaluateDelegation ::
  "apimachinery \<Rightarrow> Reader \<Rightarrow> GitTarget \<Rightarrow> string + SourceNamespaceDecision option" where
  "evaluateDelegation am reader target =
     (case rd_ClusterProvider reader (SourceCluster target) of
        Inl NotFound \<Rightarrow> Inr (Some refusal_template)
      | Inl (ReadFailed err) \<Rightarrow> Inl err
      | Inr provider \<Rightarrow>
          (case GitTargetAdmitted am reader target of
             Inl err \<Rightarrow> Inl err
           | Inr admitted \<Rightarrow>
               if \<not> de_Allowed admitted then Inr (Some refusal_template)
               else if \<not> AllowsSourceNamespaceOverride provider then Inr (Some refusal_template)
               else Inr None))"

text \<open>The answer is an error, a refusal to publish for this item, or (\<open>None\<close>) permission to carry on.\<close>

definition overrideDelegated ::
  "apimachinery \<Rightarrow> Reader \<Rightarrow> GitTarget \<Rightarrow> nat \<Rightarrow> ResourceRule \<Rightarrow> 's itemGate
    \<Rightarrow> (string + SourceNamespaceDecision option) \<times> 's itemGate"
where
  "overrideDelegated am reader target index item g =
     (let asked = (if \<not> ig_delegationAsked g then
                     (case evaluateDelegation am reader target of
                        Inl err \<Rightarrow> Inl err
                      | Inr refusal \<Rightarrow> Inr (g\<lparr> ig_delegation := refusal, ig_delegationAsked := True \<rparr>))
                   else Inr g)
      in case asked of
           Inl err \<Rightarrow> (Inl err, g)
         | Inr g \<Rightarrow>
             (case ig_delegation g of
                None \<Rightarrow> (Inr None, g)
              | Some refusal \<Rightarrow>
                  (Inr (Some (refusal\<lparr> sd_Index := index, sd_Requested := rr_SourceNamespace item \<rparr>)), g)))"

definition evaluateCandidate ::
  "'s SourceNamespaceResolver option \<Rightarrow> WatchRule \<Rightarrow> GitTarget \<Rightarrow> ResourceRule \<Rightarrow> SourceNamespaceDecision
    \<Rightarrow> 's itemGate \<Rightarrow> SourceNamespaceDecision \<times> 's itemGate"
where
  "evaluateCandidate resolver rule target item base g =
     (let candidate = EffectiveSourceNamespace item (wr_Namespace rule);
          (verdict, st) = resolveWith resolver (ig_resolver g) target candidate
      in (case verdict of
            SourceScopeAdmitted \<Rightarrow>
              base\<lparr> sd_Namespaces := [candidate], sd_Verdict := SourceScopeAdmitted,
                    sd_Reason := ReasonSourceNamespaceAllowed \<rparr>
          | SourceScopeDenied \<Rightarrow>
              base\<lparr> sd_Verdict := SourceScopeDenied, sd_Reason := ReasonSourceNamespaceNotAllowed \<rparr>
          | SourceScopeUnavailable \<Rightarrow>
              base\<lparr> sd_Verdict := SourceScopeUnavailable,
                    sd_Reason := ReasonSourceNamespacePolicyUnavailable \<rparr>
          | SourceScopeUnknown \<Rightarrow>
              base\<lparr> sd_Verdict := SourceScopeUnknown,
                    sd_Reason := ReasonCheckingSourceNamespacePolicy \<rparr>,
          g\<lparr> ig_resolver := st \<rparr>))"

text \<open>The tail of \<open>expandWildcard\<close>, once the admitted names are known.\<close>

definition wildcard_admitted :: "string list \<Rightarrow> SourceNamespaceDecision \<Rightarrow> SourceNamespaceDecision" where
  "wildcard_admitted admitted base =
     (let namespaces = sortedUnique admitted in
      base\<lparr> sd_Namespaces := namespaces, sd_Verdict := SourceScopeAdmitted,
            sd_Reason := (if namespaces = [] then ReasonNoAdmittedSourceNamespaces
                          else ReasonSourceNamespaceAllowed) \<rparr>)"

definition policy_names :: "NamespaceMatcher option \<Rightarrow> string list" where
  "policy_names m = (case m of None \<Rightarrow> [] | Some m \<Rightarrow> nm_Names m)"

definition expandWildcard ::
  "'s SourceNamespaceResolver option \<Rightarrow> GitTarget \<Rightarrow> SourceNamespaceDecision
    \<Rightarrow> 's itemGate \<Rightarrow> SourceNamespaceDecision \<times> 's itemGate"
where
  "expandWildcard resolver target base g =
     (let policy = gt_AllowedSourceNamespaces target;
          admitted = policy_names policy
      in if HasSelector policy then
           (let ((selected, verdict), st) = enumerateWith resolver (ig_resolver g) target;
                g = g\<lparr> ig_resolver := st \<rparr>
            in case verdict of
                 SourceScopeAdmitted \<Rightarrow> (wildcard_admitted (admitted @ selected) base, g)
               | SourceScopeUnavailable \<Rightarrow>
                   (base\<lparr> sd_Verdict := SourceScopeUnavailable,
                          sd_Reason := ReasonSourceNamespacePolicyUnavailable \<rparr>, g)
               | SourceScopeDenied \<Rightarrow>
                   (base\<lparr> sd_Verdict := SourceScopeUnknown,
                          sd_Reason := ReasonCheckingSourceNamespacePolicy \<rparr>, g)
               | SourceScopeUnknown \<Rightarrow>
                   (base\<lparr> sd_Verdict := SourceScopeUnknown,
                          sd_Reason := ReasonCheckingSourceNamespacePolicy \<rparr>, g))
         else (wildcard_admitted admitted base, g))"

text \<open>Steps (3) and (4) of \<open>decide\<close>, after the delegation question: the target's policy.\<close>

definition decide_policy ::
  "apimachinery \<Rightarrow> 's SourceNamespaceResolver option \<Rightarrow> WatchRule \<Rightarrow> GitTarget \<Rightarrow> ResourceRule
    \<Rightarrow> SourceNamespaceDecision \<Rightarrow> 's itemGate \<Rightarrow> SourceNamespaceDecision \<times> 's itemGate"
where
  "decide_policy am resolver rule target item base g =
     (if \<not> DeclaresSourceNamespacePolicy target then
        (base\<lparr> sd_Verdict := SourceScopeDenied, sd_Reason := ReasonSourceNamespaceNotAllowed \<rparr>, g)
      else if ValidateNames am (gt_AllowedSourceNamespaces target) \<noteq> None then
        (base\<lparr> sd_Verdict := SourceScopeUnavailable,
               sd_Reason := ReasonSourceNamespacePolicyUnavailable \<rparr>, g)
      else if IsSourceNamespaceWildcard item then expandWildcard resolver target base g
      else evaluateCandidate resolver rule target item base g)"

definition decide ::
  "apimachinery \<Rightarrow> Reader \<Rightarrow> 's SourceNamespaceResolver option \<Rightarrow> WatchRule \<Rightarrow> GitTarget
    \<Rightarrow> nat \<Rightarrow> ResourceRule \<Rightarrow> 's itemGate \<Rightarrow> (string + SourceNamespaceDecision) \<times> 's itemGate"
where
  "decide am reader resolver rule target index item g =
     (let base = \<lparr> sd_Index = index, sd_Requested = rr_SourceNamespace item, sd_Namespaces = [],
                   sd_Verdict = SourceScopeUnknown, sd_Reason = [] \<rparr>;
          overrides = OverridesSourceNamespace item (wr_Namespace rule);
          policy = (\<lambda>g. case decide_policy am resolver rule target item base g of (d, g) \<Rightarrow> (Inr d, g))
      in if \<not> overrides \<and> \<not> DeclaresSourceNamespacePolicy target then
           (Inr (base\<lparr> sd_Namespaces := [EffectiveSourceNamespace item (wr_Namespace rule)],
                       sd_Verdict := SourceScopeAdmitted,
                       sd_Reason := ReasonLegacySourceNamespace \<rparr>), g)
         else if overrides then
           (case overrideDelegated am reader target index item g of
              (Inl err, g) \<Rightarrow> (Inl err, g)
            | (Inr (Some refusal), g) \<Rightarrow> (Inr refusal, g)
            | (Inr None, g) \<Rightarrow> policy g)
         else policy g)"

section \<open>A whole rule\<close>

definition firstWithVerdict ::
  "SourceNamespaceDecision list \<Rightarrow> SourceScopeVerdict \<Rightarrow> SourceNamespaceDecision option" where
  "firstWithVerdict items verdict = find (\<lambda>item. sd_Verdict item = verdict) items"

definition admittedAggregate :: "SourceNamespaceDecision list \<Rightarrow> string" where
  "admittedAggregate items =
     (let total = sum_list (map (\<lambda>item. length (sd_Namespaces item)) items);
          legacy = list_all (\<lambda>item. sd_Reason item = ReasonLegacySourceNamespace) items
      in if total = 0 then ReasonNoAdmittedSourceNamespaces
         else if legacy then ReasonLegacySourceNamespace
         else ReasonSourceNamespaceAllowed)"

fun worst_of ::
  "SourceNamespaceDecision list \<Rightarrow> SourceScopeVerdict list \<Rightarrow> SourceNamespaceDecision option" where
  "worst_of items [] = None"
| "worst_of items (v # vs) =
     (case firstWithVerdict items v of Some worst \<Rightarrow> Some worst | None \<Rightarrow> worst_of items vs)"

definition aggregateSourceScope :: "SourceNamespaceDecision list \<Rightarrow> ResolvedSourceScope" where
  "aggregateSourceScope items =
     (if items = [] then
        \<lparr> ss_Items = items, ss_Verdict = SourceScopeAdmitted, ss_Reason = ReasonLegacySourceNamespace \<rparr>
      else
        case worst_of items [SourceScopeDenied, SourceScopeUnavailable, SourceScopeUnknown] of
          Some worst \<Rightarrow>
            \<lparr> ss_Items = items, ss_Verdict = sd_Verdict worst, ss_Reason = sd_Reason worst \<rparr>
        | None \<Rightarrow>
            \<lparr> ss_Items = items, ss_Verdict = SourceScopeAdmitted,
              ss_Reason = admittedAggregate items \<rparr>)"

fun decide_items ::
  "apimachinery \<Rightarrow> Reader \<Rightarrow> 's SourceNamespaceResolver option \<Rightarrow> WatchRule \<Rightarrow> GitTarget
    \<Rightarrow> nat \<Rightarrow> ResourceRule list \<Rightarrow> 's itemGate
    \<Rightarrow> (string + SourceNamespaceDecision list) \<times> 's itemGate"
where
  "decide_items am reader resolver rule target i [] g = (Inr [], g)"
| "decide_items am reader resolver rule target i (item # items) g =
     (case decide am reader resolver rule target i item g of
        (Inl err, g) \<Rightarrow> (Inl err, g)
      | (Inr decision, g) \<Rightarrow>
          (case decide_items am reader resolver rule target (Suc i) items g of
             (Inl err, g) \<Rightarrow> (Inl err, g)
           | (Inr decisions, g) \<Rightarrow> (Inr (decision # decisions), g)))"

definition ResolveWatchRuleSourceScope ::
  "apimachinery \<Rightarrow> Reader \<Rightarrow> WatchRule \<Rightarrow> GitTarget \<Rightarrow> 's SourceNamespaceResolver option \<Rightarrow> 's
    \<Rightarrow> (string + ResolvedSourceScope) \<times> 's"
where
  "ResolveWatchRuleSourceScope am reader rule target resolver st =
     (let gate = \<lparr> ig_delegation = None, ig_delegationAsked = False, ig_resolver = st \<rparr> in
      case decide_items am reader resolver rule target 0 (wr_Rules rule) gate of
        (Inl err, g) \<Rightarrow> (Inl err, ig_resolver g)
      | (Inr items, g) \<Rightarrow> (Inr (aggregateSourceScope items), ig_resolver g))"

section \<open>What an item may watch\<close>

definition delegated :: "apimachinery \<Rightarrow> Reader \<Rightarrow> GitTarget \<Rightarrow> bool" where
  "delegated am reader target = (evaluateDelegation am reader target = Inr None)"

text \<open>
  The specification of the gate: the set of namespaces an item is entitled to. \<open>adm\<close> and \<open>sel\<close> say
  which namespaces the target's policy admits and which its selector selects in the source cluster.
\<close>

definition item_grant ::
  "apimachinery \<Rightarrow> Reader \<Rightarrow> (string \<Rightarrow> bool) \<Rightarrow> (string \<Rightarrow> bool) \<Rightarrow> WatchRule \<Rightarrow> GitTarget
    \<Rightarrow> ResourceRule \<Rightarrow> string set"
where
  "item_grant am reader adm sel rule target item =
     (let overrides = OverridesSourceNamespace item (wr_Namespace rule);
          policy = gt_AllowedSourceNamespaces target
      in if overrides \<and> \<not> delegated am reader target then {}
         else if \<not> Declared policy then (if overrides then {} else {wr_Namespace rule})
         else if IsSourceNamespaceWildcard item then
           {n. MatchesName policy n \<or> HasSelector policy \<and> sel n}
         else {n. n = EffectiveSourceNamespace item (wr_Namespace rule) \<and>
                  (MatchesName policy n \<or> HasSelector policy \<and> adm n)})"

subsection \<open>Helper facts\<close>

lemma set_sortedUnique: "set (sortedUnique xs) = set xs"
proof -
  have "set (fold (\<lambda>v out. if v \<in> set out then out else v # out) xs ys) = set xs \<union> set ys" for ys
    by (induction xs arbitrary: ys) auto
  then show ?thesis by (simp add: sortedUnique_def)
qed

lemma sorted_distinct_sortedUnique: "sorted (sortedUnique xs) \<and> distinct (sortedUnique xs)"
proof -
  have "distinct ys \<Longrightarrow> distinct (fold (\<lambda>v out. if v \<in> set out then out else v # out) xs ys)" for ys
    by (induction xs arbitrary: ys) auto
  then show ?thesis by (simp add: sortedUnique_def)
qed

lemma policy_names_iff: "n \<in> set (policy_names m) \<longleftrightarrow> MatchesName m n"
  by (cases m) (auto simp: policy_names_def matcher_simps)

lemma effective_own:
  "\<not> OverridesSourceNamespace item ns \<Longrightarrow> EffectiveSourceNamespace item ns = ns"
  by (simp add: OverridesSourceNamespace_def)

lemma delegation_denies:
  "evaluateDelegation am reader target = Inr (Some refusal) \<Longrightarrow> refusal = refusal_template"
  by (auto simp: evaluateDelegation_def split: sum.splits ReadError.splits if_splits)

text \<open>
  The memo of the provider verdict: once asked, it holds what asking again would give. So every item
  is answered as if the provider were read for it alone.
\<close>

definition gate_ok :: "apimachinery \<Rightarrow> Reader \<Rightarrow> GitTarget \<Rightarrow> 's itemGate \<Rightarrow> bool" where
  "gate_ok am reader target g \<longleftrightarrow>
     (ig_delegationAsked g \<longrightarrow> evaluateDelegation am reader target = Inr (ig_delegation g))"

lemma overrideDelegated_unmemoised:
  assumes "gate_ok am reader target g"
  shows "fst (overrideDelegated am reader target i item g) =
     (case evaluateDelegation am reader target of
        Inl err \<Rightarrow> Inl err
      | Inr None \<Rightarrow> Inr None
      | Inr (Some refusal) \<Rightarrow>
          Inr (Some (refusal\<lparr> sd_Index := i, sd_Requested := rr_SourceNamespace item \<rparr>)))"
  using assms
  by (auto simp: overrideDelegated_def gate_ok_def Let_def split: sum.splits option.splits)

lemma overrideDelegated_gate:
  assumes "gate_ok am reader target g"
  shows "gate_ok am reader target (snd (overrideDelegated am reader target i item g))"
    and "ig_resolver (snd (overrideDelegated am reader target i item g)) = ig_resolver g"
  using assms
  by (auto simp: overrideDelegated_def gate_ok_def Let_def split: sum.splits option.splits)

lemma gate_ok_resolver [simp]:
  "gate_ok am reader target (g\<lparr> ig_resolver := st \<rparr>) = gate_ok am reader target g"
  by (simp add: gate_ok_def)

section \<open>The resolver interface\<close>

text \<open>
  What an implementation of \<open>SourceNamespaceResolver\<close> promises: a definite answer is the truth
  about the source cluster, and asking changes no answer. \<open>admits s t n\<close> is whether the policy of \<open>t\<close>
  admits \<open>n\<close> in the source cluster as the resolver state \<open>s\<close> sees it, \<open>selects s t n\<close> whether \<open>n\<close> is one of
  the source cluster's namespaces matching the selector.
\<close>

locale source_resolver =
  fixes R :: "'s SourceNamespaceResolver"
    and admits :: "'s \<Rightarrow> GitTarget \<Rightarrow> string \<Rightarrow> bool"
    and selects :: "'s \<Rightarrow> GitTarget \<Rightarrow> string \<Rightarrow> bool"
  assumes resolve_admitted:
      "sr_ResolveSourceNamespace R s t n = (SourceScopeAdmitted, s') \<Longrightarrow> admits s t n"
    and resolve_denied:
      "sr_ResolveSourceNamespace R s t n = (SourceScopeDenied, s') \<Longrightarrow> \<not> admits s t n"
    and resolve_frame:
      "sr_ResolveSourceNamespace R s t n = (v, s') \<Longrightarrow> admits s' = admits s \<and> selects s' = selects s"
    and enumerate_admitted:
      "sr_EnumerateSourceNamespaces R s t = ((ns, SourceScopeAdmitted), s')
        \<Longrightarrow> set ns = {n. selects s t n}"
    and enumerate_frame:
      "sr_EnumerateSourceNamespaces R s t = (r, s') \<Longrightarrow> admits s' = admits s \<and> selects s' = selects s"
begin

text \<open>A decision is faithful to the grant of its item.\<close>

definition faithful ::
  "apimachinery \<Rightarrow> Reader \<Rightarrow> WatchRule \<Rightarrow> GitTarget \<Rightarrow> 's \<Rightarrow> ResourceRule \<Rightarrow> SourceNamespaceDecision \<Rightarrow> bool"
where
  "faithful am reader rule target st item d \<longleftrightarrow>
     (sd_Verdict d = SourceScopeAdmitted \<longrightarrow>
        set (sd_Namespaces d) = item_grant am reader (admits st target) (selects st target) rule target item) \<and>
     (sd_Verdict d = SourceScopeDenied \<longrightarrow>
        item_grant am reader (admits st target) (selects st target) rule target item = {}) \<and>
     (sd_Verdict d \<noteq> SourceScopeAdmitted \<longrightarrow> sd_Namespaces d = [])"

definition same_view :: "'s \<Rightarrow> 's \<Rightarrow> bool" where
  "same_view s s' \<longleftrightarrow> admits s' = admits s \<and> selects s' = selects s"

lemma same_view_refl [simp]: "same_view s s"
  by (simp add: same_view_def)

lemma same_view_trans: "same_view s s' \<Longrightarrow> same_view s' s'' \<Longrightarrow> same_view s s''"
  by (simp add: same_view_def)

lemma resolveWith_view:
  "resolver \<in> {None, Some R} \<Longrightarrow> resolveWith resolver s t n = (v, s') \<Longrightarrow> same_view s s'"
  by (auto simp: resolveWith_def same_view_def split: if_splits dest: resolve_frame)

lemma resolveWith_sound:
  assumes "resolver \<in> {None, Some R}" and "resolveWith resolver s t n = (v, s')"
  defines "p \<equiv> gt_AllowedSourceNamespaces t"
  shows "(v = SourceScopeAdmitted \<longrightarrow> MatchesName p n \<or> HasSelector p \<and> admits s t n) \<and>
         (v = SourceScopeDenied \<longrightarrow> \<not> (MatchesName p n \<or> HasSelector p \<and> admits s t n))"
  using assms
  by (auto simp: resolveWith_def split: if_splits dest: resolve_admitted resolve_denied)

lemma enumerateWith_sound:
  assumes "resolver \<in> {None, Some R}" and "enumerateWith resolver s t = ((ns, v), s')"
  shows "same_view s s' \<and> (v = SourceScopeAdmitted \<longrightarrow> set ns = {n. selects s t n})"
  using assms
  by (auto simp: enumerateWith_def same_view_def dest: enumerate_frame
      dest!: enumerate_admitted [THEN set_eq_iff [THEN iffD1]])

lemma expandWildcard_sound:
  assumes "resolver \<in> {None, Some R}" and "sd_Namespaces base = []"
    and "expandWildcard resolver target base g = (d, g')"
  shows "same_view (ig_resolver g) (ig_resolver g') \<and> (\<exists>st. g' = g\<lparr> ig_resolver := st \<rparr>) \<and>
    sd_Verdict d \<noteq> SourceScopeDenied \<and> (sd_Verdict d \<noteq> SourceScopeAdmitted \<longrightarrow> sd_Namespaces d = []) \<and>
    (sd_Verdict d = SourceScopeAdmitted \<longrightarrow> set (sd_Namespaces d) =
       {n. MatchesName (gt_AllowedSourceNamespaces target) n \<or>
           HasSelector (gt_AllowedSourceNamespaces target) \<and> selects (ig_resolver g) target n})"
proof (cases "HasSelector (gt_AllowedSourceNamespaces target)")
  case True
  obtain ns v st where e: "enumerateWith resolver (ig_resolver g) target = ((ns, v), st)"
    by (cases "enumerateWith resolver (ig_resolver g) target") (metis prod.exhaust_sel)
  note sound = enumerateWith_sound [OF assms(1) e]
  let ?g = "g\<lparr> ig_resolver := st \<rparr>" and ?a = "policy_names (gt_AllowedSourceNamespaces target) @ ns"
  consider (ok) "v = SourceScopeAdmitted" "d = wildcard_admitted ?a base" "g' = ?g"
    | (no) "sd_Verdict d \<in> {SourceScopeUnavailable, SourceScopeUnknown}" "sd_Namespaces d = []" "g' = ?g"
    using assms(2,3) by (cases v) (simp_all add: expandWildcard_def True e, auto)
  then show ?thesis
  proof cases
    case ok
    then have "set (sd_Namespaces d) = {n. MatchesName (gt_AllowedSourceNamespaces target) n \<or>
        HasSelector (gt_AllowedSourceNamespaces target) \<and> selects (ig_resolver g) target n}"
      "sd_Verdict d = SourceScopeAdmitted"
      using sound True by (simp_all add: wildcard_admitted_def Let_def set_sortedUnique policy_names_iff Un_def)
    moreover have "\<exists>st. g' = g\<lparr> ig_resolver := st \<rparr>" using ok(3) by (rule exI)
    ultimately show ?thesis using sound ok(3) by simp
  next
    case no
    then have "\<exists>st. g' = g\<lparr> ig_resolver := st \<rparr>" by (intro exI)
    with sound no show ?thesis by (cases "sd_Verdict d") simp_all
  qed
next
  case False
  then have d: "d = wildcard_admitted (policy_names (gt_AllowedSourceNamespaces target)) base" and g': "g' = g"
    using assms(3) by (simp_all add: expandWildcard_def)
  have "set (sd_Namespaces d) = {n. MatchesName (gt_AllowedSourceNamespaces target) n \<or>
      HasSelector (gt_AllowedSourceNamespaces target) \<and> selects (ig_resolver g) target n}"
    "sd_Verdict d = SourceScopeAdmitted"
    using False by (simp_all add: d wildcard_admitted_def Let_def set_sortedUnique policy_names_iff set_eq_iff)
  moreover have "\<exists>st. g' = g\<lparr> ig_resolver := st \<rparr>" by (rule exI [of _ "ig_resolver g"]) (simp add: g')
  ultimately show ?thesis by (simp add: g')
qed

lemma evaluateCandidate_sound:
  assumes "resolver \<in> {None, Some R}" and "sd_Namespaces base = []"
    and "evaluateCandidate resolver rule target item base g = (d, g')"
  defines "c \<equiv> EffectiveSourceNamespace item (wr_Namespace rule)"
    and "p \<equiv> gt_AllowedSourceNamespaces target"
  shows "same_view (ig_resolver g) (ig_resolver g') \<and> (\<exists>st. g' = g\<lparr> ig_resolver := st \<rparr>) \<and>
    (sd_Verdict d \<noteq> SourceScopeAdmitted \<longrightarrow> sd_Namespaces d = []) \<and>
    (sd_Verdict d = SourceScopeAdmitted \<longrightarrow> sd_Namespaces d = [c] \<and>
       (MatchesName p c \<or> HasSelector p \<and> admits (ig_resolver g) target c)) \<and>
    (sd_Verdict d = SourceScopeDenied \<longrightarrow>
       \<not> (MatchesName p c \<or> HasSelector p \<and> admits (ig_resolver g) target c))"
proof -
  obtain v st where r: "resolveWith resolver (ig_resolver g) target c = (v, st)"
    by (metis surj_pair)
  note resolveWith_view [OF assms(1) r] resolveWith_sound [OF assms(1) r]
  with assms(2,3) r show ?thesis
    by (cases v) (auto simp: evaluateCandidate_def Let_def c_def p_def)
qed

lemma decide_policy_sound:
  assumes "resolver \<in> {None, Some R}" and "sd_Namespaces base = []"
    and "decide_policy am resolver rule target item base g = (d, g')"
    and "OverridesSourceNamespace item (wr_Namespace rule) \<longrightarrow> delegated am reader target"
    and "OverridesSourceNamespace item (wr_Namespace rule) \<or> DeclaresSourceNamespacePolicy target"
  shows "faithful am reader rule target (ig_resolver g) item d \<and>
     same_view (ig_resolver g) (ig_resolver g') \<and> (\<exists>st. g' = g\<lparr> ig_resolver := st \<rparr>)"
proof -
  consider (undeclared) "\<not> DeclaresSourceNamespacePolicy target"
    | (invalid) "DeclaresSourceNamespacePolicy target"
        "ValidateNames am (gt_AllowedSourceNamespaces target) \<noteq> None"
    | (wild) "DeclaresSourceNamespacePolicy target" "IsSourceNamespaceWildcard item"
        "expandWildcard resolver target base g = (d, g')"
    | (named) "DeclaresSourceNamespacePolicy target" "\<not> IsSourceNamespaceWildcard item"
        "evaluateCandidate resolver rule target item base g = (d, g')"
    using assms(3) by (auto simp: decide_policy_def split: if_splits)
  then show ?thesis
  proof cases
    case undeclared
    with assms show ?thesis
      by (auto simp: decide_policy_def faithful_def item_grant_def DeclaresSourceNamespacePolicy_def
          intro: exI [of _ "ig_resolver g"])
  next
    case invalid
    with assms show ?thesis
      by (auto simp: decide_policy_def faithful_def intro: exI [of _ "ig_resolver g"])
  next
    case wild
    with expandWildcard_sound [OF assms(1,2) wild(3)] assms(4) show ?thesis
      by (auto simp: faithful_def item_grant_def DeclaresSourceNamespacePolicy_def Let_def)
  next
    case named
    with evaluateCandidate_sound [OF assms(1,2) named(3)] assms(4) show ?thesis
      by (auto simp: faithful_def item_grant_def DeclaresSourceNamespacePolicy_def Let_def)
  qed
qed

end

context source_resolver
begin

lemma faithful_view:
  "same_view s s' \<Longrightarrow> faithful am reader rule target s' item d = faithful am reader rule target s item d"
  by (simp add: faithful_def same_view_def)

lemma decide_sound:
  assumes r: "resolver \<in> {None, Some R}" and ok: "gate_ok am reader target g"
    and d: "decide am reader resolver rule target i item g = (Inr d, g')"
  shows "faithful am reader rule target (ig_resolver g) item d \<and>
     same_view (ig_resolver g) (ig_resolver g') \<and> gate_ok am reader target g'"
proof -
  let ?base = "\<lparr> sd_Index = i, sd_Requested = rr_SourceNamespace item, sd_Namespaces = [],
                 sd_Verdict = SourceScopeUnknown, sd_Reason = [] \<rparr>"
  let ?ov = "OverridesSourceNamespace item (wr_Namespace rule)"
  let ?deleg = "overrideDelegated am reader target i item g"
  consider (legacy) "\<not> ?ov" "\<not> DeclaresSourceNamespacePolicy target"
    | (refused) refusal where "?ov" "?deleg = (Inr (Some refusal), g')" "d = refusal"
    | (delegated) g1 where "?ov" "?deleg = (Inr None, g1)"
        "decide_policy am resolver rule target item ?base g1 = (d, g')"
    | (own) "\<not> ?ov" "DeclaresSourceNamespacePolicy target"
        "decide_policy am resolver rule target item ?base g = (d, g')"
    using d by (auto simp: decide_def Let_def split: if_splits sum.splits option.splits prod.splits)
  then show ?thesis
  proof cases
    case legacy
    with d ok show ?thesis
      by (auto simp: decide_def faithful_def item_grant_def DeclaresSourceNamespacePolicy_def
          effective_own)
  next
    case refused
    with overrideDelegated_unmemoised [OF ok, of i item] overrideDelegated_gate [OF ok, of i item]
    show ?thesis
      by (auto simp: faithful_def item_grant_def delegated_def refusal_template_def
          split: sum.splits option.splits dest!: delegation_denies)
  next
    case delegated
    then have "Source_Authz.delegated am reader target"
      using overrideDelegated_unmemoised [OF ok, of i item]
      by (auto simp: delegated_def split: sum.splits option.splits)
    moreover have "gate_ok am reader target g1" "ig_resolver g1 = ig_resolver g"
      using overrideDelegated_gate [OF ok, of i item] delegated by auto
    ultimately show ?thesis
      using decide_policy_sound [OF r _ delegated(3), of reader] delegated(1) by auto
  next
    case own
    then show ?thesis
      using decide_policy_sound [OF r _ own(3), of reader] ok by auto
  qed
qed

lemma decide_items_sound:
  assumes "resolver \<in> {None, Some R}" and "gate_ok am reader target g"
    and "decide_items am reader resolver rule target i items g = (Inr ds, g')"
  shows "list_all2 (faithful am reader rule target (ig_resolver g)) items ds \<and>
     same_view (ig_resolver g) (ig_resolver g')"
  using assms
proof (induction items arbitrary: i g ds)
  case (Cons item items)
  from Cons.prems(3) obtain d g1 ds1 where
    d: "decide am reader resolver rule target i item g = (Inr d, g1)" and
    rest: "decide_items am reader resolver rule target (Suc i) items g1 = (Inr ds1, g')" and
    ds: "ds = d # ds1"
    by (auto split: prod.splits sum.splits)
  note s1 = decide_sound [OF Cons.prems(1,2) d]
  note s2 = Cons.IH [OF Cons.prems(1) _ rest]
  have "faithful am reader rule target (ig_resolver g1) = faithful am reader rule target (ig_resolver g)"
    using s1 by (intro ext faithful_view) blast
  with s1 s2 ds show ?case by (auto intro: same_view_trans)
qed simp

lemma decide_items_length:
  "decide_items am reader resolver rule target i items g = (Inr ds, g') \<Longrightarrow> length ds = length items"
  by (induction items arbitrary: i g ds) (auto split: prod.splits sum.splits)

text \<open>The verdict on a whole rule is faithful to the grants of its items.\<close>

lemma resolve_scope_items:
  assumes "resolver \<in> {None, Some R}"
    and "ResolveWatchRuleSourceScope am reader rule target resolver st = (Inr s, st')"
  shows "list_all2 (faithful am reader rule target st) (wr_Rules rule) (ss_Items s) \<and>
     s = aggregateSourceScope (ss_Items s) \<and> same_view st st'"
proof -
  let ?g = "\<lparr> ig_delegation = None, ig_delegationAsked = False, ig_resolver = st \<rparr>"
  from assms(2) obtain ds g where
    ds: "decide_items am reader resolver rule target 0 (wr_Rules rule) ?g = (Inr ds, g)" and
    s: "s = aggregateSourceScope ds" "st' = ig_resolver g"
    by (auto simp: ResolveWatchRuleSourceScope_def split: prod.splits sum.splits)
  have "ss_Items s = ds" by (simp add: s(1) aggregateSourceScope_def split: option.splits)
  with decide_items_sound [OF assms(1) _ ds] s show ?thesis by (simp add: gate_ok_def)
qed

end

section \<open>The aggregate\<close>

text \<open>
  The precedence of the aggregate verdict: denied when any item is, else unavailable when any item
  is, else unknown when any item is, else admitted.
\<close>

lemma aggregate_verdict:
  "ss_Verdict (aggregateSourceScope items) =
     (if SourceScopeDenied \<in> sd_Verdict ` set items then SourceScopeDenied
      else if SourceScopeUnavailable \<in> sd_Verdict ` set items then SourceScopeUnavailable
      else if SourceScopeUnknown \<in> sd_Verdict ` set items then SourceScopeUnknown
      else SourceScopeAdmitted)"
proof -
  have found: "firstWithVerdict items v = Some w \<Longrightarrow> sd_Verdict w = v \<and> v \<in> sd_Verdict ` set items"
    for v w by (auto simp: firstWithVerdict_def dest!: find_SomeD)
  have absent: "firstWithVerdict items v = None \<longleftrightarrow> v \<notin> sd_Verdict ` set items" for v
    by (auto simp: firstWithVerdict_def find_None_iff)
  show ?thesis
  proof (cases "items = []")
    case False
    then show ?thesis
      by (cases "firstWithVerdict items SourceScopeDenied";
          cases "firstWithVerdict items SourceScopeUnavailable";
          cases "firstWithVerdict items SourceScopeUnknown")
        (simp_all add: aggregateSourceScope_def found absent [THEN iffD1])
  qed (simp add: aggregateSourceScope_def)
qed

lemma ss_Items_aggregate [simp]: "ss_Items (aggregateSourceScope items) = items"
  by (simp add: aggregateSourceScope_def split: option.splits)

lemma aggregate_admitted:
  assumes "ss_Verdict (aggregateSourceScope items) = SourceScopeAdmitted" and "d \<in> set items"
  shows "sd_Verdict d = SourceScopeAdmitted"
proof (cases "sd_Verdict d")
  case SourceScopeAdmitted
  then show ?thesis .
qed (use assms imageI [OF assms(2), of sd_Verdict] in
    \<open>auto simp: aggregate_verdict split: if_splits\<close>)

lemma aggregate_denied:
  "ss_Verdict (aggregateSourceScope items) = SourceScopeDenied \<Longrightarrow>
     \<exists>d \<in> set items. sd_Verdict d = SourceScopeDenied"
  by (simp add: aggregate_verdict image_iff split: if_splits) metis

section \<open>When the gate cannot decide\<close>

lemma expandWildcard_gate:
  "expandWildcard resolver target base g = (d, g') \<Longrightarrow> \<exists>st. g' = g\<lparr> ig_resolver := st \<rparr>"
  by (auto simp: expandWildcard_def Let_def split: if_splits prod.splits SourceScopeVerdict.splits
      intro: exI [of _ "ig_resolver g"])

lemma decide_policy_gate:
  "decide_policy am resolver rule target item base g = (d, g') \<Longrightarrow> \<exists>st. g' = g\<lparr> ig_resolver := st \<rparr>"
  by (auto simp: decide_policy_def evaluateCandidate_def Let_def
      split: if_splits prod.splits dest: expandWildcard_gate intro: exI [of _ "ig_resolver g"])

lemma decide_gate:
  assumes ok: "gate_ok am reader target g"
    and "decide am reader resolver rule target i item g = (r, g')"
  shows "gate_ok am reader target g' \<and>
     (\<forall>err. r = Inl err \<longleftrightarrow> OverridesSourceNamespace item (wr_Namespace rule) \<and>
                           evaluateDelegation am reader target = Inl err)"
proof -
  have m: "fst (overrideDelegated am reader target i item g) =
     (case evaluateDelegation am reader target of
        Inl err \<Rightarrow> Inl err
      | Inr None \<Rightarrow> Inr None
      | Inr (Some refusal) \<Rightarrow>
          Inr (Some (refusal\<lparr> sd_Index := i, sd_Requested := rr_SourceNamespace item \<rparr>)))"
    by (rule overrideDelegated_unmemoised [OF ok])
  obtain q g1 where o: "overrideDelegated am reader target i item g = (q, g1)" by fastforce
  have g1: "gate_ok am reader target g1" using overrideDelegated_gate(1) [OF ok, of i item] o by simp
  show ?thesis
    using assms(2) m o g1 ok
    by (auto simp: decide_def Let_def split: if_splits prod.splits sum.splits option.splits
        dest!: decide_policy_gate)
qed

lemma decide_items_error:
  assumes "gate_ok am reader target g"
  shows "fst (decide_items am reader resolver rule target i items g) = Inl err \<longleftrightarrow>
     (\<exists>item \<in> set items. OverridesSourceNamespace item (wr_Namespace rule)) \<and>
     evaluateDelegation am reader target = Inl err"
  using assms
proof (induction items arbitrary: i g)
  case (Cons item items)
  obtain r g1 where d: "decide am reader resolver rule target i item g = (r, g1)" by fastforce
  note dg = decide_gate [OF Cons.prems d]
  show ?case
  proof (cases r)
    case (Inl e)
    with d dg show ?thesis by auto
  next
    case (Inr d1)
    obtain q g2 where rest: "decide_items am reader resolver rule target (Suc i) items g1 = (q, g2)"
      by fastforce
    note ih = Cons.IH [of g1 "Suc i"]
    from Inr dg have "\<not> (OverridesSourceNamespace item (wr_Namespace rule) \<and>
        evaluateDelegation am reader target = Inl err)" by auto
    with ih dg rest d Inr show ?thesis by (auto split: sum.splits)
  qed
qed simp

text \<open>
  the only failures of the source-namespace gate. It returns an error (and the caller requeues)
  exactly when some item asks for a namespace other than the rule's own and the provider-side
  question could not be read; a rule that stays in its own namespace is decided without any read.
\<close>

theorem gate_error_iff:
  "fst (ResolveWatchRuleSourceScope am reader rule target resolver st) = Inl err \<longleftrightarrow>
     (\<exists>item \<in> set (wr_Rules rule). OverridesSourceNamespace item (wr_Namespace rule)) \<and>
     evaluateDelegation am reader target = Inl err"
proof -
  let ?g = "\<lparr> ig_delegation = None, ig_delegationAsked = False, ig_resolver = st \<rparr>"
  have "gate_ok am reader target ?g" by (simp add: gate_ok_def)
  from decide_items_error [OF this, of resolver rule 0 "wr_Rules rule" err] show ?thesis
    by (auto simp: ResolveWatchRuleSourceScope_def split: prod.splits sum.splits)
qed

section \<open>The fingerprint\<close>

lemma Join_chars: "c \<in> set (Join sep ps) \<Longrightarrow> c \<in> set sep \<or> (\<exists>p \<in> set ps. c \<in> set p)"
  by (induction sep ps rule: Join.induct) auto

definition plain_names :: "string list \<Rightarrow> bool" where
  "plain_names ns = list_all (\<lambda>n. n \<noteq> [] \<and> CHR '','' \<notin> set n \<and> CHR '';'' \<notin> set n) ns"

lemma Join_comma_inject:
  assumes "plain_names xs" and "plain_names ys"
  shows "Join '','' xs = Join '','' ys \<longleftrightarrow> xs = ys"
proof (cases "xs = [] \<or> ys = []")
  case True
  with assms Join_eq_Nil [of "CHR '',''" xs] Join_eq_Nil [of "CHR '',''" ys] show ?thesis
    by (auto simp: plain_names_def)
next
  case False
  with assms show ?thesis
    by (intro Join_inject) (auto simp: plain_names_def list_all_iff)
qed

lemma fingerprint_part_inject:
  assumes "plain_names (sd_Namespaces a)" and "plain_names (sd_Namespaces b)"
    and "sd_Index a = sd_Index b"
  shows "Itoa (sd_Index a) @ ''='' @ Join '','' (sd_Namespaces a) =
         Itoa (sd_Index b) @ ''='' @ Join '','' (sd_Namespaces b) \<longleftrightarrow>
         sd_Namespaces a = sd_Namespaces b"
  using Join_comma_inject [OF assms(1,2)] assms(3) by simp

lemma fingerprint_part_no_semicolon:
  assumes "plain_names (sd_Namespaces d)"
  shows "CHR '';'' \<notin> set (Itoa (sd_Index d) @ ''='' @ Join '','' (sd_Namespaces d))"
  using assms Itoa_no_char [of "CHR '';''" "sd_Index d"] Join_chars [of "CHR '';''" "'',''"]
  by (auto simp: plain_names_def list_all_iff)

text \<open>
  the fingerprint of a resolved scope changes whenever the resolved namespaces do. For two
  scopes of the same items (index by index) whose namespace names are non-empty and free of the
  two separators, equal fingerprints mean equal namespace lists in every item.
\<close>

theorem Fingerprint_faithful:
  assumes "map sd_Index (ss_Items a) = map sd_Index (ss_Items b)"
    and "list_all (\<lambda>d. plain_names (sd_Namespaces d)) (ss_Items a @ ss_Items b)"
  shows "Fingerprint a = Fingerprint b \<longleftrightarrow> map sd_Namespaces (ss_Items a) = map sd_Namespaces (ss_Items b)"
proof -
  let ?part = "\<lambda>d. Itoa (sd_Index d) @ ''='' @ Join '','' (sd_Namespaces d)"
  have len: "length (ss_Items a) = length (ss_Items b)" using assms(1) map_eq_imp_length_eq by blast
  have sep: "\<forall>p \<in> set (map ?part (ss_Items s)). CHR '';'' \<notin> set p" if "s = a \<or> s = b" for s
    using assms(2) that fingerprint_part_no_semicolon by (auto simp: list_all_iff)
  have "map ?part (ss_Items a) = map ?part (ss_Items b) \<longleftrightarrow>
      map sd_Namespaces (ss_Items a) = map sd_Namespaces (ss_Items b)"
  proof -
    have "?part (ss_Items a ! j) = ?part (ss_Items b ! j) \<longleftrightarrow>
        sd_Namespaces (ss_Items a ! j) = sd_Namespaces (ss_Items b ! j)" if "j < length (ss_Items a)" for j
    proof (rule fingerprint_part_inject)
      show "sd_Index (ss_Items a ! j) = sd_Index (ss_Items b ! j)"
        using assms(1) that len by (metis nth_map)
    qed (use assms(2) that len in \<open>auto simp: list_all_iff\<close>)
    with len show ?thesis by (auto simp: list_eq_iff_nth_eq)
  qed
  moreover have "Fingerprint a = Fingerprint b \<longleftrightarrow>
      map ?part (ss_Items a) = map ?part (ss_Items b)"
  proof (cases "ss_Items a = []")
    case False
    with len sep show ?thesis
      unfolding Fingerprint_def by (intro Join_inject) auto
  qed (use len in \<open>simp add: Fingerprint_def\<close>)
  ultimately show ?thesis by simp
qed

definition wild_decision :: "string list \<Rightarrow> SourceNamespaceDecision" where
  "wild_decision ns =
     \<lparr> sd_Index = 0, sd_Requested = ''*'', sd_Namespaces = ns, sd_Verdict = SourceScopeAdmitted,
       sd_Reason = ReasonSourceNamespaceAllowed \<rparr>"

section \<open>What a resolver leaves alone\<close>

text \<open>A property of the resolver's state that its two operations keep is kept by the whole gate.\<close>

locale resolver_frame =
  fixes R :: "'s SourceNamespaceResolver"
    and keeps :: "'s \<Rightarrow> bool"
  assumes resolve_keeps: "keeps s \<Longrightarrow> keeps (snd (sr_ResolveSourceNamespace R s t n))"
    and enumerate_keeps: "keeps s \<Longrightarrow> keeps (snd (sr_EnumerateSourceNamespaces R s t))"
begin

lemma decide_policy_keeps:
  assumes "resolver \<in> {None, Some R}" and "keeps (ig_resolver g)"
  shows "keeps (ig_resolver (snd (decide_policy am resolver rule target item base g)))"
proof -
  have r: "keeps (snd (resolveWith resolver (ig_resolver g) target n))" for n
    using assms by (auto simp: resolveWith_def intro: resolve_keeps)
  have e: "keeps (snd (enumerateWith resolver (ig_resolver g) target))"
    using assms by (auto simp: enumerateWith_def intro: enumerate_keeps)
  have "keeps (ig_resolver (snd (evaluateCandidate resolver rule target item base g)))"
    using r [of "EffectiveSourceNamespace item (wr_Namespace rule)"]
    by (auto simp: evaluateCandidate_def Let_def split: prod.splits)
  moreover have "keeps (ig_resolver (snd (expandWildcard resolver target base g)))"
    using e assms(2)
    by (auto simp: expandWildcard_def Let_def split: prod.splits SourceScopeVerdict.splits)
  ultimately show ?thesis using assms(2) by (simp add: decide_policy_def)
qed

lemma overrideDelegated_resolver:
  "ig_resolver (snd (overrideDelegated am reader target i item g)) = ig_resolver g"
  by (auto simp: overrideDelegated_def Let_def split: sum.splits option.splits)

lemma decide_keeps:
  assumes "resolver \<in> {None, Some R}" and "keeps (ig_resolver g)"
  shows "keeps (ig_resolver (snd (decide am reader resolver rule target i item g)))"
proof -
  obtain q g1 where o: "overrideDelegated am reader target i item g = (q, g1)" by fastforce
  then have "keeps (ig_resolver g1)" using overrideDelegated_resolver [of am reader target i item g] assms(2) by simp
  with o assms show ?thesis
    using decide_policy_keeps [OF assms(1)]
    by (auto simp: decide_def Let_def split: sum.splits option.splits prod.splits) (metis snd_conv)+
qed

lemma decide_items_keeps:
  assumes "resolver \<in> {None, Some R}" and "keeps (ig_resolver g)"
  shows "keeps (ig_resolver (snd (decide_items am reader resolver rule target i items g)))"
  using assms(2)
proof (induction items arbitrary: i g)
  case (Cons item items)
  obtain r g1 where d: "decide am reader resolver rule target i item g = (r, g1)" by fastforce
  have "keeps (ig_resolver g1)"
    using decide_keeps [OF assms(1) Cons.prems, of am reader rule target i item] d by simp
  from Cons.IH [OF this, of "Suc i"] this d show ?case
    by (auto split: sum.splits prod.splits)
qed simp

lemma gate_keeps:
  assumes "resolver \<in> {None, Some R}" and "keeps st"
  shows "keeps (snd (ResolveWatchRuleSourceScope am reader rule target resolver st))"
  using decide_items_keeps [OF assms(1), of "\<lparr> ig_delegation = None, ig_delegationAsked = False, ig_resolver = st \<rparr>"]
    assms(2)
  by (auto simp: ResolveWatchRuleSourceScope_def split: prod.splits sum.splits) (metis snd_conv)+

end

end
