(* ===== verification/Source_Scope.thy ===== *)
theory Source_Scope
  imports Source_Authz Resource_Identity
begin

text \<open>
  The source-scope service of the watch manager (src/internal/watch/source_namespace_scope.go) and the
  capture of each GitTarget's source cluster (src/internal/watch/cluster_context.go): per-cluster
  snapshots of Namespace labels, the three-valued answers computed from them, the memory of granted
  scopes, the refresh of the snapshots and the notification of affected GitTargets.

  \<open>Manager\<close> holds the fields of the watch manager that these functions use. A channel is the list of
  what it buffers, \<open>None\<close> while it is nil; the result of listing a cluster's Namespaces is an argument.
  The refresh lists the clusters concurrently; each goroutine reads and writes the entry of its own
  cluster only, so the model runs them one after the other.
\<close>

section \<open>State\<close>

record namespaceSnapshot =
  sn_labels :: "(string, labels) gomap"
  sn_synced :: bool
  sn_forbidden :: bool
  sn_err :: "string option"

definition zero_snapshot :: namespaceSnapshot where
  "zero_snapshot = \<lparr> sn_labels = [], sn_synced = False, sn_forbidden = False, sn_err = None \<rparr>"

record sourceScopeGrant =
  sg_specHash :: string
  sg_namespaces :: "string list list"

record sourceNamespaceScope =
  sc_wanted :: "(string, unit) gomap"
  sc_snapshots :: "(string, namespaceSnapshot) gomap"
  sc_grants :: "(NamespacedName, sourceScopeGrant) gomap"

text \<open>\<open>sm_catalogRefreshCh\<close> has capacity one: the flag says whether a signal is pending.\<close>

record Manager =
  sm_scope :: sourceNamespaceScope
  sm_catalogRefreshCh :: "bool option"
  sm_sourceNamespaceEventsCh :: "ResourceReference list option"
  sm_gitTargetClusters :: "(string, string) gomap"
  sm_clusterAuditRoutes :: "(string, string) gomap"

definition sourceScope0 :: sourceNamespaceScope where
  "sourceScope0 = \<lparr> sc_wanted = [], sc_snapshots = [], sc_grants = [] \<rparr>"

definition sourceNamespaceEventsBuffer :: nat where
  "sourceNamespaceEventsBuffer = 256"

definition sourceScopeClusterID :: "GitTarget \<Rightarrow> string" where
  "sourceScopeClusterID target = SourceCluster target"

definition want :: "sourceNamespaceScope \<Rightarrow> string \<Rightarrow> sourceNamespaceScope" where
  "want s clusterID = s\<lparr> sc_wanted := map_put clusterID () (sc_wanted s) \<rparr>"

definition snapshot :: "sourceNamespaceScope \<Rightarrow> string \<Rightarrow> namespaceSnapshot option" where
  "snapshot s clusterID = map_get (sc_snapshots s) clusterID"

definition wantedClusters :: "sourceNamespaceScope \<Rightarrow> string list" where
  "wantedClusters s = map fst (sc_wanted s)"

definition signalCatalogRefresh :: "Manager \<Rightarrow> Manager" where
  "signalCatalogRefresh m =
     (case sm_catalogRefreshCh m of
        None \<Rightarrow> m
      | Some pending \<Rightarrow> m\<lparr> sm_catalogRefreshCh := Some True \<rparr>)"

section \<open>Resolution\<close>

definition unusableSnapshot ::
  "Manager \<Rightarrow> namespaceSnapshot option \<Rightarrow> SourceScopeVerdict option \<times> Manager" where
  "unusableSnapshot m snap =
     (case snap of
        None \<Rightarrow> (Some SourceScopeUnknown, signalCatalogRefresh m)
      | Some sn \<Rightarrow>
          if sn_forbidden sn then (Some SourceScopeUnavailable, m)
          else if \<not> sn_synced sn then (Some SourceScopeUnknown, signalCatalogRefresh m)
          else (None, m))"

definition ResolveSourceNamespace ::
  "apimachinery \<Rightarrow> Manager \<Rightarrow> GitTarget \<Rightarrow> string \<Rightarrow> SourceScopeVerdict \<times> Manager" where
  "ResolveSourceNamespace am m target namespace =
     (let clusterID = sourceScopeClusterID target;
          m = m\<lparr> sm_scope := want (sm_scope m) clusterID \<rparr>;
          snap = snapshot (sm_scope m) clusterID
      in case unusableSnapshot m snap of
           (Some result, m) \<Rightarrow> (result, m)
         | (None, m) \<Rightarrow>
             (let known = (case snap of None \<Rightarrow> None | Some sn \<Rightarrow> map_get (sn_labels sn) namespace);
                  lbls = (case known of None \<Rightarrow> [] | Some ls \<Rightarrow> ls)
              in case AllowsSourceNamespace am target namespace lbls of
                   Inl err \<Rightarrow> (SourceScopeUnavailable, m)
                 | Inr allowed \<Rightarrow>
                     if \<not> allowed then (SourceScopeDenied, m) else (SourceScopeAdmitted, m)))"

text \<open>The loop of \<open>EnumerateSourceNamespaces\<close>: the first selector error ends it.\<close>

fun selected_names ::
  "apimachinery \<Rightarrow> NamespaceMatcher option \<Rightarrow> (string, labels) gomap \<Rightarrow> string + string list" where
  "selected_names am policy [] = Inr []"
| "selected_names am policy ((name, nsLabels) # rest) =
     (case SelectorAdmits am policy nsLabels of
        Inl err \<Rightarrow> Inl err
      | Inr admitted \<Rightarrow>
          (case selected_names am policy rest of
             Inl err \<Rightarrow> Inl err
           | Inr names \<Rightarrow> Inr (if admitted then name # names else names)))"

definition EnumerateSourceNamespaces ::
  "apimachinery \<Rightarrow> Manager \<Rightarrow> GitTarget \<Rightarrow> (string list \<times> SourceScopeVerdict) \<times> Manager" where
  "EnumerateSourceNamespaces am m target =
     (let clusterID = sourceScopeClusterID target;
          m = m\<lparr> sm_scope := want (sm_scope m) clusterID \<rparr>;
          snap = snapshot (sm_scope m) clusterID
      in case unusableSnapshot m snap of
           (Some result, m) \<Rightarrow> (([], result), m)
         | (None, m) \<Rightarrow>
             (case selected_names am (gt_AllowedSourceNamespaces target)
                     (case snap of None \<Rightarrow> [] | Some sn \<Rightarrow> sn_labels sn) of
                Inl err \<Rightarrow> (([], SourceScopeUnavailable), m)
              | Inr names \<Rightarrow> ((sort names, SourceScopeAdmitted), m)))"

definition scope_resolver :: "apimachinery \<Rightarrow> Manager SourceNamespaceResolver" where
  "scope_resolver am =
     \<lparr> sr_ResolveSourceNamespace = ResolveSourceNamespace am,
       sr_EnumerateSourceNamespaces = EnumerateSourceNamespaces am \<rparr>"

section \<open>Granted scopes\<close>

definition RetainedSourceScope ::
  "Manager \<Rightarrow> NamespacedName \<Rightarrow> string \<Rightarrow> string list list option" where
  "RetainedSourceScope m rule specHash =
     (case map_get (sc_grants (sm_scope m)) rule of
        None \<Rightarrow> None
      | Some grant \<Rightarrow> if sg_specHash grant \<noteq> specHash then None else Some (sg_namespaces grant))"

definition RecordSourceScopeGrant ::
  "Manager \<Rightarrow> NamespacedName \<Rightarrow> string \<Rightarrow> string list list \<Rightarrow> Manager" where
  "RecordSourceScopeGrant m rule specHash namespaces =
     m\<lparr> sm_scope := (sm_scope m)\<lparr> sc_grants :=
          map_put rule \<lparr> sg_specHash = specHash, sg_namespaces = namespaces \<rparr> (sc_grants (sm_scope m)) \<rparr> \<rparr>"

definition ForgetSourceScopeGrant :: "Manager \<Rightarrow> NamespacedName \<Rightarrow> Manager" where
  "ForgetSourceScopeGrant m rule =
     m\<lparr> sm_scope := (sm_scope m)\<lparr> sc_grants := map_del rule (sc_grants (sm_scope m)) \<rparr> \<rparr>"

definition SourceScopeSpecHash :: "WatchRule \<Rightarrow> string" where
  "SourceScopeSpecHash rule =
     Join [CHR 0x00]
       ((''own='' @ wr_Namespace rule) #
        map (\<lambda>(i, r). Itoa i @ ''='' @ rr_SourceNamespace r) (enumerate 0 (wr_Rules rule)))"

section \<open>Refreshing the snapshots\<close>

definition maps_Equal :: "('k, 'v) gomap \<Rightarrow> ('k, 'v) gomap \<Rightarrow> bool" where
  "maps_Equal a b = (length a = length b \<and> list_all (\<lambda>(k, v). map_get b k = Some v) a)"

definition labelSetsEqual :: "(string, labels) gomap \<Rightarrow> (string, labels) gomap \<Rightarrow> bool" where
  "labelSetsEqual a b =
     (if length a \<noteq> length b then False
      else list_all (\<lambda>(name, aLabels).
             case map_get b name of None \<Rightarrow> False | Some bLabels \<Rightarrow> maps_Equal aLabels bLabels) a)"

definition store ::
  "sourceNamespaceScope \<Rightarrow> string \<Rightarrow> namespaceSnapshot \<Rightarrow> bool \<times> sourceNamespaceScope" where
  "store s clusterID nxt =
     (let s' = s\<lparr> sc_snapshots := map_put clusterID nxt (sc_snapshots s) \<rparr> in
      case map_get (sc_snapshots s) clusterID of
        None \<Rightarrow> (True, s')
      | Some previous \<Rightarrow>
          if sn_synced previous \<noteq> sn_synced nxt \<or> sn_forbidden previous \<noteq> sn_forbidden nxt then (True, s')
          else if \<not> sn_synced nxt then (False, s')
          else (\<not> labelSetsEqual (sn_labels previous) (sn_labels nxt), s'))"

text \<open>What asking the source cluster for its Namespaces can give.\<close>

datatype ListResult =
    ClientFailed string
  | ListForbidden string
  | ListFailed string
  | Listed "(string \<times> labels) list"

definition retainOnRetryableError :: "namespaceSnapshot \<Rightarrow> string \<Rightarrow> namespaceSnapshot" where
  "retainOnRetryableError previous err =
     \<lparr> sn_labels = sn_labels previous, sn_synced = sn_synced previous, sn_forbidden = False,
       sn_err = Some err \<rparr>"

definition listSourceNamespaces ::
  "(string \<Rightarrow> ListResult) \<Rightarrow> sourceNamespaceScope \<Rightarrow> string \<Rightarrow> namespaceSnapshot" where
  "listSourceNamespaces listing s clusterID =
     (let previous = (case snapshot s clusterID of None \<Rightarrow> zero_snapshot | Some sn \<Rightarrow> sn) in
      case listing clusterID of
        ClientFailed err \<Rightarrow> retainOnRetryableError previous err
      | ListForbidden err \<Rightarrow>
          \<lparr> sn_labels = [], sn_synced = False, sn_forbidden = True, sn_err = Some err \<rparr>
      | ListFailed err \<Rightarrow> retainOnRetryableError previous err
      | Listed items \<Rightarrow>
          \<lparr> sn_labels = fold (\<lambda>item. map_put (fst item) (snd item)) items [], sn_synced = True,
            sn_forbidden = False, sn_err = None \<rparr>)"

text \<open>\<open>strings.Cut\<close> at the first separator: the part before it and the part after it.\<close>

definition cut :: "char \<Rightarrow> string \<Rightarrow> string \<times> string" where
  "cut sep s = (takeWhile (\<lambda>c. c \<noteq> sep) s, tl (dropWhile (\<lambda>c. c \<noteq> sep) s))"

definition resourceReferenceFromKey :: "string \<Rightarrow> ResourceReference" where
  "resourceReferenceFromKey key =
     (case cut CHR ''/'' key of (namespace, name) \<Rightarrow> NewResourceReference name namespace)"

definition SourceNamespaceEvents :: "Manager \<Rightarrow> Manager" where
  "SourceNamespaceEvents m =
     (case sm_sourceNamespaceEventsCh m of
        None \<Rightarrow> m\<lparr> sm_sourceNamespaceEventsCh := Some [] \<rparr>
      | Some ch \<Rightarrow> m)"

text \<open>A non-blocking send: a full buffer drops the event.\<close>

definition try_send :: "nat \<Rightarrow> 'a \<Rightarrow> 'a list \<Rightarrow> 'a list" where
  "try_send capacity evt ch = (if length ch < capacity then ch @ [evt] else ch)"

definition enqueueSourceNamespaceChange :: "Manager \<Rightarrow> string \<Rightarrow> Manager" where
  "enqueueSourceNamespaceChange m clusterID =
     (case sm_sourceNamespaceEventsCh m of
        None \<Rightarrow> m
      | Some ch \<Rightarrow>
          (let affected = map (\<lambda>(key, cid). resourceReferenceFromKey key)
                            (filter (\<lambda>(key, cid). cid = clusterID) (sm_gitTargetClusters m))
           in m\<lparr> sm_sourceNamespaceEventsCh :=
                  Some (fold (try_send sourceNamespaceEventsBuffer) affected ch) \<rparr>))"

definition refresh_one :: "(string \<Rightarrow> ListResult) \<Rightarrow> string \<Rightarrow> Manager \<Rightarrow> Manager" where
  "refresh_one listing clusterID m =
     (let nxt = listSourceNamespaces listing (sm_scope m) clusterID in
      case store (sm_scope m) clusterID nxt of
        (changed, s) \<Rightarrow>
          (let m = m\<lparr> sm_scope := s \<rparr> in
           if changed then enqueueSourceNamespaceChange m clusterID else m))"

definition refreshSourceNamespaceScopes :: "(string \<Rightarrow> ListResult) \<Rightarrow> Manager \<Rightarrow> Manager" where
  "refreshSourceNamespaceScopes listing m =
     (let clusters = wantedClusters (sm_scope m) in
      if clusters = [] then m else fold (refresh_one listing) clusters m)"

section \<open>The source cluster of a GitTarget\<close>

definition configPlaneClusterID :: string where
  "configPlaneClusterID = []"

definition activeClusterIDs :: "Manager \<Rightarrow> string list" where
  "activeClusterIDs m =
     sort (map fst (fold (\<lambda>e. map_put (snd e) ()) (sm_gitTargetClusters m) [(configPlaneClusterID, ())]))"

definition rememberGitTargetCluster :: "Manager \<Rightarrow> ResourceReference \<Rightarrow> string \<Rightarrow> Manager" where
  "rememberGitTargetCluster m gitDest clusterID =
     m\<lparr> sm_gitTargetClusters := map_put (rr_Key gitDest) clusterID (sm_gitTargetClusters m) \<rparr>"

definition rememberClusterAuditRoute :: "Manager \<Rightarrow> string \<Rightarrow> string \<Rightarrow> Manager" where
  "rememberClusterAuditRoute m clusterID auditRoute =
     (if auditRoute = [] then m
      else m\<lparr> sm_clusterAuditRoutes := map_put clusterID auditRoute (sm_clusterAuditRoutes m) \<rparr>)"

definition auditRouteForCluster :: "Manager \<Rightarrow> string \<Rightarrow> string" where
  "auditRouteForCluster m clusterID =
     (case map_get (sm_clusterAuditRoutes m) clusterID of
        None \<Rightarrow> clusterID
      | Some route \<Rightarrow> if route \<noteq> [] then route else clusterID)"

definition DeclaredSourceCluster :: "Manager \<Rightarrow> ResourceReference \<Rightarrow> string option" where
  "DeclaredSourceCluster m gitDest = map_get (sm_gitTargetClusters m) (rr_Key gitDest)"

definition clusterIDForGitTarget :: "Manager \<Rightarrow> ResourceReference \<Rightarrow> string" where
  "clusterIDForGitTarget m gitDest =
     (case map_get (sm_gitTargetClusters m) (rr_Key gitDest) of
        None \<Rightarrow> configPlaneClusterID
      | Some cid \<Rightarrow> if cid \<noteq> [] then cid else configPlaneClusterID)"

text \<open>The second component is the cluster whose context is torn down, if any.\<close>

definition forgetGitTargetCluster :: "Manager \<Rightarrow> ResourceReference \<Rightarrow> Manager \<times> string option" where
  "forgetGitTargetCluster m gitDest =
     (case map_get (sm_gitTargetClusters m) (rr_Key gitDest) of
        None \<Rightarrow> (m, None)
      | Some clusterID \<Rightarrow>
          (let targets = map_del (rr_Key gitDest) (sm_gitTargetClusters m);
               stillReferenced = list_ex (\<lambda>(key, cid). cid = clusterID) targets;
               m = m\<lparr> sm_gitTargetClusters := targets,
                      sm_clusterAuditRoutes := (if stillReferenced then sm_clusterAuditRoutes m
                                                else map_del clusterID (sm_clusterAuditRoutes m)) \<rparr>
           in (m, if clusterID = configPlaneClusterID \<or> stillReferenced then None else Some clusterID)))"

section \<open>The service as a resolver\<close>

text \<open>What the snapshot of a target's source cluster says about a namespace.\<close>

definition snapshot_labels :: "Manager \<Rightarrow> GitTarget \<Rightarrow> (string, labels) gomap" where
  "snapshot_labels m target =
     (case snapshot (sm_scope m) (SourceCluster target) of None \<Rightarrow> [] | Some sn \<Rightarrow> sn_labels sn)"

definition scope_admits :: "apimachinery \<Rightarrow> Manager \<Rightarrow> GitTarget \<Rightarrow> string \<Rightarrow> bool" where
  "scope_admits am m target n \<longleftrightarrow>
     Matches am (gt_AllowedSourceNamespaces target) n
       (case map_get (snapshot_labels m target) n of None \<Rightarrow> [] | Some ls \<Rightarrow> ls) = Inr True"

definition scope_selects :: "apimachinery \<Rightarrow> Manager \<Rightarrow> GitTarget \<Rightarrow> string \<Rightarrow> bool" where
  "scope_selects am m target n \<longleftrightarrow>
     (\<exists>ls. (n, ls) \<in> set (snapshot_labels m target) \<and>
           SelectorAdmits am (gt_AllowedSourceNamespaces target) ls = Inr True)"

lemma sc_snapshots_want [simp]: "sc_snapshots (want s c) = sc_snapshots s"
  by (simp add: want_def)

lemma sm_scope_signal [simp]: "sm_scope (signalCatalogRefresh m) = sm_scope m"
  by (simp add: signalCatalogRefresh_def split: option.splits)

lemma sm_scope_unusable [simp]: "sm_scope (snd (unusableSnapshot m snap)) = sm_scope m"
  by (simp add: unusableSnapshot_def split: option.splits)

lemma unusable_None:
  "fst (unusableSnapshot m snap) = None \<longleftrightarrow> (\<exists>sn. snap = Some sn \<and> sn_synced sn \<and> \<not> sn_forbidden sn)"
  by (auto simp: unusableSnapshot_def split: option.splits if_splits)

lemma unusable_verdict:
  "fst (unusableSnapshot m snap) = Some v \<Longrightarrow> v = SourceScopeUnknown \<or> v = SourceScopeUnavailable"
  by (auto simp: unusableSnapshot_def split: option.splits if_splits)

lemma selected_names_set:
  "selected_names am policy ls = Inr ns \<Longrightarrow>
     set ns = {n. \<exists>l. (n, l) \<in> set ls \<and> SelectorAdmits am policy l = Inr True}"
  by (induction am policy ls arbitrary: ns rule: selected_names.induct)
    (auto split: sum.splits if_splits)

text \<open>The verdict of a single-candidate question, without the bookkeeping.\<close>

definition resolve_verdict ::
  "apimachinery \<Rightarrow> namespaceSnapshot option \<Rightarrow> GitTarget \<Rightarrow> string \<Rightarrow> SourceScopeVerdict" where
  "resolve_verdict am snap target n =
     (case snap of
        None \<Rightarrow> SourceScopeUnknown
      | Some sn \<Rightarrow>
          if sn_forbidden sn then SourceScopeUnavailable
          else if \<not> sn_synced sn then SourceScopeUnknown
          else case Matches am (gt_AllowedSourceNamespaces target) n
                      (case map_get (sn_labels sn) n of None \<Rightarrow> [] | Some ls \<Rightarrow> ls) of
                 Inl err \<Rightarrow> SourceScopeUnavailable
               | Inr a \<Rightarrow> if a then SourceScopeAdmitted else SourceScopeDenied)"

lemma ResolveSourceNamespace_verdict:
  "fst (ResolveSourceNamespace am m target n) =
     resolve_verdict am (snapshot (sm_scope m) (SourceCluster target)) target n"
  by (auto simp: ResolveSourceNamespace_def resolve_verdict_def unusableSnapshot_def snapshot_def
      sourceScopeClusterID_def AllowsSourceNamespace_def Let_def split: option.splits sum.splits)

lemma ResolveSourceNamespace_snapshots [simp]:
  "sc_snapshots (sm_scope (snd (ResolveSourceNamespace am m target n))) = sc_snapshots (sm_scope m)"
  by (auto simp: ResolveSourceNamespace_def unusableSnapshot_def Let_def split: option.splits sum.splits)

lemma EnumerateSourceNamespaces_snapshots [simp]:
  "sc_snapshots (sm_scope (snd (EnumerateSourceNamespaces am m target))) = sc_snapshots (sm_scope m)"
  by (auto simp: EnumerateSourceNamespaces_def unusableSnapshot_def Let_def split: option.splits sum.splits)

lemma scope_view_cong:
  assumes "sc_snapshots (sm_scope m') = sc_snapshots (sm_scope m)"
  shows "scope_admits am m' = scope_admits am m \<and> scope_selects am m' = scope_selects am m"
  using assms by (simp add: scope_admits_def scope_selects_def snapshot_labels_def snapshot_def fun_eq_iff)

lemma resolve_verdict_definite:
  "(resolve_verdict am snap target n = SourceScopeAdmitted \<longrightarrow>
      (\<exists>sn. snap = Some sn \<and> Matches am (gt_AllowedSourceNamespaces target) n
        (case map_get (sn_labels sn) n of None \<Rightarrow> [] | Some ls \<Rightarrow> ls) = Inr True)) \<and>
   (resolve_verdict am snap target n = SourceScopeDenied \<longrightarrow>
      (\<exists>sn. snap = Some sn \<and> Matches am (gt_AllowedSourceNamespaces target) n
        (case map_get (sn_labels sn) n of None \<Rightarrow> [] | Some ls \<Rightarrow> ls) = Inr False))"
  by (auto simp: resolve_verdict_def split: option.splits if_splits sum.splits)

lemma EnumerateSourceNamespaces_admitted:
  assumes "EnumerateSourceNamespaces am m target = ((ns, SourceScopeAdmitted), m')"
  shows "set ns = {n. scope_selects am m target n}"
  using assms
  by (auto simp: EnumerateSourceNamespaces_def unusableSnapshot_def Let_def scope_selects_def
      snapshot_labels_def snapshot_def sourceScopeClusterID_def
      split: option.splits if_splits sum.splits dest!: selected_names_set)

interpretation scope: source_resolver "scope_resolver am" "scope_admits am" "scope_selects am"
  for am
proof
  fix s t n s'
  assume "sr_ResolveSourceNamespace (scope_resolver am) s t n = (SourceScopeAdmitted, s')"
  then have "resolve_verdict am (snapshot (sm_scope s) (SourceCluster t)) t n = SourceScopeAdmitted"
    using ResolveSourceNamespace_verdict [of am s t n] by (simp add: scope_resolver_def)
  then show "scope_admits am s t n"
    using resolve_verdict_definite by (fastforce simp: scope_admits_def snapshot_labels_def)
next
  fix s t n s'
  assume "sr_ResolveSourceNamespace (scope_resolver am) s t n = (SourceScopeDenied, s')"
  then have "resolve_verdict am (snapshot (sm_scope s) (SourceCluster t)) t n = SourceScopeDenied"
    using ResolveSourceNamespace_verdict [of am s t n] by (simp add: scope_resolver_def)
  then show "\<not> scope_admits am s t n"
    using resolve_verdict_definite by (fastforce simp: scope_admits_def snapshot_labels_def)
next
  fix s t n v s'
  assume "sr_ResolveSourceNamespace (scope_resolver am) s t n = (v, s')"
  then show "scope_admits am s' = scope_admits am s \<and> scope_selects am s' = scope_selects am s"
    using ResolveSourceNamespace_snapshots [of am s t n]
    by (intro scope_view_cong) (simp add: scope_resolver_def)
next
  fix s t ns s'
  assume "sr_EnumerateSourceNamespaces (scope_resolver am) s t = ((ns, SourceScopeAdmitted), s')"
  then show "set ns = {n. scope_selects am s t n}"
    by (intro EnumerateSourceNamespaces_admitted) (simp add: scope_resolver_def)
next
  fix s t r s'
  assume "sr_EnumerateSourceNamespaces (scope_resolver am) s t = (r, s')"
  then show "scope_admits am s' = scope_admits am s \<and> scope_selects am s' = scope_selects am s"
    using EnumerateSourceNamespaces_snapshots [of am s t]
    by (intro scope_view_cong) (simp add: scope_resolver_def)
qed

text \<open>Answering a question never touches the memory of granted scopes.\<close>

interpretation scope_grants: resolver_frame "scope_resolver am" "\<lambda>m :: Manager. sc_grants (sm_scope m) = G"
  for am G
proof
  fix s :: Manager and t n
  assume "sc_grants (sm_scope s) = G"
  then show "sc_grants (sm_scope (snd (sr_ResolveSourceNamespace (scope_resolver am) s t n))) = G"
    by (auto simp: scope_resolver_def ResolveSourceNamespace_def unusableSnapshot_def want_def Let_def
        split: option.splits sum.splits)
next
  fix s :: Manager and t
  assume "sc_grants (sm_scope s) = G"
  then show "sc_grants (sm_scope (snd (sr_EnumerateSourceNamespaces (scope_resolver am) s t))) = G"
    by (auto simp: scope_resolver_def EnumerateSourceNamespaces_def unusableSnapshot_def want_def Let_def
        split: option.splits sum.splits)
qed

section \<open>Properties of the service\<close>

lemma scope_items:
  assumes "ResolveWatchRuleSourceScope am reader rule target (Some (scope_resolver am)) m = (Inr s, m')"
  shows "list_all2 (scope.faithful am am reader rule target m) (wr_Rules rule) (ss_Items s) \<and>
     s = aggregateSourceScope (ss_Items s) \<and> scope.same_view am m m'"
proof -
  have "Some (scope_resolver am) \<in> {None, Some (scope_resolver am)}" by simp
  from scope.resolve_scope_items [OF this assms] show ?thesis .
qed

lemma faithful_items:
  assumes "ResolveWatchRuleSourceScope am reader rule target (Some (scope_resolver am)) m = (Inr s, m')"
    and "j < length (wr_Rules rule)"
  shows "scope.faithful am am reader rule target m (wr_Rules rule ! j) (ss_Items s ! j) \<and>
     j < length (ss_Items s)"
  using scope_items [OF assms(1)] assms(2) by (auto simp: list_all2_conv_all_nth)

text \<open>
  C2: the source-namespace gate over the watch manager's snapshots grants exactly what the policies
  say. When a rule is admitted, each item's resolved namespaces are exactly the namespaces the item
  is entitled to (its own namespace without a policy; otherwise what the target's declared policy
  admits, provided the provider delegates every choice other than the rule's own namespace); when a
  rule is denied, some item is entitled to nothing.
\<close>

theorem source_scope_exact:
  assumes "ResolveWatchRuleSourceScope am reader rule target (Some (scope_resolver am)) m = (Inr s, m')"
  shows "(ss_Admitted s \<longrightarrow> (\<forall>j < length (wr_Rules rule). set (NamespacesFor s (int j)) =
            item_grant am reader (scope_admits am m target) (scope_selects am m target) rule target
              (wr_Rules rule ! j))) \<and>
         (ss_Verdict s = SourceScopeDenied \<longrightarrow> (\<exists>j < length (wr_Rules rule).
            item_grant am reader (scope_admits am m target) (scope_selects am m target) rule target
              (wr_Rules rule ! j) = {}))"
proof (intro conjI impI allI)
  note agg = scope_items [OF assms]
  have s: "s = aggregateSourceScope (ss_Items s)" using agg by simp
  have len: "length (ss_Items s) = length (wr_Rules rule)"
    using agg list_all2_lengthD by fastforce
  {
    fix j assume adm: "ss_Admitted s" and j: "j < length (wr_Rules rule)"
    then have "sd_Verdict (ss_Items s ! j) = SourceScopeAdmitted"
      using aggregate_admitted [of "ss_Items s"] s len by (simp add: ss_Admitted_def)
    with faithful_items [OF assms j] j show "set (NamespacesFor s (int j)) =
        item_grant am reader (scope_admits am m target) (scope_selects am m target) rule target
          (wr_Rules rule ! j)"
      by (simp add: scope.faithful_def NamespacesFor_def)
  }
  assume "ss_Verdict s = SourceScopeDenied"
  with s obtain j where "j < length (ss_Items s)" "sd_Verdict (ss_Items s ! j) = SourceScopeDenied"
    using aggregate_denied [of "ss_Items s"] by (metis in_set_conv_nth)
  with faithful_items [OF assms] len show "\<exists>j < length (wr_Rules rule).
      item_grant am reader (scope_admits am m target) (scope_selects am m target) rule target
        (wr_Rules rule ! j) = {}"
    by (auto simp: scope.faithful_def)
qed

subsection \<open>A quiet refresh changes no answer\<close>

definition snapshot_wf :: "namespaceSnapshot \<Rightarrow> bool" where
  "snapshot_wf sn \<longleftrightarrow> map_wf (sn_labels sn) \<and> list_all (\<lambda>(n, ls). map_wf ls) (sn_labels sn)"

text \<open>A label set is a Go map: what a selector says of it does not depend on an order.\<close>

definition order_blind :: "apimachinery \<Rightarrow> bool" where
  "order_blind am \<longleftrightarrow>
     (\<forall>ls sel a b. am_LabelSelectorAsSelector am ls = Inr sel \<longrightarrow> map_of a = map_of b \<longrightarrow> sel a = sel b)"

lemma maps_Equal_map_of:
  assumes "map_wf a" and "map_wf b" and "maps_Equal a b"
  shows "map_of a = map_of b"
proof -
  have sub: "set a \<subseteq> set b" and len: "length a = length b"
    using assms(3) by (auto simp: maps_Equal_def list_all_iff dest: map_of_SomeD)
  have "card (set a) = card (set b)"
    using assms len by (simp add: distinct_card distinct_map)
  with sub have "set a = set b" by (simp add: card_subset_eq)
  then show ?thesis using assms(1,2) map_of_inject_set by blast
qed

text \<open>The keys of two maps of equal size, one of which has all keys of the other, agree.\<close>

lemma same_keys:
  assumes "map_wf a" and "map_wf b" and "length a = length b"
    and "\<forall>k \<in> fst ` set a. map_get b k \<noteq> None"
  shows "fst ` set a = fst ` set b"
proof -
  have "fst ` set a \<subseteq> fst ` set b"
    using assms(4) by (auto simp: map_of_eq_None_iff)
  moreover have "card (fst ` set a) = card (fst ` set b)"
    using assms(1-3) by (metis distinct_card length_map list.set_map)
  ultimately show ?thesis by (simp add: card_subset_eq)
qed

lemma labelSetsEqual_lookup:
  assumes wf: "map_wf a" "map_wf b" "list_all (\<lambda>(n, ls). map_wf ls) a" "list_all (\<lambda>(n, ls). map_wf ls) b"
    and eq: "labelSetsEqual a b"
  shows "rel_option (\<lambda>x y. map_of x = map_of y) (map_get a n) (map_get b n)"
proof (cases "map_get a n")
  case None
  have "\<forall>k \<in> fst ` set a. map_get b k \<noteq> None"
    using eq by (force simp: labelSetsEqual_def list_all_iff split: if_splits option.splits)
  then have "fst ` set a = fst ` set b"
    using eq wf(1,2) by (intro same_keys) (auto simp: labelSetsEqual_def split: if_splits)
  with None have "map_get b n = None" by (simp add: map_of_eq_None_iff)
  with None show ?thesis by simp
next
  case (Some x)
  then have "(n, x) \<in> set a" by (rule map_of_SomeD)
  with eq obtain y where y: "map_get b n = Some y" "maps_Equal x y"
    by (fastforce simp: labelSetsEqual_def list_all_iff split: if_splits option.splits)
  then have "(n, y) \<in> set b" by (blast dest: map_of_SomeD)
  with wf(3,4) \<open>(n, x) \<in> set a\<close> have "map_wf x" "map_wf y" by (auto simp: list_all_iff)
  with y Some show ?thesis by (simp add: maps_Equal_map_of)
qed

lemma Matches_order_blind:
  assumes "order_blind am" and "map_of a = map_of b"
  shows "Matches am p n a = Matches am p n b"
  using assms by (auto simp: Matches_def order_blind_def split: option.splits sum.splits)

lemma store_lookup:
  "sc_snapshots (snd (store s c nxt)) = map_put c nxt (sc_snapshots s)"
  by (simp add: store_def Let_def split: option.splits)

lemma SelectorAdmits_order_blind:
  assumes "order_blind am" and "map_of a = map_of b"
  shows "SelectorAdmits am p a = SelectorAdmits am p b"
  using assms by (auto simp: SelectorAdmits_def order_blind_def split: option.splits sum.splits)

lemma selected_names_distinct:
  "selected_names am p ls = Inr ns \<Longrightarrow> set ns \<subseteq> fst ` set ls \<and> (map_wf ls \<longrightarrow> distinct ns)"
  by (induction am p ls arbitrary: ns rule: selected_names.induct)
    (fastforce split: sum.splits if_splits)+

text \<open>A selector that cannot be converted fails on the first namespace, whichever that is.\<close>

lemma selected_names_Inl:
  "selected_names am p ls = Inl err \<longleftrightarrow> ls \<noteq> [] \<and> SelectorAdmits am p [] = Inl err"
proof (induction ls)
  case (Cons e ls)
  obtain n l where e: "e = (n, l)" by (cases e)
  have same: "SelectorAdmits am p l = Inl err \<longleftrightarrow> SelectorAdmits am p [] = Inl err" for err
    by (auto simp: SelectorAdmits_def split: option.splits sum.splits)
  show ?case
  proof (cases "SelectorAdmits am p l")
    case (Inl x)
    then show ?thesis using same [of x] by (auto simp: e)
  next
    case (Inr x)
    then have "SelectorAdmits am p [] \<noteq> Inl err" for err using same [of err] by auto
    then show ?thesis using Inr Cons by (cases "selected_names am p ls") (auto simp: e)
  qed
qed simp

lemma selected_names_cong:
  assumes wf: "map_wf a" "map_wf b" and blind: "order_blind am" and len: "length a = length b"
    and rel: "\<And>n. rel_option (\<lambda>x y. map_of x = map_of y) (map_get a n) (map_get b n)"
  shows "map_sum id sort (selected_names am p a) = map_sum id sort (selected_names am p b)"
proof (cases "selected_names am p a")
  case (Inl err)
  then have "selected_names am p b = Inl err" using len by (auto simp: selected_names_Inl)
  then show ?thesis by (simp add: Inl)
next
  case (Inr ns)
  have "selected_names am p b \<noteq> Inl err" for err
    using Inr len selected_names_Inl [of am p a err] selected_names_Inl [of am p b err] by auto
  then obtain ns' where ns': "selected_names am p b = Inr ns'" by (cases "selected_names am p b") auto
  have "(\<exists>l. (n, l) \<in> set a \<and> SelectorAdmits am p l = Inr True) \<longleftrightarrow> (\<exists>l. (n, l) \<in> set b \<and> SelectorAdmits am p l = Inr True)" for n
    unfolding map_of_eq_Some_iff [OF wf(1), symmetric] map_of_eq_Some_iff [OF wf(2), symmetric]
  proof (cases "map_get a n"; cases "map_get b n")
    fix x y assume xy: "map_get a n = Some x" "map_get b n = Some y"
    then have "map_of x = map_of y" using rel [of n] by (simp only: option.rel_inject)
    from SelectorAdmits_order_blind [OF blind this, of p] xy
    show "(\<exists>l. map_get a n = Some l \<and> SelectorAdmits am p l = Inr True) \<longleftrightarrow> (\<exists>l. map_get b n = Some l \<and> SelectorAdmits am p l = Inr True)"
      by (simp only: option.inject) simp
  qed (use rel [of n] in \<open>simp_all only: option.rel_distinct option.distinct simp_thms\<close>)
  then have "set ns = set ns'" using selected_names_set [OF Inr] selected_names_set [OF ns'] by simp
  moreover have "distinct ns" "distinct ns'" using selected_names_distinct [OF Inr] selected_names_distinct [OF ns'] wf by auto
  ultimately have "sort ns = sort ns'" by (intro sorted_distinct_set_unique) simp_all
  then show ?thesis by (simp add: Inr ns')
qed

text \<open>The answer of an enumeration, without the bookkeeping.\<close>

lemma EnumerateSourceNamespaces_answer:
  "fst (EnumerateSourceNamespaces am m target) =
     (case snapshot (sm_scope m) (SourceCluster target) of
        None \<Rightarrow> ([], SourceScopeUnknown)
      | Some sn \<Rightarrow>
          if sn_forbidden sn then ([], SourceScopeUnavailable)
          else if \<not> sn_synced sn then ([], SourceScopeUnknown)
          else case map_sum id sort (selected_names am (gt_AllowedSourceNamespaces target) (sn_labels sn)) of
                 Inl err \<Rightarrow> ([], SourceScopeUnavailable)
               | Inr names \<Rightarrow> (names, SourceScopeAdmitted))"
  by (auto simp: EnumerateSourceNamespaces_def unusableSnapshot_def snapshot_def
      sourceScopeClusterID_def Let_def split: option.splits sum.splits)

text \<open>
  C5: no silent revocation or grant. When a refresh of a cluster reports no observable change, nobody
  is notified, and every question has the same answer before and after it, of every GitTarget: whether
  one namespace is admitted, and the list of the namespaces that a wildcard selects. Only the order in
  which a map happens to be held may differ.
\<close>

theorem quiet_refresh_same_answers:
  assumes blind: "order_blind am"
    and before: "\<And>sn. snapshot (sm_scope m) c = Some sn \<Longrightarrow> snapshot_wf sn"
    and after: "snapshot_wf (listSourceNamespaces listing (sm_scope m) c)"
    and quiet: "store (sm_scope m) c (listSourceNamespaces listing (sm_scope m) c) = (False, s')"
  shows "sm_sourceNamespaceEventsCh (refresh_one listing c m) = sm_sourceNamespaceEventsCh m
     \<and> fst (ResolveSourceNamespace am (refresh_one listing c m) target n) = fst (ResolveSourceNamespace am m target n)
     \<and> fst (EnumerateSourceNamespaces am (refresh_one listing c m) target) = fst (EnumerateSourceNamespaces am m target)"
proof -
  define nxt where "nxt = listSourceNamespaces listing (sm_scope m) c"
  note quiet = quiet [folded nxt_def] and after = after [folded nxt_def]
  have m': "refresh_one listing c m = m\<lparr> sm_scope := s' \<rparr>" by (simp add: refresh_one_def quiet flip: nxt_def)
  have s': "snapshot s' k = (if k = c then Some nxt else snapshot (sm_scope m) k)" for k
    using store_lookup [of "sm_scope m" c nxt] quiet by (simp add: snapshot_def al.lookup_put)
  from quiet obtain previous where p: "snapshot (sm_scope m) c = Some previous"
    and flags: "sn_synced previous = sn_synced nxt" "sn_forbidden previous = sn_forbidden nxt"
    and lbl: "sn_synced nxt \<Longrightarrow> labelSetsEqual (sn_labels previous) (sn_labels nxt)"
    by (auto simp: store_def snapshot_def Let_def split: option.splits if_splits)
  have wf: "map_wf (sn_labels previous)" "map_wf (sn_labels nxt)"
      "list_all (\<lambda>(n, ls). map_wf ls) (sn_labels previous)" "list_all (\<lambda>(n, ls). map_wf ls) (sn_labels nxt)"
    using before [OF p] after by (simp_all add: snapshot_wf_def)
  have "resolve_verdict am (Some nxt) target n = resolve_verdict am (Some previous) target n
      \<and> map_sum id sort (selected_names am q (sn_labels previous)) = map_sum id sort (selected_names am q (sn_labels nxt))"
    if sync: "sn_synced nxt" for q
  proof
    note rel = labelSetsEqual_lookup [OF wf lbl [OF sync]]
    from rel [of n] have "map_of (case map_get (sn_labels previous) n of None \<Rightarrow> [] | Some ls \<Rightarrow> ls) =
        map_of (case map_get (sn_labels nxt) n of None \<Rightarrow> [] | Some ls \<Rightarrow> ls)"
      by (auto split: option.splits)
    from Matches_order_blind [OF blind this] flags
    show "resolve_verdict am (Some nxt) target n = resolve_verdict am (Some previous) target n" by (simp add: resolve_verdict_def)
    have "length (sn_labels previous) = length (sn_labels nxt)"
      using lbl [OF sync] by (simp add: labelSetsEqual_def split: if_splits)
    from selected_names_cong [OF wf(1,2) blind this rel]
    show "map_sum id sort (selected_names am q (sn_labels previous)) = map_sum id sort (selected_names am q (sn_labels nxt))" .
  qed
  moreover have "resolve_verdict am (Some nxt) target n = resolve_verdict am (Some previous) target n" if "\<not> sn_synced nxt"
    using flags that by (simp add: resolve_verdict_def)
  ultimately show ?thesis
    using p flags unfolding m' ResolveSourceNamespace_verdict EnumerateSourceNamespaces_answer
    by (cases "SourceCluster target = c"; cases "sn_synced nxt") (simp_all add: s')
qed

subsection \<open>Refreshing\<close>

lemma snapshot_enqueue [simp]: "sm_scope (enqueueSourceNamespaceChange m c) = sm_scope m"
  by (simp add: enqueueSourceNamespaceChange_def Let_def split: option.splits)

lemma snapshot_refresh_one:
  "snapshot (sm_scope (refresh_one listing c m)) c' =
     (if c' = c then Some (listSourceNamespaces listing (sm_scope m) c)
      else snapshot (sm_scope m) c')"
proof -
  let ?nxt = "listSourceNamespaces listing (sm_scope m) c"
  obtain ch s where st: "store (sm_scope m) c ?nxt = (ch, s)" by fastforce
  then have "sc_snapshots s = map_put c ?nxt (sc_snapshots (sm_scope m))"
    using store_lookup [of "sm_scope m" c ?nxt] by simp
  with st show ?thesis
    by (simp add: refresh_one_def Let_def snapshot_def al.lookup_put)
qed

lemma listSourceNamespaces_cong:
  "snapshot s c = snapshot s' c \<Longrightarrow> listSourceNamespaces listing s c = listSourceNamespaces listing s' c"
  by (simp add: listSourceNamespaces_def)

lemma snapshot_refresh_fold:
  "distinct cs \<Longrightarrow> snapshot (sm_scope (fold (refresh_one listing) cs m)) c =
     (if c \<in> set cs then Some (listSourceNamespaces listing (sm_scope m) c)
      else snapshot (sm_scope m) c)"
proof (induction cs arbitrary: m)
  case (Cons d cs)
  then show ?case
    by (auto simp: snapshot_refresh_one intro!: listSourceNamespaces_cong)
qed simp

lemma snapshot_refresh:
  assumes "map_wf (sc_wanted (sm_scope m))"
  shows "snapshot (sm_scope (refreshSourceNamespaceScopes listing m)) c =
     (if map_get (sc_wanted (sm_scope m)) c \<noteq> None then Some (listSourceNamespaces listing (sm_scope m) c)
      else snapshot (sm_scope m) c)"
proof -
  have "snapshot (sm_scope (refreshSourceNamespaceScopes listing m)) c =
      (if c \<in> set (wantedClusters (sm_scope m)) then Some (listSourceNamespaces listing (sm_scope m) c)
       else snapshot (sm_scope m) c)"
    using assms snapshot_refresh_fold [of "wantedClusters (sm_scope m)" listing m c]
    by (auto simp: refreshSourceNamespaceScopes_def Let_def wantedClusters_def)
  moreover have "c \<in> set (wantedClusters (sm_scope m)) \<longleftrightarrow> map_get (sc_wanted (sm_scope m)) c \<noteq> None"
    by (simp add: wantedClusters_def map_of_eq_None_iff)
  ultimately show ?thesis by simp
qed

lemma verdict_retained:
  "\<not> sn_forbidden sn \<Longrightarrow>
     resolve_verdict am (Some (retainOnRetryableError sn e)) t n = resolve_verdict am (Some sn) t n"
  by (simp add: resolve_verdict_def retainOnRetryableError_def)

lemma verdict_retained_zero:
  "resolve_verdict am (Some (retainOnRetryableError zero_snapshot e)) t n = resolve_verdict am None t n"
  by (simp add: resolve_verdict_def retainOnRetryableError_def zero_snapshot_def)

lemma list_transient:
  assumes "listing c = ClientFailed e \<or> listing c = ListFailed e"
  shows "listSourceNamespaces listing s c =
     retainOnRetryableError (case snapshot s c of None \<Rightarrow> zero_snapshot | Some sn \<Rightarrow> sn) e"
  using assms by (auto simp: listSourceNamespaces_def)

text \<open>
  a transient failure revokes nothing. After a refresh in which a cluster could not be reached
  or listed for a retryable reason, every question about a target on that cluster has the verdict it
  had before (a cluster that was marked forbidden before is excluded: it becomes unknown).
\<close>

theorem transient_failure_keeps_answers:
  assumes "map_wf (sc_wanted (sm_scope m))"
    and "listing (SourceCluster target) = ClientFailed e \<or> listing (SourceCluster target) = ListFailed e"
    and "\<And>sn. snapshot (sm_scope m) (SourceCluster target) = Some sn \<Longrightarrow> \<not> sn_forbidden sn"
  shows "fst (ResolveSourceNamespace am (refreshSourceNamespaceScopes listing m) target n) =
         fst (ResolveSourceNamespace am m target n)"
proof -
  let ?c = "SourceCluster target"
  show ?thesis
  proof (cases "snapshot (sm_scope m) ?c")
    case None
    then show ?thesis
      by (simp add: ResolveSourceNamespace_verdict snapshot_refresh [OF assms(1)]
          list_transient [of listing "SourceCluster target" e, OF assms(2)] verdict_retained_zero)
  next
    case (Some sn)
    with assms(3) [OF Some] show ?thesis
      by (simp add: ResolveSourceNamespace_verdict snapshot_refresh [OF assms(1)]
          list_transient [of listing "SourceCluster target" e, OF assms(2)] verdict_retained)
  qed
qed

text \<open>
  every question is eventually answered. Asking about a target arms the refresh of its source
  cluster: after the next refresh that can list the cluster, no question about that target is
  answered with unknown.
\<close>

theorem asked_then_answered:
  assumes "map_wf (sc_wanted (sm_scope m))" and "listing (SourceCluster target) = Listed items"
  shows "fst (ResolveSourceNamespace am
           (refreshSourceNamespaceScopes listing (snd (ResolveSourceNamespace am m target n))) target n')
         \<noteq> SourceScopeUnknown"
proof -
  let ?m = "snd (ResolveSourceNamespace am m target n)"
  have w: "sc_wanted (sm_scope ?m) = map_put (SourceCluster target) () (sc_wanted (sm_scope m))"
    by (auto simp: ResolveSourceNamespace_def unusableSnapshot_def want_def sourceScopeClusterID_def Let_def
        split: option.splits sum.splits)
  then have "map_wf (sc_wanted (sm_scope ?m))" using assms(1) by simp
  from snapshot_refresh [OF this, of listing "SourceCluster target"] w assms(2) show ?thesis
    by (auto simp: ResolveSourceNamespace_verdict resolve_verdict_def al.lookup_put listSourceNamespaces_def
        split: sum.splits)
qed

subsection \<open>The hash of a rule's scope request\<close>

definition nul_free :: "string \<Rightarrow> bool" where
  "nul_free s = (CHR 0x00 \<notin> set s)"

lemma hash_parts_inject:
  "map (\<lambda>(i, r). Itoa i @ ''='' @ rr_SourceNamespace r) (enumerate k xs) =
   map (\<lambda>(i, r). Itoa i @ ''='' @ rr_SourceNamespace r) (enumerate k ys) \<longleftrightarrow>
   map rr_SourceNamespace xs = map rr_SourceNamespace ys"
proof (induction xs arbitrary: ys k)
  case Nil
  show ?case by (cases ys) simp_all
next
  case (Cons x xs)
  then show ?case by (cases ys) simp_all
qed

lemma hash_part_nul_free:
  assumes "list_all (nul_free \<circ> rr_SourceNamespace) rs"
    and "p \<in> set (map (\<lambda>(i, r). Itoa i @ ''='' @ rr_SourceNamespace r) (enumerate k rs))"
  shows "CHR 0x00 \<notin> set p"
proof -
  from assms(2) obtain i r where "(i, r) \<in> set (enumerate k rs)"
    and p: "p = Itoa i @ ''='' @ rr_SourceNamespace r" by auto
  then have "r \<in> set rs" unfolding enumerate_eq_zip by (blast dest: set_zip_rightD)
  with assms(1) have "CHR 0x00 \<notin> set (rr_SourceNamespace r)"
    by (auto simp: list_all_iff nul_free_def)
  moreover have "CHR 0x00 \<notin> set (Itoa i)" by (rule Itoa_no_char) simp
  ultimately show ?thesis by (simp add: p)
qed

text \<open>
  what retention is keyed on. For names without a NUL byte, two rules have the same scope hash
  exactly when they live in the same namespace and request the same source namespaces item by item,
  in order. In particular the referenced GitTarget is not part of the hash.
\<close>

theorem spec_hash_exact:
  assumes "nul_free (wr_Namespace a)" and "nul_free (wr_Namespace b)"
    and "list_all (nul_free \<circ> rr_SourceNamespace) (wr_Rules a @ wr_Rules b)"
  shows "SourceScopeSpecHash a = SourceScopeSpecHash b \<longleftrightarrow>
     wr_Namespace a = wr_Namespace b \<and>
     map rr_SourceNamespace (wr_Rules a) = map rr_SourceNamespace (wr_Rules b)"
proof -
  have "SourceScopeSpecHash a = SourceScopeSpecHash b \<longleftrightarrow>
      (''own='' @ wr_Namespace a) #
        map (\<lambda>(i, r). Itoa i @ ''='' @ rr_SourceNamespace r) (enumerate 0 (wr_Rules a)) =
      (''own='' @ wr_Namespace b) #
        map (\<lambda>(i, r). Itoa i @ ''='' @ rr_SourceNamespace r) (enumerate 0 (wr_Rules b))"
    unfolding SourceScopeSpecHash_def using assms
    by (intro Join_inject) (auto simp: nul_free_def dest!: hash_part_nul_free)
  then show ?thesis using hash_parts_inject [of 0 "wr_Rules a" "wr_Rules b"] by simp
qed

section \<open>A worked example\<close>

text \<open>
  A provider that admits the namespace tenant and delegates, a target whose policy names ops and
  selects on a label, and a rule that asks for everything the policy admits. The selector evaluator
  is the fragment of label selectors without expressions.
\<close>

definition eq_selectors :: apimachinery where
  "eq_selectors =
     \<lparr> am_LabelSelectorAsSelector = (\<lambda>ls.
         if ls_MatchExpressions ls \<noteq> [] then Inl ''unsupported''
         else Inr (\<lambda>l. list_all (\<lambda>(k, v). map_get l k = Some v) (ls_MatchLabels ls))),
       am_IsDNS1123Label = (\<lambda>n. if n = ''*'' then [''not a label''] else []) \<rparr>"

definition ex_reader :: Reader where
  "ex_reader =
     \<lparr> rd_ClusterProvider = (\<lambda>name.
         if name = ''default'' then
           Inr \<lparr> cp_Name = ''default'', cp_KubeConfig = None,
                 cp_AllowedNamespaces = Some \<lparr> nm_Names = [''tenant''], nm_Selector = None \<rparr>,
                 cp_AllowSourceNamespaceOverride = True, cp_Attribution = None \<rparr>
         else Inl NotFound),
       rd_NamespaceLabels = (\<lambda>name. Inl NotFound) \<rparr>"

definition ex_target :: GitTarget where
  "ex_target =
     \<lparr> gt_Name = ''target'', gt_Namespace = ''tenant'', gt_CreationTimestamp = 100,
       gt_ProviderRef = ''git'', gt_Branch = ''main'',
       gt_Path = ''apps'', gt_ClusterProviderRef = None,
       gt_AllowedSourceNamespaces = Some \<lparr> nm_Names = [''ops''],
         nm_Selector = Some \<lparr> ls_MatchLabels = [(''mirror'', ''yes'')], ls_MatchExpressions = [] \<rparr> \<rparr>,
       gt_Placement = None, gt_Prune = None \<rparr>"

definition ex_rule :: WatchRule where
  "ex_rule =
     \<lparr> wr_Name = ''rule'', wr_Namespace = ''tenant'', wr_TargetRef = ''target'',
       wr_Rules = [\<lparr> rr_Operations = [], rr_APIGroups = [], rr_APIVersions = [],
                     rr_Resources = [''configmaps''], rr_SourceNamespace = ''*'' \<rparr>] \<rparr>"

definition ex_snapshot :: namespaceSnapshot where
  "ex_snapshot =
     \<lparr> sn_labels = [(''team-a'', [(''mirror'', ''yes'')]), (''team-b'', [])], sn_synced = True,
       sn_forbidden = False, sn_err = None \<rparr>"

definition ex_manager :: Manager where
  "ex_manager =
     \<lparr> sm_scope = \<lparr> sc_wanted = [(''default'', ())], sc_snapshots = [(''default'', ex_snapshot)],
                    sc_grants = [] \<rparr>,
       sm_catalogRefreshCh = Some False, sm_sourceNamespaceEventsCh = Some [],
       sm_gitTargetClusters = [(''tenant/target'', ''default'')], sm_clusterAuditRoutes = [] \<rparr>"

definition ex_scope :: ResolvedSourceScope where
  "ex_scope =
     \<lparr> ss_Items = [\<lparr> sd_Index = 0, sd_Requested = ''*'', sd_Namespaces = [''ops'', ''team-a''],
                     sd_Verdict = SourceScopeAdmitted, sd_Reason = ReasonSourceNamespaceAllowed \<rparr>],
       ss_Verdict = SourceScopeAdmitted, ss_Reason = ReasonSourceNamespaceAllowed \<rparr>"

lemma ex_resolved:
  "ResolveWatchRuleSourceScope eq_selectors ex_reader ex_rule ex_target
     (Some (scope_resolver eq_selectors)) ex_manager = (Inr ex_scope, ex_manager)"
  by code_simp

theorem source_scope_exact_witness:
  "ResolveWatchRuleSourceScope eq_selectors ex_reader ex_rule ex_target
     (Some (scope_resolver eq_selectors)) ex_manager = (Inr ex_scope, ex_manager) \<and>
   item_grant eq_selectors ex_reader (scope_admits eq_selectors ex_manager ex_target)
     (scope_selects eq_selectors ex_manager ex_target) ex_rule ex_target (wr_Rules ex_rule ! 0) =
   {''ops'', ''team-a''}"
proof -
  have "0 < length (wr_Rules ex_rule)" by (simp add: ex_rule_def)
  moreover have "ss_Admitted ex_scope" by (simp add: ex_scope_def ss_Admitted_def)
  ultimately have "set (NamespacesFor ex_scope (int 0)) =
      item_grant eq_selectors ex_reader (scope_admits eq_selectors ex_manager ex_target)
        (scope_selects eq_selectors ex_manager ex_target) ex_rule ex_target (wr_Rules ex_rule ! 0)"
    using source_scope_exact [OF ex_resolved] by blast
  moreover have "NamespacesFor ex_scope (int 0) = [''ops'', ''team-a'']"
    by (simp add: ex_scope_def NamespacesFor_def)
  ultimately show ?thesis using ex_resolved by simp
qed

lemma order_blind_eq_selectors: "order_blind eq_selectors"
  by (auto simp: order_blind_def eq_selectors_def split: if_splits)

definition ex_relisted :: "string \<Rightarrow> ListResult" where
  "ex_relisted c = Listed [(''team-b'', []), (''team-a'', [(''mirror'', ''yes'')])]"

theorem quiet_refresh_same_answers_witness:
  "fst (ResolveSourceNamespace eq_selectors (refresh_one ex_relisted ''default'' ex_manager) ex_target ''team-a'') = SourceScopeAdmitted
   \<and> fst (EnumerateSourceNamespaces eq_selectors (refresh_one ex_relisted ''default'' ex_manager) ex_target) = ([''team-a''], SourceScopeAdmitted)"
proof -
  let ?s = "sm_scope ex_manager"
  let ?nxt = "listSourceNamespaces ex_relisted ?s ''default''"
  have store: "store ?s ''default'' ?nxt = (False, snd (store ?s ''default'' ?nxt))"
    by code_simp
  have before: "\<And>sn. snapshot ?s ''default'' = Some sn \<Longrightarrow> snapshot_wf sn"
    by (simp add: snapshot_def ex_manager_def ex_snapshot_def snapshot_wf_def)
  have after: "snapshot_wf ?nxt" by code_simp
  have "fst (ResolveSourceNamespace eq_selectors ex_manager ex_target ''team-a'') = SourceScopeAdmitted"
    "fst (EnumerateSourceNamespaces eq_selectors ex_manager ex_target) = ([''team-a''], SourceScopeAdmitted)"
    by code_simp+
  then show ?thesis
    using quiet_refresh_same_answers [OF order_blind_eq_selectors before after store, of ex_target "''team-a''"] by simp
qed

section \<open>Namespaces that do not exist\<close>

text \<open>
  a namespace that does not exist in the source cluster is admitted by the empty selector.
  Against a synced snapshot without that namespace, a policy whose selector is empty (the form that
  admits every namespace) admits it by name, while the expansion of a wildcard never lists it. The
  hypothesis on the selector library is its documented behaviour: the empty selector matches every
  label set.
\<close>

theorem absent_namespace_admitted:
  assumes "am_LabelSelectorAsSelector am empty_selector = Inr (\<lambda>l. True)"
    and "gt_AllowedSourceNamespaces target = Some \<lparr> nm_Names = [], nm_Selector = Some empty_selector \<rparr>"
    and "snapshot (sm_scope m) (SourceCluster target) = Some sn"
    and "sn_synced sn" and "\<not> sn_forbidden sn" and "map_get (sn_labels sn) n = None"
  shows "fst (ResolveSourceNamespace am m target n) = SourceScopeAdmitted \<and>
         n \<notin> set (fst (fst (EnumerateSourceNamespaces am m target)))"
proof
  show "fst (ResolveSourceNamespace am m target n) = SourceScopeAdmitted"
    using assms by (simp add: ResolveSourceNamespace_verdict resolve_verdict_def Matches_eq
        SelectorAdmits_def matcher_simps)
  have sel: "selected_names am (gt_AllowedSourceNamespaces target) ls = Inr (map fst ls)" for ls
    by (induction ls) (auto simp: SelectorAdmits_def assms(1,2))
  have "fst (fst (EnumerateSourceNamespaces am m target)) = sort (map fst (sn_labels sn))"
    using assms(3-5) by (simp add: EnumerateSourceNamespaces_def Let_def unusableSnapshot_def snapshot_def
        sourceScopeClusterID_def sel)
  with assms(6) show "n \<notin> set (fst (fst (EnumerateSourceNamespaces am m target)))"
    by (simp add: map_of_eq_None_iff)
qed

section \<open>References and keys\<close>

text \<open>
  the key of a GitTarget reference is read back. For a namespace without a slash,
  reconstructing the reference from its key gives the same name and namespace.
\<close>

theorem reference_key_roundtrip:
  assumes "CHR ''/'' \<notin> set (rr_Namespace r)"
  shows "rr_Equal (resourceReferenceFromKey (rr_Key r)) r"
proof -
  have "takeWhile (\<lambda>c. c \<noteq> CHR ''/'') (rr_Namespace r @ CHR ''/'' # rr_Name r) = rr_Namespace r"
    using assms by (simp add: takeWhile_tail) (metis takeWhile_append2 takeWhile_eq_all_conv)
  moreover have "dropWhile (\<lambda>c. c \<noteq> CHR ''/'') (rr_Namespace r @ CHR ''/'' # rr_Name r) = CHR ''/'' # rr_Name r"
    using assms by (simp add: dropWhile_append)
  ultimately show ?thesis
    by (simp add: resourceReferenceFromKey_def rr_Key_def rr_String_def cut_def rr_Equal_def
        NewResourceReference_def)
qed

end
