(* ===== verification/Rule_Compile.thy ===== *)
theory Rule_Compile
  imports Rule_Store Source_Scope
begin

text \<open>
  The gated path from a WatchRule or ClusterWatchRule to a compiled rule
  (src/internal/watch/watchrule_compile.go), the seeding of the store at startup
  (src/internal/watch/bootstrap.go) and the removal of a deleted WatchRule
  (src/internal/controller/watchrule_controller.go).

  The state is the pair of the rule store and the watch manager. The argument \<open>wired\<close> says whether the
  source-scope service is present (the manager) or nil. Errors of the API reader are values; the
  prose of error messages is left out. The watch manager's replanning after a change is not modelled.
\<close>

section \<open>State\<close>

record GitProvider =
  gp_Name :: string
  gp_Namespace :: string

record rule_plane =
  rp_store :: RuleStore
  rp_manager :: Manager

definition rule_key :: "WatchRule \<Rightarrow> NamespacedName" where
  "rule_key rule = \<lparr> nn_Namespace = wr_Namespace rule, nn_Name = wr_Name rule \<rparr>"

section \<open>Compiling a WatchRule\<close>

definition itemNamespaces :: "ResolvedSourceScope \<Rightarrow> string list list" where
  "itemNamespaces resolved = map sd_Namespaces (ss_Items resolved)"

definition retainsScope :: "bool \<Rightarrow> Manager \<Rightarrow> NamespacedName \<Rightarrow> string \<Rightarrow> bool" where
  "retainsScope wired m rule specHash =
     (if \<not> wired then False else RetainedSourceScope m rule specHash \<noteq> None)"

definition resolverOf :: "apimachinery \<Rightarrow> bool \<Rightarrow> Manager SourceNamespaceResolver option" where
  "resolverOf am wired = (if \<not> wired then None else Some (scope_resolver am))"

definition CompileWatchRule ::
  "apimachinery \<Rightarrow> Reader \<Rightarrow> bool \<Rightarrow> WatchRule \<Rightarrow> GitTarget \<Rightarrow> GitProvider \<Rightarrow> rule_plane
    \<Rightarrow> (string + ResolvedSourceScope) \<times> rule_plane"
where
  "CompileWatchRule am reader wired rule target provider p =
     (let key = rule_key rule;
          specHash = SourceScopeSpecHash rule;
          (res, m) = ResolveWatchRuleSourceScope am reader rule target (resolverOf am wired) (rp_manager p);
          p = p\<lparr> rp_manager := m \<rparr>
      in case res of
           Inl err \<Rightarrow> (Inl err, p)
         | Inr resolved \<Rightarrow>
             if ss_Admitted resolved then
               (let namespaces = itemNamespaces resolved;
                    s = AddOrUpdateWatchRule (rp_store p) rule namespaces
                          (gt_Name target) (gt_Namespace target)
                          (gp_Name provider) (gp_Namespace provider)
                          (gt_Branch target) (gt_Path target)
                in (Inr resolved,
                    p\<lparr> rp_store := s,
                       rp_manager := (if wired then RecordSourceScopeGrant m key specHash namespaces else m) \<rparr>))
             else if ss_Verdict resolved = SourceScopeUnavailable \<and> retainsScope wired m key specHash then
               (Inr (resolved\<lparr> ss_Verdict := SourceScopeUnknown \<rparr>), p)
             else if ss_Terminal resolved then
               (Inr resolved,
                p\<lparr> rp_store := DeleteWatchRule (rp_store p) key,
                   rp_manager := (if wired then ForgetSourceScopeGrant m key else m) \<rparr>)
             else (Inr resolved, p))"

section \<open>Compiling a ClusterWatchRule\<close>

definition ClusterWatchRuleReasonGitTargetNamespaceNotAuthorized :: string where
  "ClusterWatchRuleReasonGitTargetNamespaceNotAuthorized = ''GitTargetNamespaceNotAuthorized''"

definition ClusterWatchRuleReasonScopeNotSupported :: string where
  "ClusterWatchRuleReasonScopeNotSupported = ''ClusterScopeOnly''"

record ClusterWatchRuleDecision =
  cwd_Admitted :: bool
  cwd_Reason :: string

definition CompileClusterWatchRule ::
  "apimachinery \<Rightarrow> Reader \<Rightarrow> ClusterWatchRule \<Rightarrow> GitTarget \<Rightarrow> GitProvider \<Rightarrow> RuleStore
    \<Rightarrow> (string + ClusterWatchRuleDecision) \<times> RuleStore"
where
  "CompileClusterWatchRule am reader rule target provider s =
     (let key = \<lparr> nn_Namespace = [], nn_Name = cwr_Name rule \<rparr> in
      case GitTargetAdmitted am reader target of
        Inl err \<Rightarrow> (Inl err, s)
      | Inr admitted \<Rightarrow>
          if \<not> de_Allowed admitted then
            (Inr \<lparr> cwd_Admitted = False,
                   cwd_Reason = ClusterWatchRuleReasonGitTargetNamespaceNotAuthorized \<rparr>,
             DeleteClusterWatchRule s key)
          else if DeclaresNamespacedScope rule then
            (Inr \<lparr> cwd_Admitted = False, cwd_Reason = ClusterWatchRuleReasonScopeNotSupported \<rparr>,
             DeleteClusterWatchRule s key)
          else
            (Inr \<lparr> cwd_Admitted = True, cwd_Reason = [] \<rparr>,
             AddOrUpdateClusterWatchRule s rule (gt_Name target) (gt_Namespace target)
               (gp_Name provider) (gp_Namespace provider) (gt_Branch target) (gt_Path target)))"

section \<open>Removing a deleted WatchRule\<close>

definition reconcile_deleted :: "bool \<Rightarrow> NamespacedName \<Rightarrow> rule_plane \<Rightarrow> rule_plane" where
  "reconcile_deleted wired key p =
     p\<lparr> rp_store := DeleteWatchRule (rp_store p) key,
        rp_manager := (if wired then ForgetSourceScopeGrant (rp_manager p) key else rp_manager p) \<rparr>"

section \<open>Startup\<close>

text \<open>The further reads of the startup pass.\<close>

record Client =
  cl_GitTarget :: "NamespacedName \<Rightarrow> ReadError + GitTarget"
  cl_GitProvider :: "NamespacedName \<Rightarrow> ReadError + GitProvider"
  cl_WatchRules :: "string + WatchRule list"
  cl_ClusterWatchRules :: "string + ClusterWatchRule list"

datatype bootstrap_error =
    ResolvingGitTarget ReadError
  | ResolvingGitProvider ReadError
  | EvaluatingAuthorization string
  | NotAuthorized
  | ListingRules string

definition resolveTargetAndProvider ::
  "Client \<Rightarrow> NamespacedName \<Rightarrow> bootstrap_error + GitTarget \<times> GitProvider" where
  "resolveTargetAndProvider cl targetKey =
     (case cl_GitTarget cl targetKey of
        Inl err \<Rightarrow> Inl (ResolvingGitTarget err)
      | Inr target \<Rightarrow>
          (case cl_GitProvider cl \<lparr> nn_Namespace = gt_Namespace target, nn_Name = gt_ProviderRef target \<rparr> of
             Inl err \<Rightarrow> Inl (ResolvingGitProvider err)
           | Inr provider \<Rightarrow> Inr (target, provider)))"

definition bootstrapWatchRule ::
  "apimachinery \<Rightarrow> Reader \<Rightarrow> Client \<Rightarrow> WatchRule \<Rightarrow> rule_plane \<Rightarrow> bootstrap_error option \<times> rule_plane"
where
  "bootstrapWatchRule am reader cl rule p =
     (case resolveTargetAndProvider cl
             \<lparr> nn_Namespace = wr_Namespace rule, nn_Name = wr_TargetRef rule \<rparr> of
        Inl err \<Rightarrow> (Some err, p)
      | Inr (target, provider) \<Rightarrow>
          (case CompileWatchRule am reader True rule target provider p of
             (Inl err, p) \<Rightarrow> (Some (EvaluatingAuthorization err), p)
           | (Inr resolved, p) \<Rightarrow> (if \<not> ss_Admitted resolved then Some NotAuthorized else None, p)))"

definition bootstrapClusterWatchRule ::
  "apimachinery \<Rightarrow> Reader \<Rightarrow> Client \<Rightarrow> ClusterWatchRule \<Rightarrow> rule_plane \<Rightarrow> bootstrap_error option \<times> rule_plane"
where
  "bootstrapClusterWatchRule am reader cl rule p =
     (case resolveTargetAndProvider cl
             \<lparr> nn_Namespace = cwr_TargetNamespace rule, nn_Name = cwr_TargetName rule \<rparr> of
        Inl err \<Rightarrow> (Some err, p)
      | Inr (target, provider) \<Rightarrow>
          (case CompileClusterWatchRule am reader rule target provider (rp_store p) of
             (Inl err, s) \<Rightarrow> (Some (EvaluatingAuthorization err), p\<lparr> rp_store := s \<rparr>)
           | (Inr decision, s) \<Rightarrow>
               (if \<not> cwd_Admitted decision then Some NotAuthorized else None, p\<lparr> rp_store := s \<rparr>)))"

text \<open>The error of a single rule is logged and the loop goes on.\<close>

definition bootstrapRuleStore ::
  "apimachinery \<Rightarrow> Reader \<Rightarrow> Client \<Rightarrow> rule_plane \<Rightarrow> bootstrap_error option \<times> rule_plane" where
  "bootstrapRuleStore am reader cl p =
     (case cl_WatchRules cl of
        Inl err \<Rightarrow> (Some (ListingRules err), p)
      | Inr rules \<Rightarrow>
          (let p = fold (\<lambda>rule p. snd (bootstrapWatchRule am reader cl rule p)) rules p in
           case cl_ClusterWatchRules cl of
             Inl err \<Rightarrow> (Some (ListingRules err), p)
           | Inr crules \<Rightarrow>
               (let p = fold (\<lambda>rule p. snd (bootstrapClusterWatchRule am reader cl rule p)) crules p
                in (None, p\<lparr> rp_store := MarkReady (rp_store p) \<rparr>))))"

section \<open>Outcomes of a compilation\<close>

lemma ResolveWatchRuleSourceScope_grants:
  "sc_grants (sm_scope (snd (ResolveWatchRuleSourceScope am reader rule target (resolverOf am wired) m))) =
   sc_grants (sm_scope m)"
  by (rule scope_grants.gate_keeps [of _ am]) (auto simp: resolverOf_def)

abbreviation grants_of :: "rule_plane \<Rightarrow> (NamespacedName, sourceScopeGrant) gomap" where
  "grants_of p \<equiv> sc_grants (sm_scope (rp_manager p))"

abbreviation rules_of :: "rule_plane \<Rightarrow> (NamespacedName, CompiledRule) gomap" where
  "rules_of p \<equiv> rs_rules (rp_store p)"

definition compiled_for ::
  "WatchRule \<Rightarrow> GitTarget \<Rightarrow> GitProvider \<Rightarrow> ResolvedSourceScope \<Rightarrow> CompiledRule" where
  "compiled_for rule target provider resolved =
     compile_rule rule (itemNamespaces resolved) (gt_Name target) (gt_Namespace target)
       (gp_Name provider) (gp_Namespace provider) (gt_Branch target) (gt_Path target)"

lemmas grant_ops = RecordSourceScopeGrant_def ForgetSourceScopeGrant_def

text \<open>The four outcomes, with the stored rules and the granted scopes after each.\<close>

lemma CompileWatchRule_cases:
  obtains
    (failed) err m where
      "CompileWatchRule am reader wired rule target provider p = (Inl err, p\<lparr> rp_manager := m \<rparr>)"
      "sc_grants (sm_scope m) = grants_of p"
  | (admitted) resolved m p' where
      "CompileWatchRule am reader wired rule target provider p = (Inr resolved, p')"
      "ss_Verdict resolved = SourceScopeAdmitted"
      "ResolveWatchRuleSourceScope am reader rule target (resolverOf am wired) (rp_manager p) = (Inr resolved, m)"
      "rp_store p' = (rp_store p)\<lparr> rs_rules :=
         map_put (rule_key rule) (compiled_for rule target provider resolved) (rules_of p) \<rparr>"
      "grants_of p' = (if wired then map_put (rule_key rule)
           \<lparr> sg_specHash = SourceScopeSpecHash rule, sg_namespaces = itemNamespaces resolved \<rparr> (grants_of p)
         else grants_of p)"
  | (held) resolved m where
      "CompileWatchRule am reader wired rule target provider p = (Inr resolved, p\<lparr> rp_manager := m \<rparr>)"
      "ss_Verdict resolved = SourceScopeUnknown" "sc_grants (sm_scope m) = grants_of p"
  | (refused) resolved p' where
      "CompileWatchRule am reader wired rule target provider p = (Inr resolved, p')"
      "ss_Verdict resolved = SourceScopeDenied \<or> ss_Verdict resolved = SourceScopeUnavailable"
      "rp_store p' = (rp_store p)\<lparr> rs_rules := map_del (rule_key rule) (rules_of p) \<rparr>"
      "grants_of p' = (if wired then map_del (rule_key rule) (grants_of p) else grants_of p)"
proof -
  obtain res m where r: "ResolveWatchRuleSourceScope am reader rule target (resolverOf am wired) (rp_manager p) = (res, m)"
    by fastforce
  then have g: "sc_grants (sm_scope m) = grants_of p"
    using ResolveWatchRuleSourceScope_grants [of am reader rule target wired "rp_manager p"] by simp
  show ?thesis
  proof (cases res)
    case (Inl err)
    with r g failed [of err m] show ?thesis by (simp add: CompileWatchRule_def)
  next
    case (Inr resolved)
    show ?thesis
    proof (cases "ss_Verdict resolved")
      case SourceScopeUnknown
      with r Inr g held [of resolved m] show ?thesis
        by (simp add: CompileWatchRule_def ss_Admitted_def ss_Terminal_def Let_def)
    next
      case SourceScopeAdmitted
      with r Inr g admitted [of resolved _ m] show ?thesis
        by (simp add: CompileWatchRule_def ss_Admitted_def Let_def AddOrUpdateWatchRule_def compiled_for_def
            rule_key_def grant_ops)
    next
      case SourceScopeDenied
      with r Inr g refused [of resolved] show ?thesis
        by (simp add: CompileWatchRule_def ss_Admitted_def ss_Terminal_def Let_def DeleteWatchRule_def grant_ops)
    next
      case SourceScopeUnavailable
      show ?thesis
      proof (cases "retainsScope wired m (rule_key rule) (SourceScopeSpecHash rule)")
        case True
        with SourceScopeUnavailable r Inr g held [of "resolved\<lparr> ss_Verdict := SourceScopeUnknown \<rparr>" m]
        show ?thesis by (simp add: CompileWatchRule_def ss_Admitted_def Let_def)
      next
        case False
        with SourceScopeUnavailable r Inr g refused [of resolved] show ?thesis
          by (simp add: CompileWatchRule_def ss_Admitted_def ss_Terminal_def Let_def DeleteWatchRule_def grant_ops)
      qed
    qed
  qed
qed

text \<open>
  C3: what a compilation does to the running system. On a read error or while the answer is unknown
  (including an unevaluatable policy on a rule whose scope was granted for the same request) no
  stored rule and no grant changes; on an admitted verdict exactly this rule is replaced, with the
  resolved namespaces of each item, and the grant is recorded under its hash; on a refusal the rule
  and its grant are gone. Other rules are never touched.
\<close>

theorem CompileWatchRule_outcomes:
  "case CompileWatchRule am reader True rule target provider p of
     (Inl err, p') \<Rightarrow> rp_store p' = rp_store p \<and> grants_of p' = grants_of p
   | (Inr resolved, p') \<Rightarrow>
       rs_clusterRules (rp_store p') = rs_clusterRules (rp_store p) \<and>
       GetWatchRule (rp_store p') = (case ss_Verdict resolved of
           SourceScopeUnknown \<Rightarrow> GetWatchRule (rp_store p)
         | SourceScopeAdmitted \<Rightarrow> (GetWatchRule (rp_store p))
             (rule_key rule \<mapsto> compiled_for rule target provider resolved)
         | SourceScopeDenied \<Rightarrow> (GetWatchRule (rp_store p))(rule_key rule := None)
         | SourceScopeUnavailable \<Rightarrow> (GetWatchRule (rp_store p))(rule_key rule := None)) \<and>
       RetainedSourceScope (rp_manager p') (rule_key rule) (SourceScopeSpecHash rule) =
         (case ss_Verdict resolved of
            SourceScopeUnknown \<Rightarrow> RetainedSourceScope (rp_manager p) (rule_key rule) (SourceScopeSpecHash rule)
          | SourceScopeAdmitted \<Rightarrow> Some (itemNamespaces resolved)
          | SourceScopeDenied \<Rightarrow> None
          | SourceScopeUnavailable \<Rightarrow> None)"
  by (rule CompileWatchRule_cases [of am reader True rule target provider p])
    (auto simp: GetWatchRule_eq fun_eq_iff al.lookup_put al.lookup_del RetainedSourceScope_def)

section \<open>Runs\<close>

datatype plane_op =
    PCompile Reader WatchRule GitTarget GitProvider
  | PCompileCluster Reader ClusterWatchRule GitTarget GitProvider
  | PDeleted NamespacedName
  | PRefresh "string \<Rightarrow> ListResult"
  | PReady

fun plane_step :: "apimachinery \<Rightarrow> rule_plane \<Rightarrow> plane_op \<Rightarrow> rule_plane" where
  "plane_step am p (PCompile reader rule target provider) =
     snd (CompileWatchRule am reader True rule target provider p)"
| "plane_step am p (PCompileCluster reader rule target provider) =
     p\<lparr> rp_store := snd (CompileClusterWatchRule am reader rule target provider (rp_store p)) \<rparr>"
| "plane_step am p (PDeleted key) = reconcile_deleted True key p"
| "plane_step am p (PRefresh listing) =
     p\<lparr> rp_manager := refreshSourceNamespaceScopes listing (rp_manager p) \<rparr>"
| "plane_step am p PReady = p\<lparr> rp_store := MarkReady (rp_store p) \<rparr>"

definition plane_start :: "Manager \<Rightarrow> rule_plane" where
  "plane_start m = \<lparr> rp_store = NewStore, rp_manager = m\<lparr> sm_scope := sourceScope0 \<rparr> \<rparr>"

text \<open>The memory of grants and the compiled rules agree, rule by rule and item by item.\<close>

definition grant_matches :: "sourceScopeGrant \<Rightarrow> CompiledRule \<Rightarrow> bool" where
  "grant_matches g c = (map ci_SourceNamespaces (cr_ResourceRules c) = sg_namespaces g)"

definition plane_inv :: "rule_plane \<Rightarrow> bool" where
  "plane_inv p \<longleftrightarrow> store_inv (rp_store p) \<and>
     (\<forall>k. rel_option grant_matches (map_get (grants_of p) k) (map_get (rules_of p) k))"

lemma grants_refresh_one [simp]:
  "sc_grants (sm_scope (refresh_one listing c m)) = sc_grants (sm_scope m)"
  by (simp add: refresh_one_def store_def Let_def split: option.splits)

lemma grants_refresh [simp]:
  "sc_grants (sm_scope (refreshSourceNamespaceScopes listing m)) = sc_grants (sm_scope m)"
proof -
  have "sc_grants (sm_scope (fold (refresh_one listing) cs m)) = sc_grants (sm_scope m)" for cs
    by (induction cs arbitrary: m) auto
  then show ?thesis by (simp add: refreshSourceNamespaceScopes_def Let_def)
qed

lemma CompileClusterWatchRule_store:
  obtains "snd (CompileClusterWatchRule am reader rule target provider s) = s"
  | op where "snd (CompileClusterWatchRule am reader rule target provider s) = store_step s op"
      "rule_write op = None"
proof (cases "GitTargetAdmitted am reader target")
  case (Inl e)
  then show ?thesis using that(1) by (simp add: CompileClusterWatchRule_def)
next
  case (Inr a)
  let ?add = "OpAddCluster rule (gt_Name target) (gt_Namespace target) (gp_Name provider)
      (gp_Namespace provider) (gt_Branch target) (gt_Path target)"
  let ?del = "OpDeleteCluster \<lparr> nn_Namespace = [], nn_Name = cwr_Name rule \<rparr>"
  show ?thesis
    using Inr that(2) [of ?add] that(2) [of ?del]
    by (cases "de_Allowed a"; cases "DeclaresNamespacedScope rule")
      (simp_all add: CompileClusterWatchRule_def Let_def)
qed

lemma rules_frame: "rule_write op = None \<Longrightarrow> rs_rules (store_step s op) = rs_rules s"
  by (cases op) (simp_all add: store_ops Let_def)

lemma grant_matches_compiled:
  assumes "ResolveWatchRuleSourceScope am reader rule target (resolverOf am True) m = (Inr resolved, m')"
  shows "grant_matches \<lparr> sg_specHash = h, sg_namespaces = itemNamespaces resolved \<rparr>
           (compiled_for rule target provider resolved)"
proof -
  have "length (ss_Items resolved) = length (wr_Rules rule)"
    using scope_items [of am reader rule target m resolved m'] assms
    by (auto simp: resolverOf_def dest: list_all2_lengthD)
  then show ?thesis
    by (simp add: grant_matches_def compiled_for_def compile_rule_def itemNamespaces_def compile_items_namespaces)
qed

lemma store_inv_put_rule:
  assumes "store_inv s"
  shows "store_inv (s\<lparr> rs_rules := map_put (rule_key rule) (compiled_for rule target provider resolved) (rs_rules s) \<rparr>)"
  using store_inv_step [OF assms, of "OpAdd rule (itemNamespaces resolved) (gt_Name target) (gt_Namespace target)
      (gp_Name provider) (gp_Namespace provider) (gt_Branch target) (gt_Path target)"]
  by (simp add: AddOrUpdateWatchRule_def Let_def rule_key_def compiled_for_def)

lemma store_inv_del_rule: "store_inv s \<Longrightarrow> store_inv (s\<lparr> rs_rules := map_del k (rs_rules s) \<rparr>)"
  using store_inv_step [of s "OpDelete k"] by (simp add: DeleteWatchRule_def)

lemma plane_inv_compile:
  assumes "plane_inv p"
  shows "plane_inv (snd (CompileWatchRule am reader True rule target provider p))"
proof (rule CompileWatchRule_cases [of am reader True rule target provider p])
  fix resolved m p'
  assume a: "CompileWatchRule am reader True rule target provider p = (Inr resolved, p')"
    "ResolveWatchRuleSourceScope am reader rule target (resolverOf am True) (rp_manager p) = (Inr resolved, m)"
    "rp_store p' = (rp_store p)\<lparr> rs_rules :=
       map_put (rule_key rule) (compiled_for rule target provider resolved) (rules_of p) \<rparr>"
    "grants_of p' = (if True then map_put (rule_key rule)
         \<lparr> sg_specHash = SourceScopeSpecHash rule, sg_namespaces = itemNamespaces resolved \<rparr> (grants_of p)
       else grants_of p)"
  with assms grant_matches_compiled [OF a(2)] show ?thesis
    by (auto simp: plane_inv_def al.lookup_put intro: store_inv_put_rule)
next
  fix resolved p'
  assume "CompileWatchRule am reader True rule target provider p = (Inr resolved, p')"
    "rp_store p' = (rp_store p)\<lparr> rs_rules := map_del (rule_key rule) (rules_of p) \<rparr>"
    "grants_of p' = (if True then map_del (rule_key rule) (grants_of p) else grants_of p)"
  with assms show ?thesis
    by (auto simp: plane_inv_def al.lookup_del intro: store_inv_del_rule)
qed (use assms in \<open>auto simp: plane_inv_def\<close>)

lemma plane_inv_step: "plane_inv p \<Longrightarrow> plane_inv (plane_step am p op)"
proof (cases op)
  case (PCompile reader rule target provider)
  assume "plane_inv p"
  with PCompile show ?thesis by (simp add: plane_inv_compile)
next
  case (PCompileCluster reader rule target provider)
  assume inv: "plane_inv p"
  show ?thesis
    by (rule CompileClusterWatchRule_store [of am reader rule target provider "rp_store p"])
      (use inv in \<open>auto simp: PCompileCluster plane_inv_def rules_frame intro: store_inv_step\<close>)
next
  case (PDeleted key)
  assume "plane_inv p"
  with PDeleted show ?thesis
    by (auto simp: plane_inv_def reconcile_deleted_def DeleteWatchRule_def ForgetSourceScopeGrant_def
        al.lookup_del intro: store_inv_del_rule)
next
  case (PRefresh listing)
  assume "plane_inv p"
  with PRefresh show ?thesis by (simp add: plane_inv_def)
next
  case PReady
  assume "plane_inv p"
  with PReady store_inv_step [of "rp_store p" OpMarkReady] show ?thesis
    by (auto simp: plane_inv_def MarkReady_def)
qed

interpretation plane: state_machine "plane_step am" plane_inv "plane_start m"
  for am m
proof
  show "plane_inv (plane_start m)"
    by (simp add: plane_inv_def plane_start_def sourceScope0_def store_inv_start) (simp add: NewStore_def)
qed (rule plane_inv_step)

text \<open>
  C4: in every run, the memory of granted scopes and the compiled rules agree: a rule has a grant
  exactly when it is compiled, and the grant is the namespaces its compiled items watch. So retaining
  a granted scope never describes streams other than the running ones.
\<close>

theorem grants_agree_with_rules:
  "rel_option grant_matches
     (map_get (grants_of (foldl (plane_step am) (plane_start m) ops)) k)
     (map_get (rules_of (foldl (plane_step am) (plane_start m) ops)) k)"
  using plane.inv_run [of am m ops] by (simp add: plane_inv_def)

section \<open>Every delivered event was authorized\<close>

text \<open>Where a compiled rule comes from: the compilation that was admitted, in the state it ran in.\<close>

definition admitted_from ::
  "apimachinery \<Rightarrow> Manager \<Rightarrow> plane_op list \<Rightarrow> CompiledRule \<Rightarrow> bool" where
  "admitted_from am m ops c \<longleftrightarrow>
     (\<exists>pre post reader rule target provider resolved m'.
        ops = pre @ PCompile reader rule target provider # post \<and>
        ResolveWatchRuleSourceScope am reader rule target (Some (scope_resolver am))
          (rp_manager (foldl (plane_step am) (plane_start m) pre)) = (Inr resolved, m') \<and>
        ss_Verdict resolved = SourceScopeAdmitted \<and>
        c = compiled_for rule target provider resolved)"

lemma admitted_from_snoc: "admitted_from am m ops c \<Longrightarrow> admitted_from am m (ops @ [e]) c"
  unfolding admitted_from_def by (metis append.assoc append_Cons)

lemma stored_after_step:
  assumes "map_get (rules_of (plane_step am p e)) k = Some c" and "map_get (rules_of p) k \<noteq> Some c"
  shows "\<exists>reader rule target provider resolved m'. e = PCompile reader rule target provider \<and>
     ResolveWatchRuleSourceScope am reader rule target (Some (scope_resolver am)) (rp_manager p) = (Inr resolved, m') \<and>
     ss_Verdict resolved = SourceScopeAdmitted \<and> c = compiled_for rule target provider resolved"
proof (cases e)
  case (PCompile reader rule target provider)
  show ?thesis
  proof (rule CompileWatchRule_cases [of am reader True rule target provider p])
    fix resolved m p'
    assume "CompileWatchRule am reader True rule target provider p = (Inr resolved, p')"
      "ss_Verdict resolved = SourceScopeAdmitted"
      "ResolveWatchRuleSourceScope am reader rule target (resolverOf am True) (rp_manager p) = (Inr resolved, m)"
      "rp_store p' = (rp_store p)\<lparr> rs_rules :=
         map_put (rule_key rule) (compiled_for rule target provider resolved) (rules_of p) \<rparr>"
    with assms PCompile show ?thesis
      by (auto simp: resolverOf_def al.lookup_put split: if_splits)
  qed (use assms PCompile in \<open>auto simp: al.lookup_del split: if_splits\<close>)
next
  case (PCompileCluster reader rule target provider)
  show ?thesis
    by (rule CompileClusterWatchRule_store [of am reader rule target provider "rp_store p"])
      (use assms PCompileCluster in \<open>auto simp: rules_frame\<close>)
qed (use assms in \<open>auto simp: reconcile_deleted_def DeleteWatchRule_def MarkReady_def al.lookup_del
      split: if_splits\<close>)

lemma stored_rules_admitted:
  "map_get (rules_of (foldl (plane_step am) (plane_start m) ops)) k = Some c \<Longrightarrow> admitted_from am m ops c"
proof (induction ops rule: rev_induct)
  case Nil
  then show ?case by (simp add: plane_start_def NewStore_def)
next
  case (snoc e ops)
  let ?p = "foldl (plane_step am) (plane_start m) ops"
  show ?case
  proof (cases "map_get (rules_of ?p) k = Some c")
    case True
    with snoc.IH show ?thesis by (blast intro: admitted_from_snoc)
  next
    case False
    with stored_after_step [of am ?p e k c] snoc.prems
    obtain reader rule target provider resolved m' where
      "ops @ [e] = ops @ PCompile reader rule target provider # []"
      "ResolveWatchRuleSourceScope am reader rule target (Some (scope_resolver am)) (rp_manager ?p) = (Inr resolved, m')"
      "ss_Verdict resolved = SourceScopeAdmitted" "c = compiled_for rule target provider resolved"
      by auto
    then show ?thesis unfolding admitted_from_def by blast
  qed
qed

lemma compiled_item_namespace:
  assumes "i \<in> set (cr_ResourceRules (compiled_for rule target provider resolved))"
    and "ns \<in> set (ci_SourceNamespaces i)"
  shows "\<exists>j < length (wr_Rules rule). ns \<in> set (NamespacesFor resolved (int j))
     \<and> i = cr_ResourceRules (compiled_for rule target provider resolved) ! j"
proof -
  from assms(1) obtain j where j: "j < length (wr_Rules rule)"
    "i = compile_items (wr_Rules rule) (itemNamespaces resolved) ! j"
    by (auto simp: compiled_for_def compile_rule_def in_set_conv_nth)
  with assms(2) have "j < length (ss_Items resolved)" "ns \<in> set (sd_Namespaces (ss_Items resolved ! j))"
    by (auto simp: compile_items_nth compile_item_def itemNamespaces_def split: if_splits)
  with j show ?thesis by (intro exI [of _ j]) (simp add: NamespacesFor_def compiled_for_def compile_rule_def)
qed

lemma admitted_item_grant:
  assumes "ResolveWatchRuleSourceScope am reader rule target (Some (scope_resolver am)) m = (Inr s, m')"
    and "ss_Verdict s = SourceScopeAdmitted" and "j < length (wr_Rules rule)"
  shows "set (NamespacesFor s (int j)) =
     item_grant am reader (scope_admits am m target) (scope_selects am m target) rule target (wr_Rules rule ! j)"
proof -
  note agg = scope_items [OF assms(1)]
  have len: "length (ss_Items s) = length (wr_Rules rule)"
    using agg list_all2_lengthD by fastforce
  have "sd_Verdict (ss_Items s ! j) = SourceScopeAdmitted"
    using aggregate_admitted [of "ss_Items s" "ss_Items s ! j"] agg len assms(2,3) by simp
  with faithful_items [OF assms(1,3)] assms(3) show ?thesis
    by (simp add: scope.faithful_def NamespacesFor_def)
qed

text \<open>
  C1: no event is delivered without authorization. In every run of compilations, deletions and
  refreshes from startup, if a namespaced event matches a stored WatchRule then the stored rule is what
  an earlier compilation stored whose scope was admitted, the item that selects the event is one of the
  rule's items, and the event's namespace was among the namespaces that very item was entitled to when
  that compilation ran.
\<close>

theorem delivery_authorized:
  assumes "c \<in> set (GetMatchingRules (rp_store (foldl (plane_step am) (plane_start m) ops)) (Some ns) r op g v False)"
    and "ns \<noteq> []"
  shows "\<exists>pre reader rule target provider post resolved m' j.
     ops = pre @ PCompile reader rule target provider # post \<and> cr_Source c = rule_key rule \<and>
     ResolveWatchRuleSourceScope am reader rule target (Some (scope_resolver am))
       (rp_manager (foldl (plane_step am) (plane_start m) pre)) = (Inr resolved, m') \<and>
     ss_Verdict resolved = SourceScopeAdmitted \<and> c = compiled_for rule target provider resolved \<and>
     j < length (wr_Rules rule) \<and> item_selects (cr_ResourceRules c ! j) ns r op g v \<and>
     ns \<in> item_grant am reader
            (scope_admits am (rp_manager (foldl (plane_step am) (plane_start m) pre)) target)
            (scope_selects am (rp_manager (foldl (plane_step am) (plane_start m) pre)) target)
            rule target (wr_Rules rule ! j)"
proof -
  let ?p = "foldl (plane_step am) (plane_start m) ops"
  from assms(1) obtain i where c: "c \<in> snd ` set (rules_of ?p)" "i \<in> set (cr_ResourceRules c)"
    and sel: "item_selects i ns r op g v"
    by (auto simp: GetMatchingRules_def cr_matches_def list_ex_iff ci_matches_iff)
  with assms(2) have ns: "ns \<in> set (ci_SourceNamespaces i)" by (simp add: item_selects_def)
  have "store_inv (rp_store ?p)" using plane.inv_run [of am m ops] by (simp add: plane_inv_def)
  with c(1) have "map_get (rules_of ?p) (cr_Source c) = Some c" by (simp add: rules_of_inv)
  then have "admitted_from am m ops c" by (rule stored_rules_admitted)
  then obtain pre post reader rule target provider resolved m' where
    ops: "ops = pre @ PCompile reader rule target provider # post" and
    res: "ResolveWatchRuleSourceScope am reader rule target (Some (scope_resolver am))
        (rp_manager (foldl (plane_step am) (plane_start m) pre)) = (Inr resolved, m')"
      "ss_Verdict resolved = SourceScopeAdmitted" and
    c': "c = compiled_for rule target provider resolved"
    unfolding admitted_from_def by blast
  from compiled_item_namespace [of i rule target provider resolved ns] c(2) c' ns
  obtain j where j: "j < length (wr_Rules rule)" "ns \<in> set (NamespacesFor resolved (int j))" "i = cr_ResourceRules c ! j" by auto
  have "cr_Source c = rule_key rule" by (simp add: c' compiled_for_def rule_key_def)
  with ops res c' j(1) sel [unfolded j(3)] admitted_item_grant [OF res j(1)] j(2) show ?thesis by blast
qed

definition ex_provider :: GitProvider where
  "ex_provider = \<lparr> gp_Name = ''git'', gp_Namespace = ''tenant'' \<rparr>"

definition ex_ops :: "plane_op list" where
  "ex_ops =
     [PCompile ex_reader ex_rule ex_target ex_provider,
      PRefresh (\<lambda>c. Listed [(''team-a'', [(''mirror'', ''yes'')]), (''team-b'', [])]),
      PCompile ex_reader ex_rule ex_target ex_provider]"

definition ex_compiled :: CompiledRule where
  "ex_compiled = compiled_for ex_rule ex_target ex_provider ex_scope"

theorem delivery_authorized_witness:
  "\<exists>pre reader rule target provider post resolved m' j.
     ex_ops = pre @ PCompile reader rule target provider # post \<and> cr_Source ex_compiled = rule_key rule \<and>
     ResolveWatchRuleSourceScope eq_selectors reader rule target (Some (scope_resolver eq_selectors))
       (rp_manager (foldl (plane_step eq_selectors) (plane_start ex_manager) pre)) = (Inr resolved, m') \<and>
     ss_Verdict resolved = SourceScopeAdmitted \<and> ex_compiled = compiled_for rule target provider resolved \<and>
     j < length (wr_Rules rule) \<and> item_selects (cr_ResourceRules ex_compiled ! j) ''team-a'' ''configmaps'' ''CREATE'' [] ''v1'' \<and>
     ''team-a'' \<in> item_grant eq_selectors reader
        (scope_admits eq_selectors (rp_manager (foldl (plane_step eq_selectors) (plane_start ex_manager) pre)) target)
        (scope_selects eq_selectors (rp_manager (foldl (plane_step eq_selectors) (plane_start ex_manager) pre)) target)
        rule target (wr_Rules rule ! j)"
proof (rule delivery_authorized)
  have "GetMatchingRules (rp_store (foldl (plane_step eq_selectors) (plane_start ex_manager) ex_ops))
      (Some ''team-a'') ''configmaps'' ''CREATE'' [] ''v1'' False = [ex_compiled]"
    by code_simp
  then show "ex_compiled \<in> set (GetMatchingRules
      (rp_store (foldl (plane_step eq_selectors) (plane_start ex_manager) ex_ops))
      (Some ''team-a'') ''configmaps'' ''CREATE'' [] ''v1'' False)"
    by simp
qed simp

section \<open>Retargeting a rule\<close>

text \<open>
  C39: retention ignores the target. A rule whose scope was granted and which is then edited to
  reference another GitTarget keeps, while that target's policy cannot be evaluated, its compiled form
  with the old destination: the grant of the old target is retained because the referenced target is
  no part of the hash the grant is stored under.
\<close>

theorem retarget_keeps_old_destination:
  assumes "RetainedSourceScope (rp_manager p) (rule_key rule) (SourceScopeSpecHash rule) = Some nss"
    and "fst (ResolveWatchRuleSourceScope am reader (rule\<lparr> wr_TargetRef := t \<rparr>) target'
               (resolverOf am True) (rp_manager p)) = Inr s"
    and "ss_Verdict s = SourceScopeUnavailable"
  shows "rp_store (snd (CompileWatchRule am reader True (rule\<lparr> wr_TargetRef := t \<rparr>) target' provider p)) =
         rp_store p"
proof -
  let ?rule = "rule\<lparr> wr_TargetRef := t \<rparr>"
  obtain m where m: "ResolveWatchRuleSourceScope am reader ?rule target' (resolverOf am True) (rp_manager p) = (Inr s, m)"
    using assms(2) by (metis prod.collapse)
  then have "sc_grants (sm_scope m) = grants_of p"
    using ResolveWatchRuleSourceScope_grants [of am reader ?rule target' True "rp_manager p"] by simp
  then have "retainsScope True m (rule_key ?rule) (SourceScopeSpecHash ?rule)"
    using assms(1) by (simp add: retainsScope_def RetainedSourceScope_def SourceScopeSpecHash_def rule_key_def)
  with m assms(3) show ?thesis
    by (simp add: CompileWatchRule_def ss_Admitted_def Let_def)
qed

definition ex_bad_target :: GitTarget where
  "ex_bad_target = ex_target\<lparr> gt_Name := ''other'', gt_AllowedSourceNamespaces :=
     Some \<lparr> nm_Names = [''*''], nm_Selector = None \<rparr> \<rparr>"

theorem retarget_keeps_old_destination_witness:
  "map_option cr_GitTargetRef (GetWatchRule (rp_store (snd (CompileWatchRule eq_selectors ex_reader True
     (ex_rule\<lparr> wr_TargetRef := ''other'' \<rparr>) ex_bad_target ex_provider
     (foldl (plane_step eq_selectors) (plane_start ex_manager) ex_ops)))) (rule_key ex_rule)) = Some ''target''"
proof -
  let ?p = "foldl (plane_step eq_selectors) (plane_start ex_manager) ex_ops"
  have "RetainedSourceScope (rp_manager ?p) (rule_key ex_rule) (SourceScopeSpecHash ex_rule) =
      Some [[''ops'', ''team-a'']]"
    by code_simp
  moreover have "fst (ResolveWatchRuleSourceScope eq_selectors ex_reader (ex_rule\<lparr> wr_TargetRef := ''other'' \<rparr>)
      ex_bad_target (resolverOf eq_selectors True) (rp_manager ?p)) =
      Inr \<lparr> ss_Items = [\<lparr> sd_Index = 0, sd_Requested = ''*'', sd_Namespaces = [],
              sd_Verdict = SourceScopeUnavailable, sd_Reason = ReasonSourceNamespacePolicyUnavailable \<rparr>],
            ss_Verdict = SourceScopeUnavailable, ss_Reason = ReasonSourceNamespacePolicyUnavailable \<rparr>"
    by code_simp
  ultimately have "rp_store (snd (CompileWatchRule eq_selectors ex_reader True
      (ex_rule\<lparr> wr_TargetRef := ''other'' \<rparr>) ex_bad_target ex_provider ?p)) = rp_store ?p"
    by (rule retarget_keeps_old_destination) simp
  moreover have "map_option cr_GitTargetRef (GetWatchRule (rp_store ?p) (rule_key ex_rule)) = Some ''target''"
    by code_simp
  ultimately show ?thesis by simp
qed

section \<open>Startup goes through the gate\<close>

lemma bootstrapWatchRule_gated:
  "\<exists>ops. PReady \<notin> set ops \<and> snd (bootstrapWatchRule am reader cl rule p) = foldl (plane_step am) p ops"
proof (cases "resolveTargetAndProvider cl \<lparr> nn_Namespace = wr_Namespace rule, nn_Name = wr_TargetRef rule \<rparr>")
  case (Inl e)
  then show ?thesis by (intro exI [of _ "[]"]) (simp add: bootstrapWatchRule_def)
next
  case (Inr tp)
  then show ?thesis
    by (intro exI [of _ "[PCompile reader rule (fst tp) (snd tp)]"])
      (auto simp: bootstrapWatchRule_def split: prod.splits sum.splits)
qed

lemma bootstrapClusterWatchRule_gated:
  "\<exists>ops. PReady \<notin> set ops \<and> snd (bootstrapClusterWatchRule am reader cl rule p) = foldl (plane_step am) p ops"
proof (cases "resolveTargetAndProvider cl
    \<lparr> nn_Namespace = cwr_TargetNamespace rule, nn_Name = cwr_TargetName rule \<rparr>")
  case (Inl e)
  then show ?thesis by (intro exI [of _ "[]"]) (simp add: bootstrapClusterWatchRule_def)
next
  case (Inr tp)
  then show ?thesis
    by (intro exI [of _ "[PCompileCluster reader rule (fst tp) (snd tp)]"])
      (auto simp: bootstrapClusterWatchRule_def split: prod.splits sum.splits)
qed

lemma fold_gated:
  assumes "\<And>x p. \<exists>ops. PReady \<notin> set ops \<and> f x p = foldl (plane_step am) p ops"
  shows "\<exists>ops. PReady \<notin> set ops \<and> fold f xs p = foldl (plane_step am) p ops"
proof (induction xs arbitrary: p)
  case Nil
  show ?case by (intro exI [of _ "[]"]) simp
next
  case (Cons x xs)
  obtain ops1 where 1: "PReady \<notin> set ops1" "f x p = foldl (plane_step am) p ops1" using assms by blast
  obtain ops2 where "PReady \<notin> set ops2" "fold f xs (f x p) = foldl (plane_step am) (f x p) ops2"
    using Cons.IH by blast
  with 1 show ?case by (intro exI [of _ "ops1 @ ops2"]) simp
qed

text \<open>
  startup has no path around the gate. Seeding the store has the effect of a sequence of gated
  compilations, so everything proved of runs holds from the first moment; the store is marked ready
  exactly when both lists of rules could be read.
\<close>

theorem bootstrap_is_gated:
  "\<exists>ops. snd (bootstrapRuleStore am reader cl p) = foldl (plane_step am) p ops \<and>
         (PReady \<in> set ops \<longleftrightarrow> fst (bootstrapRuleStore am reader cl p) = None)"
proof (cases "cl_WatchRules cl")
  case (Inl e)
  then show ?thesis by (intro exI [of _ "[]"]) (simp add: bootstrapRuleStore_def)
next
  case (Inr rules)
  obtain ops1 where 1: "PReady \<notin> set ops1"
    "fold (\<lambda>rule p. snd (bootstrapWatchRule am reader cl rule p)) rules p = foldl (plane_step am) p ops1"
    using fold_gated [of "\<lambda>rule p. snd (bootstrapWatchRule am reader cl rule p)"]
      bootstrapWatchRule_gated by blast
  show ?thesis
  proof (cases "cl_ClusterWatchRules cl")
    case (Inl e)
    with Inr 1 show ?thesis by (intro exI [of _ ops1]) (simp add: bootstrapRuleStore_def)
  next
    case crules: (Inr crules)
    obtain ops2 where 2: "PReady \<notin> set ops2"
      "fold (\<lambda>rule p. snd (bootstrapClusterWatchRule am reader cl rule p)) crules (foldl (plane_step am) p ops1) =
       foldl (plane_step am) (foldl (plane_step am) p ops1) ops2"
      using fold_gated [of "\<lambda>rule p. snd (bootstrapClusterWatchRule am reader cl rule p)"]
        bootstrapClusterWatchRule_gated by blast
    with Inr crules 1 show ?thesis
      by (intro exI [of _ "ops1 @ ops2 @ [PReady]"]) (simp add: bootstrapRuleStore_def Let_def)
  qed
qed

end
