(* ===== verification/Git_Path.thy ===== *)
theory Git_Path
  imports Resource_Identity Api_Types
begin

text \<open>
  Where a GitTarget writes and who owns a folder: the writer's path guard and default file placement
  (\<open>internal/git/git.go\<close>), and the overlap check of the GitTarget controller
  (\<open>internal/controller/gittarget_path_overlap.go\<close>, \<open>checkForConflicts\<close> of
  \<open>internal/controller/gittarget_controller.go\<close>).

  The two sides normalize a path by different code. The lemmas show that they agree on every path that
  passes the guard, so that the controller's overlap test is exactly "some file lies under both
  targets", and that of the targets of one branch at most one owner per file survives the check.
\<close>

section \<open>The writer's paths\<close>

text \<open>\<open>strings.Contains\<close> and \<open>strings.Trim\<close> for a cut set of one byte.\<close>

definition Contains :: "string \<Rightarrow> string \<Rightarrow> bool" where
  "Contains s sub = sublist sub s"

definition TrimChar :: "char \<Rightarrow> string \<Rightarrow> string" where
  "TrimChar c s = rev (dropWhile (\<lambda>x. x = c) (rev (dropWhile (\<lambda>x. x = c) s)))"

definition backslash :: char where
  "backslash = CHR 0x5C"

definition sanitizePath :: "string \<Rightarrow> string" where
  "sanitizePath base =
     (let trimmed = TrimSpace base in
      if trimmed = [] then []
      else if HasPrefix trimmed ''/'' \<or> backslash \<in> set trimmed then []
      else if Contains trimmed ''..'' then []
      else
        (let cleaned = TrimChar CHR ''/'' (Clean trimmed) in
         if cleaned = [] \<or> cleaned = ''.'' then [] else cleaned))"

definition IsValidTargetPath :: "string \<Rightarrow> bool" where
  "IsValidTargetPath p =
     (let trimmed = TrimSpace p in
      if trimmed = [] \<or> trimmed = ''.'' then True else sanitizePath trimmed \<noteq> [])"

definition normalizeBootstrapPath :: "string \<Rightarrow> string + string" where
  "normalizeBootstrapPath p =
     (let normalizedPath = sanitizePath p in
      if TrimSpace p \<noteq> [] \<and> normalizedPath = [] then Inl p else Inr normalizedPath)"

definition TrimSuffix :: "string \<Rightarrow> string \<Rightarrow> string" where
  "TrimSuffix s suf = (if HasSuffix s suf then take (length s - length suf) s else s)"

definition generateFilePath :: "ResourceIdentifier \<Rightarrow> SensitiveResourcePolicy \<Rightarrow> string" where
  "generateFilePath r sensitiveResources =
     (let defaultPath = ToGitPath r in
      if \<not> IsSensitive sensitiveResources (ri_Group r) (ri_Resource r) then defaultPath
      else if HasSuffix defaultPath ''.yaml'' then TrimSuffix defaultPath ''.yaml'' @ ''.sops.yaml''
      else defaultPath @ ''.sops.yaml'')"

section \<open>The controller's overlap check\<close>

definition normalizeGitTargetPath :: "string \<Rightarrow> string" where
  "normalizeGitTargetPath p = Clean (''/'' @ TrimSpace p)"

definition gitTargetPathIsAncestor :: "string \<Rightarrow> string \<Rightarrow> bool" where
  "gitTargetPathIsAncestor ancestor descendant =
     (if ancestor = descendant then False
      else if ancestor = ''/'' then True
      else HasPrefix descendant (ancestor @ ''/''))"

definition gitTargetPathsOverlap :: "string \<Rightarrow> string \<Rightarrow> bool" where
  "gitTargetPathsOverlap a b =
     (let na = normalizeGitTargetPath a; nb = normalizeGitTargetPath b in
      if na = nb then True
      else gitTargetPathIsAncestor na nb \<or> gitTargetPathIsAncestor nb na)"

definition gitTargetIdentityKey :: "GitTarget \<Rightarrow> string" where
  "gitTargetIdentityKey t = gt_Namespace t @ ''/'' @ gt_Name t"

definition gitTargetLosesConflict :: "GitTarget \<Rightarrow> GitTarget \<Rightarrow> bool" where
  "gitTargetLosesConflict target existing =
     (if gt_CreationTimestamp existing < gt_CreationTimestamp target then True
      else if gt_CreationTimestamp target = gt_CreationTimestamp existing
      then gitTargetIdentityKey existing < gitTargetIdentityKey target
      else False)"

text \<open>The outcome of the check: the two message texts differ in whether the paths are equal.\<close>

datatype conflict_outcome =
  NoConflict
| SamePath GitTarget
| NestedPath GitTarget

fun conflict_scan :: "GitTarget \<Rightarrow> string \<Rightarrow> GitTarget list \<Rightarrow> conflict_outcome" where
  "conflict_scan target providerNS [] = NoConflict"
| "conflict_scan target providerNS (existing # rest) =
     (if gt_Namespace existing = gt_Namespace target \<and> gt_Name existing = gt_Name target
      then conflict_scan target providerNS rest
      else if gt_Namespace existing \<noteq> providerNS
        \<or> gt_ProviderRef existing \<noteq> gt_ProviderRef target
      then conflict_scan target providerNS rest
      else if gt_Branch existing \<noteq> gt_Branch target
        \<or> \<not> IsValidTargetPath (gt_Path existing)
        \<or> \<not> gitTargetPathsOverlap (gt_Path target) (gt_Path existing)
      then conflict_scan target providerNS rest
      else if gitTargetLosesConflict target existing
      then (if normalizeGitTargetPath (gt_Path target) = normalizeGitTargetPath (gt_Path existing)
            then SamePath existing else NestedPath existing)
      else conflict_scan target providerNS rest)"

text \<open>\<open>listed\<close> is the answer of \<open>r.List\<close>: its error or every GitTarget of the cluster.\<close>

definition checkForConflicts ::
  "'e + GitTarget list \<Rightarrow> GitTarget \<Rightarrow> string \<Rightarrow> 'e + conflict_outcome" where
  "checkForConflicts listed target providerNS =
     (if \<not> IsValidTargetPath (gt_Path target) then Inr NoConflict
      else case listed of
             Inl err \<Rightarrow> Inl err
           | Inr allTargets \<Rightarrow> Inr (conflict_scan target providerNS allTargets))"

section \<open>The two normalizations agree\<close>

lemma clean_segments_filter:
  assumes "''..'' \<notin> set segs"
  shows "clean_segments rooted acc segs = rev acc @ filter (\<lambda>s. s \<noteq> [] \<and> s \<noteq> ''.'') segs"
  using assms by (induction rooted acc segs rule: clean_segments.induct) auto

lemma Split_part_sublist: "p \<in> set (Split sep s) \<Longrightarrow> sublist p s"
proof (induction s arbitrary: p)
  case (Cons c s)
  have hd: "prefix (hd (Split sep s)) s" for s
  proof (induction s)
    case (Cons d s)
    then show ?case by (cases "Split sep s") auto
  qed simp
  show ?case
  proof (cases "c = sep")
    case True
    with Cons show ?thesis by (auto simp: sublist_Cons_right)
  next
    case False
    obtain q qs where q: "Split sep s = q # qs" by (cases "Split sep s") auto
    have "sublist (c # q) (c # s)" using hd [of s] q by (auto intro!: prefix_imp_sublist)
    moreover have "sublist r (c # s)" if "r \<in> set qs" for r
      using Cons.IH [of r] that q by (simp add: sublist_Cons_right)
    ultimately show ?thesis using Cons.prems False q by auto
  qed
qed simp

lemma Split_no_dotdot: "\<not> Contains s ''..'' \<Longrightarrow> ''..'' \<notin> set (Split sep s)"
  using Split_part_sublist unfolding Contains_def by blast

definition kept_segments :: "string \<Rightarrow> string list" where
  "kept_segments p = filter (\<lambda>s. s \<noteq> [] \<and> s \<noteq> ''.'') (Split CHR ''/'' (TrimSpace p))"

lemma kept_segments_ok:
  "s \<in> set (kept_segments p) \<Longrightarrow> s \<noteq> [] \<and> s \<noteq> ''.'' \<and> CHR ''/'' \<notin> set s"
  by (auto simp: kept_segments_def dest: Split_parts_no_sep)

lemma Join_kept_Nil [simp]: "Join ''/'' (kept_segments p) = [] \<longleftrightarrow> kept_segments p = []"
  using kept_segments_ok [of "[]" p] by (auto simp: Join_eq_Nil)

lemma Join_kept_dot: "Join ''/'' (kept_segments p) \<noteq> ''.''"
proof
  assume dot: "Join ''/'' (kept_segments p) = ''.''"
  then have "kept_segments p \<noteq> []" by auto
  then have "Split CHR ''/'' (Join ''/'' (kept_segments p)) = kept_segments p"
    using kept_segments_ok by (intro Split_Join) blast+
  then have "kept_segments p = [''.'']" using dot by simp
  then show False using kept_segments_ok [of "''.''" p] by simp
qed

lemma Join_hd_last:
  assumes "ps \<noteq> []" and "\<And>s. s \<in> set ps \<Longrightarrow> s \<noteq> [] \<and> c \<notin> set s"
  shows "Join sep ps \<noteq> [] \<and> hd (Join sep ps) \<noteq> c \<and> last (Join sep ps) \<noteq> c"
  using assms
proof (induction sep ps rule: Join.induct)
  case (2 sep p)
  then have "p \<noteq> []" "c \<notin> set p" by auto
  then show ?case by (auto dest: hd_in_set last_in_set)
next
  case (3 sep p q ps)
  then have "p \<noteq> []" "c \<notin> set p" by auto
  moreover have "Join sep (q # ps) \<noteq> [] \<and> last (Join sep (q # ps)) \<noteq> c"
    using 3 by auto
  ultimately show ?case by (auto dest: hd_in_set)
qed simp

lemma TrimChar_id:
  assumes "s \<noteq> [] \<Longrightarrow> hd s \<noteq> c \<and> last s \<noteq> c"
  shows "TrimChar c s = s"
proof (cases s rule: rev_cases)
  case (snoc ys y)
  then have "dropWhile (\<lambda>x. x = c) s = s"
    using assms by (simp add: dropWhile_eq_self_iff)
  moreover have "dropWhile (\<lambda>x. x = c) (rev s) = rev s"
    using assms snoc by simp
  ultimately show ?thesis by (simp add: TrimChar_def)
qed (simp add: TrimChar_def)

lemma TrimChar_Join_kept:
  "TrimChar CHR ''/'' (Join ''/'' (kept_segments p)) = Join ''/'' (kept_segments p)"
proof (rule TrimChar_id)
  assume "Join ''/'' (kept_segments p) \<noteq> []"
  then show "hd (Join ''/'' (kept_segments p)) \<noteq> CHR ''/'' \<and> last (Join ''/'' (kept_segments p)) \<noteq> CHR ''/''"
    using Join_hd_last [of "kept_segments p" "CHR ''/''" "''/''"] kept_segments_ok [of _ p] by auto
qed

text \<open>What the guard rejects: an absolute path, a backslash, or two dots in a row.\<close>

definition unsafe_path :: "string \<Rightarrow> bool" where
  "unsafe_path p =
     (HasPrefix (TrimSpace p) ''/'' \<or> backslash \<in> set (TrimSpace p) \<or> Contains (TrimSpace p) ''..'')"

lemma normalizeGitTargetPath_safe:
  assumes "\<not> unsafe_path p"
  shows "normalizeGitTargetPath p = ''/'' @ Join ''/'' (kept_segments p)"
proof -
  have "''..'' \<notin> set (Split CHR ''/'' (TrimSpace p))"
    using assms Split_no_dotdot by (simp add: unsafe_path_def)
  then show ?thesis
    by (simp add: normalizeGitTargetPath_def Clean_def HasPrefix_def clean_segments_filter
        kept_segments_def)
qed

lemma sanitizePath_safe:
  assumes "\<not> unsafe_path p"
  shows "sanitizePath p = Join ''/'' (kept_segments p)"
proof (cases "TrimSpace p = []")
  case True
  then show ?thesis by (simp add: sanitizePath_def kept_segments_def)
next
  case False
  have "''..'' \<notin> set (Split CHR ''/'' (TrimSpace p))"
    using assms Split_no_dotdot by (simp add: unsafe_path_def)
  then have "Clean (TrimSpace p) =
      (if kept_segments p = [] then ''.'' else Join ''/'' (kept_segments p))"
    using assms by (simp add: Clean_def clean_segments_filter unsafe_path_def kept_segments_def)
  then have "TrimChar CHR ''/'' (Clean (TrimSpace p)) =
      (if kept_segments p = [] then ''.'' else Join ''/'' (kept_segments p))"
    by (simp add: TrimChar_Join_kept TrimChar_id del: Join.simps)
  moreover have "sanitizePath p =
      (let cleaned = TrimChar CHR ''/'' (Clean (TrimSpace p))
       in if cleaned = [] \<or> cleaned = ''.'' then [] else cleaned)"
    using False assms by (simp add: sanitizePath_def unsafe_path_def)
  ultimately show ?thesis
    using Join_kept_dot [of p] by (cases "kept_segments p = []") (simp_all del: Join.simps(3))
qed

lemma sanitizePath_unsafe: "unsafe_path p \<Longrightarrow> sanitizePath p = []"
  by (auto simp: sanitizePath_def unsafe_path_def Let_def)

lemma IsValidTargetPath_safe: "IsValidTargetPath p \<Longrightarrow> \<not> unsafe_path p"
  using sanitizePath_unsafe [of "TrimSpace p"]
  by (auto simp: IsValidTargetPath_def unsafe_path_def HasPrefix_def Contains_def backslash_def
      Let_def sublist_Cons_right split: if_splits)

lemma normalize_is_sanitized:
  "IsValidTargetPath p \<Longrightarrow> normalizeGitTargetPath p = ''/'' @ sanitizePath p"
  using IsValidTargetPath_safe normalizeGitTargetPath_safe sanitizePath_safe by simp

section \<open>Who owns a file\<close>

text \<open>
  A target owns a repository file when the file lies in the folder the writer files its documents
  under; the empty folder is the repository root.
\<close>

definition owns :: "string \<Rightarrow> string \<Rightarrow> bool" where
  "owns p f = (sanitizePath p = [] \<or> HasPrefix f (sanitizePath p @ ''/''))"

lemma prefix_common:
  fixes s t :: "'a list"
  shows "(\<exists>f. prefix s f \<and> prefix t f) \<longleftrightarrow> prefix s t \<or> prefix t s"
  using prefix_same_cases by blast

lemma prefix_slash:
  "prefix (s @ [c]) (t @ [c]) \<longleftrightarrow> s = t \<or> prefix (s @ [c]) t"
  by (simp add: prefix_snoc)

lemma overlap_sanitized:
  assumes "IsValidTargetPath a" and "IsValidTargetPath b"
  shows "gitTargetPathsOverlap a b \<longleftrightarrow>
     sanitizePath a = [] \<or> sanitizePath b = []
     \<or> prefix (sanitizePath a @ ''/'') (sanitizePath b @ ''/'')
     \<or> prefix (sanitizePath b @ ''/'') (sanitizePath a @ ''/'')"
  using assms
  by (auto simp: gitTargetPathsOverlap_def gitTargetPathIsAncestor_def normalize_is_sanitized
      HasPrefix_def Let_def prefix_slash)

lemma overlap_iff_shared:
  assumes "IsValidTargetPath a" and "IsValidTargetPath b"
  shows "gitTargetPathsOverlap a b \<longleftrightarrow> (\<exists>f. owns a f \<and> owns b f)"
  using prefix_common [of "sanitizePath a @ ''/''" "sanitizePath b @ ''/''"]
  unfolding overlap_sanitized [OF assms] owns_def HasPrefix_def by blast

text \<open>
  C27: the overlap test of the controller is exact for the writer. For two paths that pass the guard,
  \<open>gitTargetPathsOverlap\<close> (computed on \<open>path.Clean("/" + path)\<close>) holds exactly when some repository
  file lies under both folders the writer uses (computed by \<open>sanitizePath\<close>): no conflict is missed and
  siblings such as \<open>apps\<close> and \<open>apps-prod\<close> never conflict.
\<close>

theorem overlap_is_shared_file:
  assumes "IsValidTargetPath a" and "IsValidTargetPath b"
  shows "gitTargetPathsOverlap a b \<longleftrightarrow> (\<exists>f. owns a f \<and> owns b f)"
  using assms by (rule overlap_iff_shared)

lemmas path_eval = IsValidTargetPath_def sanitizePath_def normalizeGitTargetPath_def Clean_def
  gitTargetPathsOverlap_def gitTargetPathIsAncestor_def owns_def TrimSpace_def TrimChar_def
  is_space_def HasPrefix_def Contains_def backslash_def sublist_Cons_right

theorem overlap_is_shared_file_witness:
  "(\<exists>f. owns '' ./apps/ '' f \<and> owns ''apps//prod'' f)
   \<and> \<not> (\<exists>f. owns ''apps'' f \<and> owns ''apps-prod'' f)"
  using overlap_is_shared_file [of "'' ./apps/ ''" "''apps//prod''"]
    overlap_is_shared_file [of "''apps''" "''apps-prod''"]
  by (simp add: path_eval)

section \<open>One owner per file\<close>

definition same_identity :: "GitTarget \<Rightarrow> GitTarget \<Rightarrow> bool" where
  "same_identity s t = (gt_Namespace s = gt_Namespace t \<and> gt_Name s = gt_Name t)"

text \<open>The existing targets that the scan of \<open>target\<close> reports.\<close>

definition beats :: "string \<Rightarrow> GitTarget \<Rightarrow> GitTarget \<Rightarrow> bool" where
  "beats providerNS existing target =
     (\<not> same_identity existing target
      \<and> gt_Namespace existing = providerNS \<and> gt_ProviderRef existing = gt_ProviderRef target
      \<and> gt_Branch existing = gt_Branch target \<and> IsValidTargetPath (gt_Path existing)
      \<and> gitTargetPathsOverlap (gt_Path target) (gt_Path existing)
      \<and> gitTargetLosesConflict target existing)"

lemma conflict_scan_none:
  "conflict_scan t ns ts = NoConflict \<longleftrightarrow> (\<forall>e \<in> set ts. \<not> beats ns e t)"
proof (induction ts)
  case (Cons e ts)
  have "conflict_scan t ns (e # ts) = NoConflict \<longleftrightarrow> \<not> beats ns e t \<and> conflict_scan t ns ts = NoConflict"
    by (cases "gt_Namespace e = ns"; cases "gitTargetLosesConflict t e"; cases "gitTargetPathsOverlap (gt_Path t) (gt_Path e)";
        cases "gt_ProviderRef e = gt_ProviderRef t"; simp add: beats_def same_identity_def; argo?)
  with Cons show ?case by simp
qed simp

lemma loses_total:
  assumes "gt_Namespace s = gt_Namespace t" and "\<not> same_identity s t"
  shows "gitTargetLosesConflict s t \<longleftrightarrow> \<not> gitTargetLosesConflict t s"
proof -
  have "gitTargetIdentityKey s \<noteq> gitTargetIdentityKey t"
    using assms by (simp add: gitTargetIdentityKey_def same_identity_def)
  then show ?thesis by (auto simp: gitTargetLosesConflict_def)
qed

text \<open>
  C26: every file has at most one owner. When the conflict check of two different GitTargets of one
  provider and branch, both with a path that passes the guard, finds no conflict against the listed
  targets, no repository file lies in the folders of both - whatever their creation times, ties
  included.
\<close>

theorem one_owner_per_file:
  assumes "s \<in> set ts" and "t \<in> set ts" and "\<not> same_identity s t"
    and "gt_Namespace s = ns" and "gt_Namespace t = ns"
    and "gt_ProviderRef s = gt_ProviderRef t" and "gt_Branch s = gt_Branch t"
    and "IsValidTargetPath (gt_Path s)" and "IsValidTargetPath (gt_Path t)"
    and "checkForConflicts (Inr ts) s ns = (Inr NoConflict :: 'e + conflict_outcome)"
    and "checkForConflicts (Inr ts) t ns = (Inr NoConflict :: 'e + conflict_outcome)"
  shows "\<not> (owns (gt_Path s) f \<and> owns (gt_Path t) f)"
proof
  assume shared: "owns (gt_Path s) f \<and> owns (gt_Path t) f"
  then have "gitTargetPathsOverlap (gt_Path s) (gt_Path t)"
      and "gitTargetPathsOverlap (gt_Path t) (gt_Path s)"
    using overlap_iff_shared assms(8,9) by blast+
  moreover have "\<not> beats ns t s" and "\<not> beats ns s t"
    using assms by (auto simp: checkForConflicts_def conflict_scan_none)
  ultimately show False
    using assms(3-9) loses_total [of s t] by (auto simp: beats_def same_identity_def)
qed

definition ex_folder :: "string \<Rightarrow> gotime \<Rightarrow> string \<Rightarrow> GitTarget" where
  "ex_folder name created p =
     \<lparr> gt_Name = name, gt_Namespace = ''team'', gt_CreationTimestamp = created,
       gt_ProviderRef = ''git'', gt_Branch = ''main'', gt_Path = p, gt_ClusterProviderRef = None,
       gt_AllowedSourceNamespaces = None, gt_Placement = None, gt_Prune = None \<rparr>"

lemmas conflict_eval = path_eval ex_folder_def checkForConflicts_def same_identity_def
  gitTargetLosesConflict_def gitTargetIdentityKey_def

theorem one_owner_per_file_witness:
  "let ts = [ex_folder ''a'' 5 ''apps/a'', ex_folder ''b'' 5 ''apps/b'', ex_folder ''c'' 9 ''apps'']
   in \<not> (owns ''apps/a'' ''apps/a/x.yaml'' \<and> owns ''apps/b'' ''apps/a/x.yaml'')
      \<and> checkForConflicts (Inr ts) (ex_folder ''c'' 9 ''apps'') ''team''
        = (Inr (NestedPath (ex_folder ''a'' 5 ''apps/a'')) :: string + conflict_outcome)"
  using one_owner_per_file
    [of "ex_folder ''a'' 5 ''apps/a''"
        "[ex_folder ''a'' 5 ''apps/a'', ex_folder ''b'' 5 ''apps/b'', ex_folder ''c'' 9 ''apps'']"
        "ex_folder ''b'' 5 ''apps/b''" "''team''" "''apps/a/x.yaml''", where 'e = string]
  by (simp add: conflict_eval)

text \<open>The check always leaves a writer: the earliest target of the list meets no conflict.\<close>

lemma first_target_accepted:
  assumes "\<And>e. e \<in> set ts \<Longrightarrow> \<not> gitTargetLosesConflict t e"
  shows "checkForConflicts (Inr ts) t ns = Inr NoConflict"
  using assms by (auto simp: checkForConflicts_def conflict_scan_none beats_def)

text \<open>
  C33: a path the guard rejects escapes the check and still owns the root. The conflict check of a
  GitTarget whose path is invalid (\<open>/apps\<close>, \<open>a..b\<close>, \<open>./\<close>) finds nothing, no other target is told about
  it, and the folder its documents are filed under is the one of the path \<open>.\<close>, so it owns every file
  of every other target.
\<close>

theorem invalid_path_owns_root:
  assumes "\<not> IsValidTargetPath (gt_Path t)"
  shows "checkForConflicts listed t ns = Inr NoConflict
     \<and> conflict_scan u ns (ts @ t # ts') = conflict_scan u ns (ts @ ts')
     \<and> sanitizePath (gt_Path t) = sanitizePath ''.''
     \<and> owns (gt_Path t) f"
proof -
  have "sanitizePath (TrimSpace (gt_Path t)) = []"
    using assms by (simp add: IsValidTargetPath_def Let_def split: if_splits)
  then have root: "sanitizePath (gt_Path t) = []"
    by (simp add: sanitizePath_def)
  have skip: "conflict_scan u ns (ts @ t # ts') = conflict_scan u ns (ts @ ts')"
    using assms by (induction ts) auto
  have "sanitizePath ''.'' = []" by (simp add: path_eval)
  with assms root skip show ?thesis by (simp add: checkForConflicts_def owns_def)
qed

theorem invalid_path_owns_root_witness:
  "checkForConflicts (Inr [ex_folder ''a'' 1 ''apps'', ex_folder ''b'' 2 ''/apps''])
       (ex_folder ''b'' 2 ''/apps'') ''team'' = (Inr NoConflict :: string + conflict_outcome)
   \<and> conflict_scan (ex_folder ''a'' 1 ''apps'') ''team'' ([] @ ex_folder ''b'' 2 ''/apps'' # [])
     = conflict_scan (ex_folder ''a'' 1 ''apps'') ''team'' ([] @ [])
   \<and> sanitizePath (gt_Path (ex_folder ''b'' 2 ''/apps'')) = sanitizePath ''.''
   \<and> owns (gt_Path (ex_folder ''b'' 2 ''/apps'')) ''apps/x.yaml''"
  by (rule invalid_path_owns_root) (simp add: path_eval ex_folder_def)

section \<open>File names\<close>

lemma generateFilePath_Join:
  "generateFilePath r p =
     Join ''/'' ((if ri_Namespace r = [] then ''_cluster'' else ri_Namespace r)
       # (if ri_Group r = [] then [] else [ri_Group r])
       @ [ri_Resource r,
          ri_Name r @ (if IsSensitive p (ri_Group r) (ri_Resource r) then ''.sops.yaml'' else ''.yaml'')])"
proof -
  have trim: "HasSuffix (s @ ''.yaml'') ''.yaml'' \<and> TrimSuffix (s @ ''.yaml'') ''.yaml'' = s" for s
    by (simp add: TrimSuffix_def HasSuffix_def suffix_def)
  let ?scope = "if ri_Namespace r = [] then ''_cluster'' else ri_Namespace r"
  let ?dir = "if ri_Group r = [] then ?scope @ ''/'' @ ri_Resource r @ ''/''
    else ?scope @ ''/'' @ ri_Group r @ ''/'' @ ri_Resource r @ ''/''"
  have "ToGitPath r = (?dir @ ri_Name r) @ ''.yaml''"
    by (simp add: ToGitPath_def Let_def)
  then have "generateFilePath r p =
      ?dir @ ri_Name r @ (if IsSensitive p (ri_Group r) (ri_Resource r) then ''.sops.yaml'' else ''.yaml'')"
    using trim [of "?dir @ ri_Name r"] by (simp only: generateFilePath_def Let_def) simp
  then show ?thesis by simp
qed

text \<open>
  no two objects share a default file. Under one sensitivity policy, two well-formed identifiers
  are filed under the same name exactly when they agree on everything but the API version - the
  \<open>.sops.yaml\<close> name of an encrypted object never meets the plain name of another.
\<close>

theorem generateFilePath_identity:
  assumes "ri_wf r" and "ri_wf r'"
  shows "generateFilePath r p = generateFilePath r' p
     \<longleftrightarrow> r \<lparr> ri_Version := v \<rparr> = r' \<lparr> ri_Version := v \<rparr>"
proof -
  let ?scope = "\<lambda>r. if ri_Namespace r = [] then ''_cluster'' else ri_Namespace r"
  let ?file = "\<lambda>r. ri_Name r @ (if IsSensitive p (ri_Group r) (ri_Resource r) then ''.sops.yaml'' else ''.yaml'')"
  let ?ps = "\<lambda>r. ?scope r # (if ri_Group r = [] then [] else [ri_Group r]) @ [ri_Resource r, ?file r]"
  have "generateFilePath r p = generateFilePath r' p \<longleftrightarrow> ?ps r = ?ps r'"
    unfolding generateFilePath_Join using assms
    by (intro Join_inject) (auto simp: ri_wf_def split: if_splits)
  moreover have "?scope r = ?scope r' \<longleftrightarrow> ri_Namespace r = ri_Namespace r'"
    using assms by (auto simp: ri_wf_def)
  ultimately show ?thesis
    by (cases r; cases r') (auto split: if_splits)
qed

end
