(* ===== verification/Commit_Window.thy ===== *)
theory Commit_Window
  imports Git_Path Type_Funnel
begin

text \<open>
  The commit window of a branch worker: the events the worker queues, the one live window that
  coalesces them (\<open>internal/git/open_window.go\<close>), the scope of a resync and the CommitRequest that
  claims a window (\<open>internal/git/types.go\<close>, \<open>internal/git/commit_request_attach.go\<close>), and the author a
  commit carries (\<open>internal/git/commit.go\<close>).

  The lemmas give the window as a function of the events it took: last write wins per Git path, in
  the order the paths were first seen, and one author, attribution outcome and target throughout.
\<close>

section \<open>Events\<close>

text \<open>The content of an \<open>unstructured.Unstructured\<close> object; a float is kept in its textual form.\<close>

datatype json =
  JNull
| JBool bool
| JInt int
| JFloat string
| JString string
| JList "json list"
| JMap "(string \<times> json) list"

datatype AttributionOutcome =
  AttributionNotAttempted
| AttributionResolved
| AttributionUnresolved

definition NamesActor :: "AttributionOutcome \<Rightarrow> bool" where
  "NamesActor a = (a = AttributionResolved)"

record UserInfo =
  ui_Username :: string
  ui_UID :: string
  ui_DisplayName :: string
  ui_Email :: string

definition no_user :: UserInfo where
  "no_user = \<lparr> ui_Username = [], ui_UID = [], ui_DisplayName = [], ui_Email = [] \<rparr>"

definition UnresolvedAuthor :: UserInfo where
  "UnresolvedAuthor =
     \<lparr> ui_Username = ''attribution-unresolved'', ui_UID = [],
       ui_DisplayName = ''unknown (attribution unresolved)'',
       ui_Email = ''attribution-unresolved@gitops-reverser.invalid'' \<rparr>"

record FieldPatch =
  fp_Assignments :: "(string list \<times> json) list"
  fp_Source :: string

record pathBootstrapOptions =
  bo_Enabled :: bool
  bo_AgeRecipients :: "string list"
  bo_IncludeSOPSConfig :: bool

record Event =
  ev_Object :: "json option"
  ev_FieldPatch :: "FieldPatch option"
  ev_Identifier :: ResourceIdentifier
  ev_Operation :: string
  ev_AuditStreamID :: string
  ev_UserInfo :: UserInfo
  ev_Attribution :: AttributionOutcome
  ev_Path :: string
  ev_GitTargetName :: string
  ev_GitTargetNamespace :: string
  ev_SourceCluster :: string
  ev_BootstrapOptions :: pathBootstrapOptions

definition IsFieldPatch :: "Event \<Rightarrow> bool" where
  "IsFieldPatch e = (ev_FieldPatch e \<noteq> None)"

section \<open>The open window\<close>

record commitRequestID =
  crid_Namespace :: string
  crid_Name :: string
  crid_UID :: string

text \<open>
  The writer of the window is the content writer of its worker, of which the window uses only the
  sensitivity policy (\<open>filePathForIdentifier\<close>).
\<close>

record openWindow =
  ow_Author :: string
  ow_Attribution :: AttributionOutcome
  ow_GitTarget :: string
  ow_GitTargetNamespace :: string
  ow_pathOrder :: "string list"
  ow_pathToEvent :: "(string, Event) gomap"
  ow_writer :: SensitiveResourcePolicy
  ow_pendingMessage :: string
  ow_pendingCR :: "commitRequestID option"

definition filePathForIdentifier :: "SensitiveResourcePolicy \<Rightarrow> ResourceIdentifier \<Rightarrow> string" where
  "filePathForIdentifier writer r = generateFilePath r writer"

definition newOpenWindow :: "Event \<Rightarrow> SensitiveResourcePolicy \<Rightarrow> openWindow" where
  "newOpenWindow e writer =
     \<lparr> ow_Author = ui_Username (ev_UserInfo e), ow_Attribution = ev_Attribution e,
       ow_GitTarget = ev_GitTargetName e, ow_GitTargetNamespace = ev_GitTargetNamespace e,
       ow_pathOrder = [], ow_pathToEvent = [], ow_writer = writer,
       ow_pendingMessage = [], ow_pendingCR = None \<rparr>"

definition canAppend :: "openWindow option \<Rightarrow> Event \<Rightarrow> bool" where
  "canAppend w e =
     (case w of
        None \<Rightarrow> False
      | Some w \<Rightarrow>
          ev_Attribution e = ow_Attribution w
          \<and> ui_Username (ev_UserInfo e) = ow_Author w
          \<and> ev_GitTargetName e = ow_GitTarget w
          \<and> ev_GitTargetNamespace e = ow_GitTargetNamespace w)"

definition windowPathKey :: "Event \<Rightarrow> SensitiveResourcePolicy \<Rightarrow> string" where
  "windowPathKey e writer =
     (let filePath = filePathForIdentifier writer (ev_Identifier e);
          base = sanitizePath (ev_Path e)
      in if base \<noteq> [] then base @ ''/'' @ filePath else filePath)"

definition add :: "openWindow \<Rightarrow> Event \<Rightarrow> openWindow" where
  "add w e =
     (let key = windowPathKey e (ow_writer w);
          order = (if map_get (ow_pathToEvent w) key = None then ow_pathOrder w @ [key]
                   else ow_pathOrder w)
      in w\<lparr> ow_pathOrder := order, ow_pathToEvent := map_put key e (ow_pathToEvent w) \<rparr>)"

text \<open>A Go map read of an absent key gives the zero event; the invariant shows it never happens.\<close>

definition no_event :: Event where
  "no_event =
     \<lparr> ev_Object = None, ev_FieldPatch = None,
       ev_Identifier = \<lparr> ri_Group = [], ri_Version = [], ri_Resource = [], ri_Namespace = [], ri_Name = [] \<rparr>,
       ev_Operation = [], ev_AuditStreamID = [], ev_UserInfo = no_user,
       ev_Attribution = AttributionNotAttempted, ev_Path = [], ev_GitTargetName = [],
       ev_GitTargetNamespace = [], ev_SourceCluster = [],
       ev_BootstrapOptions = \<lparr> bo_Enabled = False, bo_AgeRecipients = [], bo_IncludeSOPSConfig = False \<rparr> \<rparr>"

definition orderedEvents :: "openWindow \<Rightarrow> Event list" where
  "orderedEvents w =
     map (\<lambda>key. case map_get (ow_pathToEvent w) key of Some e \<Rightarrow> e | None \<Rightarrow> no_event) (ow_pathOrder w)"

section \<open>Grouped commit messages\<close>

record ResourceRef =
  ref_Group :: string
  ref_Version :: string
  ref_Resource :: string
  ref_Namespace :: string
  ref_Name :: string

definition ref_String :: "ResourceRef \<Rightarrow> string" where
  "ref_String r =
     Join ''/'' (filter (\<lambda>p. p \<noteq> [])
       [ref_Group r, ref_Version r, ref_Resource r, ref_Namespace r, ref_Name r])"

record GroupedCommitMessageData =
  gd_Author :: string
  gd_GitTarget :: string
  gd_Count :: nat
  gd_Operations :: "(string, nat) gomap"
  gd_Resources :: "ResourceRef list"

fun count_operations :: "(string, nat) gomap \<Rightarrow> Event list \<Rightarrow> (string, nat) gomap" where
  "count_operations ops [] = ops"
| "count_operations ops (e # es) =
     count_operations
       (map_put (ev_Operation e)
          ((case map_get ops (ev_Operation e) of Some n \<Rightarrow> n | None \<Rightarrow> 0) + 1) ops) es"

definition event_ref :: "Event \<Rightarrow> ResourceRef" where
  "event_ref e =
     \<lparr> ref_Group = ri_Group (ev_Identifier e), ref_Version = ri_Version (ev_Identifier e),
       ref_Resource = ri_Resource (ev_Identifier e), ref_Namespace = ri_Namespace (ev_Identifier e),
       ref_Name = ri_Name (ev_Identifier e) \<rparr>"

definition buildGroupedCommitMessageData ::
  "string \<Rightarrow> string \<Rightarrow> Event list \<Rightarrow> GroupedCommitMessageData" where
  "buildGroupedCommitMessageData author gitTarget events =
     \<lparr> gd_Author = author, gd_GitTarget = gitTarget, gd_Count = length events,
       gd_Operations = count_operations [] events, gd_Resources = map event_ref events \<rparr>"

section \<open>Resync scopes\<close>

record ResyncScope =
  rs_GVR :: GroupVersionResource
  rs_Namespace :: string

text \<open>\<open>gs\<close> is \<open>GroupVersionResource.String\<close> of the Kubernetes libraries.\<close>

definition ResyncScope_String ::
  "(GroupVersionResource \<Rightarrow> string) \<Rightarrow> ResyncScope option \<Rightarrow> string" where
  "ResyncScope_String gs s =
     (case s of
        None \<Rightarrow> []
      | Some s \<Rightarrow> if rs_Namespace s = [] then gs (rs_GVR s)
                  else gs (rs_GVR s) @ '' in '' @ rs_Namespace s)"

definition ResyncScope_Matches :: "ResyncScope option \<Rightarrow> ResourceIdentifier \<Rightarrow> bool" where
  "ResyncScope_Matches s r =
     (case s of
        None \<Rightarrow> True
      | Some s \<Rightarrow>
          if ri_Group r \<noteq> gvr_Group (rs_GVR s) \<or> ri_Resource r \<noteq> gvr_Resource (rs_GVR s) then False
          else rs_Namespace s = [] \<or> ri_Namespace r = rs_Namespace s)"

section \<open>CommitRequests\<close>

record AttachCommitRequest =
  ac_Namespace :: string
  ac_Name :: string
  ac_UID :: string
  ac_Author :: string
  ac_Attribution :: AttributionOutcome
  ac_GitTargetName :: string
  ac_GitTargetNamespace :: string
  ac_Message :: string
  ac_CloseDelaySeconds :: int

definition attach_id :: "AttachCommitRequest \<Rightarrow> commitRequestID" where
  "attach_id a = \<lparr> crid_Namespace = ac_Namespace a, crid_Name = ac_Name a, crid_UID = ac_UID a \<rparr>"

record pendingCommitRequest =
  pcr_id :: commitRequestID
  pcr_author :: string
  pcr_attribution :: AttributionOutcome
  pcr_gitTargetName :: string
  pcr_gitTargetNamespace :: string
  pcr_message :: string
  pcr_finalizeAt :: gotime
  pcr_attached :: bool

definition matchesWindow :: "pendingCommitRequest \<Rightarrow> openWindow \<Rightarrow> bool" where
  "matchesWindow p w =
     (pcr_author p = ow_Author w
      \<and> NamesActor (pcr_attribution p) = NamesActor (ow_Attribution w)
      \<and> pcr_gitTargetName p = ow_GitTarget w
      \<and> pcr_gitTargetNamespace p = ow_GitTargetNamespace w)"

datatype FinalizeOutcome =
  FinalizeCommitted
| FinalizeNoOpenWindow
| FinalizeWindowMismatch
| FinalizeAlreadyPresent

text \<open>The outcome field is meaningful only without an error, as in the code.\<close>

record FinalizeResult =
  fr_Outcome :: "FinalizeOutcome option"
  fr_SHA :: string
  fr_Branch :: string
  fr_Err :: "string option"

section \<open>The author of a commit\<close>

definition is_letter :: "char \<Rightarrow> bool" where
  "is_letter c = (let n = (of_char c :: nat) in 65 \<le> n \<and> n \<le> 90 \<or> 97 \<le> n \<and> n \<le> 122)"

definition is_digit :: "char \<Rightarrow> bool" where
  "is_digit c = (let n = (of_char c :: nat) in 48 \<le> n \<and> n \<le> 57)"

text \<open>
  \<open>validEmailRegex\<close>: a local part over letters, digits and \<open>._%+-\<close>, one \<open>@\<close>, and a domain over
  letters, digits, dots and dashes that ends in a dot and at least two letters. Neither character class
  holds the \<open>@\<close> and the final class holds no dot, so the split points are determined.
\<close>

definition validEmail :: "string \<Rightarrow> bool" where
  "validEmail s =
     (case Split CHR ''@'' s of
        [l, d] \<Rightarrow>
          (let parts = Split CHR ''.'' d in
           l \<noteq> [] \<and> list_all (\<lambda>c. is_letter c \<or> is_digit c \<or> c \<in> set ''._%+-'') l
           \<and> list_all (\<lambda>c. is_letter c \<or> is_digit c \<or> c \<in> set ''.-'') d
           \<and> 2 \<le> length parts \<and> Join ''.'' (butlast parts) \<noteq> []
           \<and> list_all is_letter (last parts) \<and> 2 \<le> length (last parts))
      | _ \<Rightarrow> False)"

definition is_control :: "char \<Rightarrow> bool" where
  "is_control c = (let n = (of_char c :: nat) in n < 32 \<or> n = 127)"

definition isSafeSignatureField :: "string \<Rightarrow> bool" where
  "isSafeSignatureField s =
     list_all (\<lambda>r. \<not> (r = CHR ''<'' \<or> r = CHR ''>'' \<or> is_control r)) s"

definition ConstructSafeEmail :: "string \<Rightarrow> string \<Rightarrow> string" where
  "ConstructSafeEmail username domain =
     (if validEmail username then username
      else
        (let stripped = filter (\<lambda>c. 97 \<le> (of_char c :: nat) \<and> (of_char c :: nat) \<le> 122
               \<or> is_digit c \<or> c = CHR ''.'' \<or> c = CHR ''-'') (ToLower username);
             clean = (if stripped = [] then ''unknown-user'' else stripped)
         in clean @ ''@noreply.'' @ domain))"

definition authorName :: "UserInfo \<Rightarrow> string" where
  "authorName user =
     (let name = TrimSpace (ui_DisplayName user) in
      if name \<noteq> [] \<and> isSafeSignatureField name then name else ui_Username user)"

definition authorEmail :: "UserInfo \<Rightarrow> string" where
  "authorEmail user =
     (let email = TrimSpace (ui_Email user) in
      if validEmail email then email else ConstructSafeEmail (ui_Username user) ''cluster.local'')"

section \<open>The window as a function of its events\<close>

text \<open>Every event a window holds carries the window's identity, under the key of its path.\<close>

definition window_wf :: "openWindow \<Rightarrow> bool" where
  "window_wf w =
     (distinct (ow_pathOrder w) \<and> set (ow_pathOrder w) = fst ` set (ow_pathToEvent w)
      \<and> map_wf (ow_pathToEvent w)
      \<and> (\<forall>(key, e) \<in> set (ow_pathToEvent w).
           canAppend (Some w) e \<and> windowPathKey e (ow_writer w) = key))"

lemma window_wf_new: "window_wf (newOpenWindow e writer)"
  by (simp add: window_wf_def newOpenWindow_def)

lemma canAppend_new: "canAppend (Some (newOpenWindow e writer)) e"
  by (simp add: canAppend_def newOpenWindow_def)

lemma add_fields [simp]:
  "ow_Author (add w e) = ow_Author w" "ow_Attribution (add w e) = ow_Attribution w"
  "ow_GitTarget (add w e) = ow_GitTarget w" "ow_GitTargetNamespace (add w e) = ow_GitTargetNamespace w"
  "ow_writer (add w e) = ow_writer w" "ow_pendingMessage (add w e) = ow_pendingMessage w"
  "ow_pendingCR (add w e) = ow_pendingCR w"
  by (simp_all add: add_def Let_def)

lemma canAppend_add [simp]: "canAppend (Some (add w e)) = canAppend (Some w)"
  by (simp add: canAppend_def fun_eq_iff)

lemma window_wf_add:
  assumes "window_wf w" and "canAppend (Some w) e"
  shows "window_wf (add w e)"
proof -
  let ?k = "windowPathKey e (ow_writer w)"
  have wf: "map_wf (ow_pathToEvent w)" using assms by (simp add: window_wf_def)
  have dom: "map_get (ow_pathToEvent w) ?k = None \<longleftrightarrow> ?k \<notin> set (ow_pathOrder w)"
    using assms(1) by (simp add: window_wf_def map_of_eq_None_iff)
  have upd: "ow_pathToEvent (add w e) = map_put ?k e (ow_pathToEvent w)"
    "ow_pathOrder (add w e) = (if ?k \<in> set (ow_pathOrder w) then ow_pathOrder w else ow_pathOrder w @ [?k])"
    using dom by (auto simp: add_def Let_def)
  show ?thesis
    using assms wf unfolding window_wf_def upd
    by (auto simp: set_map_put case_prod_beta image_iff)
qed

text \<open>The events taken so far, folded over the paths: keep the position, replace the event.\<close>

fun last_write :: "SensitiveResourcePolicy \<Rightarrow> Event list \<Rightarrow> Event \<Rightarrow> Event list" where
  "last_write p [] e = [e]"
| "last_write p (d # ds) e =
     (if windowPathKey d p = windowPathKey e p then e # ds else d # last_write p ds e)"

lemma window_get:
  assumes "window_wf w" and "k \<in> set (ow_pathOrder w)"
  obtains e where "map_get (ow_pathToEvent w) k = Some e" and "(k, e) \<in> set (ow_pathToEvent w)"
    and "windowPathKey e (ow_writer w) = k" and "canAppend (Some w) e"
proof -
  from assms obtain e where mem: "(k, e) \<in> set (ow_pathToEvent w)"
    by (auto simp: window_wf_def)
  then have "map_get (ow_pathToEvent w) k = Some e"
    using assms(1) by (simp add: window_wf_def)
  with mem assms(1) show ?thesis by (intro that) (auto simp: window_wf_def)
qed

lemma orderedEvents_identity:
  assumes "window_wf w" and "e \<in> set (orderedEvents w)"
  shows "canAppend (Some w) e"
proof -
  from assms(2) obtain k where k: "k \<in> set (ow_pathOrder w)"
      "e = (case map_get (ow_pathToEvent w) k of Some e \<Rightarrow> e | None \<Rightarrow> no_event)"
    by (auto simp: orderedEvents_def)
  from window_get [OF assms(1) k(1)] k(2) show ?thesis by (metis option.simps(5))
qed

lemma orderedEvents_keys:
  assumes "window_wf w"
  shows "map (\<lambda>e. windowPathKey e (ow_writer w)) (orderedEvents w) = ow_pathOrder w"
proof -
  have "windowPathKey (case map_get (ow_pathToEvent w) k of Some e \<Rightarrow> e | None \<Rightarrow> no_event) (ow_writer w) = k"
    if "k \<in> set (ow_pathOrder w)" for k
    using window_get [OF assms that] by (metis option.simps(5))
  then show ?thesis by (simp add: orderedEvents_def map_idI)
qed

lemma last_write_map:
  assumes "distinct (map (\<lambda>d. windowPathKey d p) ds)"
  shows "last_write p ds e =
     (if windowPathKey e p \<in> (\<lambda>d. windowPathKey d p) ` set ds
      then map (\<lambda>d. if windowPathKey d p = windowPathKey e p then e else d) ds else ds @ [e])"
  using assms
proof (induction ds)
  case (Cons d ds)
  show ?case
  proof (cases "windowPathKey d p = windowPathKey e p")
    case True
    with Cons.prems have "windowPathKey x p \<noteq> windowPathKey e p" if "x \<in> set ds" for x
      using that by (auto simp: image_iff)
    then have "map (\<lambda>d. if windowPathKey d p = windowPathKey e p then e else d) ds = ds"
      by (intro map_idI) simp
    with True show ?thesis by simp
  qed (use Cons in auto)
qed simp

lemma orderedEvents_add:
  assumes "window_wf w"
  shows "orderedEvents (add w e) = last_write (ow_writer w) (orderedEvents w) e"
proof -
  let ?key = "\<lambda>d. windowPathKey d (ow_writer w)"
  have keys: "map ?key (orderedEvents w) = ow_pathOrder w"
    using assms by (rule orderedEvents_keys)
  then have order: "?key ` set (orderedEvents w) = set (ow_pathOrder w)"
    by (metis list.set_map)
  have dist: "distinct (map ?key (orderedEvents w))"
    using assms by (simp add: keys window_wf_def)
  have dom: "map_get (ow_pathToEvent w) (?key e) = None \<longleftrightarrow> ?key e \<notin> set (ow_pathOrder w)"
    using assms by (simp add: window_wf_def map_of_eq_None_iff)
  let ?get = "\<lambda>m k. case map_get m k of Some e \<Rightarrow> e | None \<Rightarrow> no_event"
  have key_get: "?key (?get (ow_pathToEvent w) k) = k" if "k \<in> set (ow_pathOrder w)" for k
    using window_get [OF assms that] by (metis option.simps(5))
  have put_get: "?get (map_put (?key e) e m) k = (if k = ?key e then e else ?get m k)" for m k
    by (simp add: AList.update_conv')
  have "map (?get (map_put (?key e) e (ow_pathToEvent w))) (ow_pathOrder w) =
      map (\<lambda>d. if ?key d = ?key e then e else d) (orderedEvents w)"
  proof -
    have "?get (map_put (?key e) e (ow_pathToEvent w)) k =
        (if ?key (?get (ow_pathToEvent w) k) = ?key e then e else ?get (ow_pathToEvent w) k)"
      if "k \<in> set (ow_pathOrder w)" for k
      unfolding put_get key_get [OF that] by (rule refl)
    then show ?thesis unfolding orderedEvents_def map_map comp_def by (intro map_cong refl)
  qed
  moreover have "map (\<lambda>d. if ?key d = ?key e then e else d) (orderedEvents w) = orderedEvents w"
    if "?key e \<notin> set (ow_pathOrder w)"
  proof (rule map_idI)
    fix x assume "x \<in> set (orderedEvents w)"
    then have "?key x \<in> set (ow_pathOrder w)" unfolding order [symmetric] by (rule imageI)
    with that have "?key x \<noteq> ?key e" by metis
    then show "(if ?key x = ?key e then e else x) = x" by simp
  qed
  moreover have "?get (map_put (?key e) e (ow_pathToEvent w)) (?key e) = e"
    unfolding put_get by simp
  moreover have "orderedEvents (add w e) =
      map (?get (map_put (?key e) e (ow_pathToEvent w)))
        (if ?key e \<in> set (ow_pathOrder w) then ow_pathOrder w else ow_pathOrder w @ [?key e])"
    by (simp add: orderedEvents_def add_def Let_def dom)
  ultimately show ?thesis
    unfolding last_write_map [OF dist] order by (cases "?key e \<in> set (ow_pathOrder w)") simp_all
qed

definition window_of :: "SensitiveResourcePolicy \<Rightarrow> Event \<Rightarrow> Event list \<Rightarrow> openWindow" where
  "window_of p e es = fold (\<lambda>d w. add w d) (e # es) (newOpenWindow e p)"

lemma window_fold_wf:
  assumes "window_wf w" and "\<And>d. d \<in> set es \<Longrightarrow> canAppend (Some w) d"
  shows "window_wf (fold (\<lambda>d w. add w d) es w) \<and> ow_writer (fold (\<lambda>d w. add w d) es w) = ow_writer w"
  using assms
proof (induction es arbitrary: w)
  case (Cons d es)
  then show ?case using Cons.IH [of "add w d"] by (simp add: window_wf_add)
qed simp

lemma window_fold_spec:
  assumes "window_wf w" and "ow_pathOrder w = []" and "\<And>d. d \<in> set es \<Longrightarrow> canAppend (Some w) d"
  defines "key \<equiv> \<lambda>d. windowPathKey d (ow_writer w)"
  shows "map key (orderedEvents (fold (\<lambda>d w. add w d) es w)) = rev (remdups (rev (map key es)))
     \<and> (\<forall>d \<in> set (orderedEvents (fold (\<lambda>d w. add w d) es w)). d = last (filter (\<lambda>x. key x = key d) es))"
  using assms(3)
proof (induction es rule: rev_induct)
  case Nil
  then show ?case using assms(2) by (simp add: orderedEvents_def)
next
  case (snoc e es)
  let ?w = "fold (\<lambda>d w. add w d) es w"
  have wf: "window_wf ?w" "ow_writer ?w = ow_writer w"
    using window_fold_wf [OF assms(1)] snoc.prems by auto
  have step: "orderedEvents (add ?w e) = last_write (ow_writer w) (orderedEvents ?w) e"
    using orderedEvents_add [OF wf(1), of e] wf(2) by simp
  have IH: "map key (orderedEvents ?w) = rev (remdups (rev (map key es)))"
      "\<And>d. d \<in> set (orderedEvents ?w) \<Longrightarrow> d = last (filter (\<lambda>x. key x = key d) es)"
    using snoc by auto
  have dist: "distinct (map key (orderedEvents ?w))"
    using IH(1) by simp
  have keys: "key ` set (orderedEvents ?w) = key ` set es"
    using arg_cong [OF IH(1), of set] by simp
  have out: "orderedEvents (fold (\<lambda>d w. add w d) (es @ [e]) w) =
      (if key e \<in> key ` set es then map (\<lambda>d. if key d = key e then e else d) (orderedEvents ?w)
       else orderedEvents ?w @ [e])"
    using last_write_map [of "ow_writer w" "orderedEvents ?w" e] dist keys step
    by (simp add: key_def)
  have "map key (map (\<lambda>d. if key d = key e then e else d) (orderedEvents ?w)) = map key (orderedEvents ?w)"
    by simp
  then have "map key (orderedEvents (fold (\<lambda>d w. add w d) (es @ [e]) w)) = rev (remdups (rev (map key (es @ [e]))))"
    using IH(1) unfolding out by auto
  moreover have "d = last (filter (\<lambda>x. key x = key d) (es @ [e]))"
    if "d \<in> set (orderedEvents (fold (\<lambda>d w. add w d) (es @ [e]) w))" for d
  proof (cases "key d = key e")
    case True
    moreover have "d = e"
    proof (cases "key e \<in> key ` set es")
      case True
      with that \<open>key d = key e\<close> show ?thesis unfolding out by auto
    next
      case False
      with keys True have "d \<notin> set (orderedEvents ?w)" by (metis image_eqI)
      with that False show ?thesis unfolding out by simp
    qed
    ultimately show ?thesis by simp
  next
    case False
    then have "d \<in> set (orderedEvents ?w)" using that unfolding out by (auto split: if_splits)
    with False show ?thesis using IH(2) [of d] by simp
  qed
  ultimately show ?case by blast
qed

lemma window_of_ok:
  assumes "\<And>d. d \<in> set es \<Longrightarrow> canAppend (Some (newOpenWindow e p)) d"
  shows "window_wf (window_of p e es)" and "ow_writer (window_of p e es) = p"
proof -
  have "canAppend (Some (newOpenWindow e p)) d" if "d \<in> set (e # es)" for d
    using that assms canAppend_new by auto
  from window_fold_wf [of "newOpenWindow e p" "e # es", OF window_wf_new this]
  show "window_wf (window_of p e es)" and "ow_writer (window_of p e es) = p"
    by (simp_all add: window_of_def) (simp add: newOpenWindow_def)
qed

text \<open>
  C28: a commit window is last-write-wins in first-seen order. The events a window commits, after it was
  opened by \<open>e\<close> and took \<open>es\<close>, are one per destination path, in the order the paths first appeared, and
  each is the latest event for its path.
\<close>

theorem window_last_write_wins:
  assumes "list_all (canAppend (Some (newOpenWindow e p))) es"
  shows "map (\<lambda>d. windowPathKey d p) (orderedEvents (window_of p e es))
       = rev (remdups (rev (map (\<lambda>d. windowPathKey d p) (e # es))))
     \<and> (\<forall>d \<in> set (orderedEvents (window_of p e es)).
          d = last (filter (\<lambda>x. windowPathKey x p = windowPathKey d p) (e # es)))"
proof -
  have "canAppend (Some (newOpenWindow e p)) d" if "d \<in> set (e # es)" for d
    using that assms canAppend_new by (auto simp: list_all_iff)
  note spec = window_fold_spec [of "newOpenWindow e p" "e # es", OF window_wf_new _ this]
  have "ow_writer (newOpenWindow e p) = p" and "ow_pathOrder (newOpenWindow e p) = []"
    by (simp_all add: newOpenWindow_def)
  with spec show ?thesis unfolding window_of_def by metis
qed

definition ex_event :: "string \<Rightarrow> string \<Rightarrow> string \<Rightarrow> Event" where
  "ex_event user name op =
     no_event\<lparr> ev_Identifier := NewResourceIdentifier '''' ''v1'' ''configmaps'' ''prod'' name,
       ev_Operation := op, ev_UserInfo := no_user\<lparr> ui_Username := user \<rparr>,
       ev_Attribution := AttributionResolved, ev_Path := ''apps'', ev_GitTargetName := ''target'',
       ev_GitTargetNamespace := ''tenant'' \<rparr>"

definition ex_policy :: SensitiveResourcePolicy where
  "ex_policy = \<lparr> additional = [] \<rparr>"

theorem window_last_write_wins_witness:
  "map (\<lambda>d. windowPathKey d ex_policy)
       (orderedEvents (window_of ex_policy (ex_event ''alice'' ''a'' ''CREATE'')
          [ex_event ''alice'' ''b'' ''CREATE'', ex_event ''alice'' ''a'' ''UPDATE'']))
     = [''apps/prod/configmaps/a.yaml'', ''apps/prod/configmaps/b.yaml'']
   \<and> list_all (canAppend (Some (newOpenWindow (ex_event ''alice'' ''a'' ''CREATE'') ex_policy)))
       [ex_event ''alice'' ''b'' ''CREATE'', ex_event ''alice'' ''a'' ''UPDATE'']
   \<and> \<not> canAppend (Some (newOpenWindow (ex_event ''alice'' ''a'' ''CREATE'') ex_policy))
       (ex_event ''bob'' ''a'' ''UPDATE'')"
proof -
  have app: "list_all (canAppend (Some (newOpenWindow (ex_event ''alice'' ''a'' ''CREATE'') ex_policy)))
      [ex_event ''alice'' ''b'' ''CREATE'', ex_event ''alice'' ''a'' ''UPDATE'']"
    by code_simp
  have keys: "map (\<lambda>d. windowPathKey d ex_policy) [ex_event ''alice'' ''a'' ''CREATE'',
        ex_event ''alice'' ''b'' ''CREATE'', ex_event ''alice'' ''a'' ''UPDATE'']
      = [''apps/prod/configmaps/a.yaml'', ''apps/prod/configmaps/b.yaml'', ''apps/prod/configmaps/a.yaml'']"
    by code_simp
  have "\<not> canAppend (Some (newOpenWindow (ex_event ''alice'' ''a'' ''CREATE'') ex_policy))
      (ex_event ''bob'' ''a'' ''UPDATE'')"
    by code_simp
  with window_last_write_wins [OF app] app show ?thesis unfolding keys by simp
qed

section \<open>Signature headers\<close>

lemma Join_Split: "Join [sep] (Split sep s) = s"
proof (induction s)
  case (Cons c s)
  then show ?case by (cases "Split sep s" rule: remdups_adj.cases) auto
qed simp

lemma validEmail_chars:
  assumes "validEmail s" and "c \<in> set s"
  shows "is_letter c \<or> is_digit c \<or> c \<in> set ''._%+-@''"
proof -
  from assms(1) obtain l d where split: "Split CHR ''@'' s = [l, d]"
      and l: "list_all (\<lambda>c. is_letter c \<or> is_digit c \<or> c \<in> set ''._%+-'') l"
      and d: "list_all (\<lambda>c. is_letter c \<or> is_digit c \<or> c \<in> set ''.-'') d"
    by (auto simp: validEmail_def Let_def split: list.splits)
  have "s = l @ CHR ''@'' # d" using Join_Split [of "CHR ''@''" s] split by simp
  with assms(2) l d show ?thesis by (auto simp: list_all_iff)
qed

lemma safe_char:
  assumes "is_letter c \<or> is_digit c \<or> c \<in> set ''._%+-@''"
  shows "\<not> (c = CHR ''<'' \<or> c = CHR ''>'' \<or> is_control c)"
  using assms by (auto simp: is_letter_def is_digit_def is_control_def Let_def)

lemma validEmail_safe: "validEmail s \<Longrightarrow> isSafeSignatureField s"
  using validEmail_chars safe_char unfolding isSafeSignatureField_def list_all_iff by blast

lemma isSafe_append [simp]:
  "isSafeSignatureField (s @ t) \<longleftrightarrow> isSafeSignatureField s \<and> isSafeSignatureField t"
  by (simp add: isSafeSignatureField_def)

lemma ConstructSafeEmail_safe:
  assumes "isSafeSignatureField domain"
  shows "isSafeSignatureField (ConstructSafeEmail username domain)"
proof -
  have "isSafeSignatureField (filter (\<lambda>c. 97 \<le> (of_char c :: nat) \<and> (of_char c :: nat) \<le> 122
      \<or> is_digit c \<or> c = CHR ''.'' \<or> c = CHR ''-'') t)" for t
    by (auto simp: isSafeSignatureField_def list_all_iff is_digit_def is_control_def Let_def)
  moreover have "isSafeSignatureField ''@noreply.''" and "isSafeSignatureField ''unknown-user''"
    by (simp_all add: isSafeSignatureField_def is_control_def)
  ultimately have "isSafeSignatureField ((if t = [] then ''unknown-user'' else t) @ ''@noreply.'' @ domain)"
    if "t = filter (\<lambda>c. 97 \<le> (of_char c :: nat) \<and> (of_char c :: nat) \<le> 122
      \<or> is_digit c \<or> c = CHR ''.'' \<or> c = CHR ''-'') (ToLower username)" for t
    unfolding isSafe_append using assms that by presburger
  then show ?thesis
    unfolding ConstructSafeEmail_def Let_def using validEmail_safe by presburger
qed

text \<open>
  the author header of a commit cannot be broken by an OIDC claim. Whatever display name and email
  a user carries, the email written is free of angle brackets and control characters, and so is the name
  as soon as the Kubernetes username is. An unsafe username itself is written as it is.
\<close>

theorem author_header_safe:
  "isSafeSignatureField (authorEmail u)
   \<and> (isSafeSignatureField (authorName u) \<longleftrightarrow>
        isSafeSignatureField (ui_Username u)
        \<or> TrimSpace (ui_DisplayName u) \<noteq> [] \<and> isSafeSignatureField (TrimSpace (ui_DisplayName u)))"
proof -
  have "isSafeSignatureField ''cluster.local''"
    by (simp add: isSafeSignatureField_def is_control_def)
  then have "isSafeSignatureField (authorEmail u)"
    using validEmail_safe ConstructSafeEmail_safe by (simp add: authorEmail_def Let_def)
  then show ?thesis by (auto simp: authorName_def Let_def)
qed

end
