(* ===== verification/Fidelity_Gate.thy ===== *)
theory Fidelity_Gate
  imports Type_Funnel
begin

text \<open>
  The render fidelity gate (src/internal/git/render_fidelity_gate.go): per GitTarget, an epoch with
  one result per watched scope. Live writes are allowed only while every scope of the current epoch
  has reported clean; a divergence closes the target until a new epoch begins.

  The lock makes each method one step. \<open>GroupVersionResource.String\<close> of apimachinery is the
  parameter \<open>gs\<close>; the epoch is an unsigned 64-bit counter.
\<close>

section \<open>State\<close>

record RenderDivergence =
  dv_Field :: string
  dv_Token :: string



datatype RenderFidelityState = RenderFidelityUnknown | RenderFidelityTrue | RenderFidelityFalse

record RenderFidelityStatus =
  st_Epoch :: "64 word"
  st_State :: RenderFidelityState
  st_Reason :: string
  st_Message :: string
  st_Divergence :: "RenderDivergence option"
  st_ScopeCount :: nat
  st_CleanScopes :: nat


record renderFidelityScopeResult =
  fr_clean :: bool
  fr_finished :: bool
  fr_divergence :: "RenderDivergence option"

definition zero_result :: renderFidelityScopeResult where
  "zero_result = \<lparr> fr_clean = False, fr_finished = False, fr_divergence = None \<rparr>"

record renderFidelityTargetState =
  ft_epoch :: "64 word"
  ft_scopes :: "(string, renderFidelityScopeResult) gomap"


record RenderFidelityGate =
  fg_targets :: "(string, renderFidelityTargetState) gomap"


section \<open>Reducing the scopes of an epoch\<close>

definition renderFidelityReadyStatus :: "64 word \<Rightarrow> nat \<Rightarrow> nat \<Rightarrow> RenderFidelityStatus" where
  "renderFidelityReadyStatus epoch scopes clean =
     \<lparr> st_Epoch = epoch, st_State = RenderFidelityTrue, st_Reason = ''RenderMatchesLive'',
       st_Message = ''Every rendered token matches live'', st_Divergence = None,
       st_ScopeCount = scopes, st_CleanScopes = clean \<rparr>"

text \<open>The loop over the sorted keys: the first divergence, or the number of clean scopes.\<close>

fun reduce_scopes ::
  "(string, renderFidelityScopeResult) gomap \<Rightarrow> string list \<Rightarrow> nat \<Rightarrow> (RenderDivergence \<times> nat) + nat"
where
  "reduce_scopes scopes [] clean = Inr clean"
| "reduce_scopes scopes (key # keys) clean =
     (let result = (case map_get scopes key of None \<Rightarrow> zero_result | Some r \<Rightarrow> r) in
      if \<not> fr_finished result then reduce_scopes scopes keys clean
      else case fr_divergence result of
             Some d \<Rightarrow> Inl (d, clean)
           | None \<Rightarrow> reduce_scopes scopes keys (if fr_clean result then clean + 1 else clean))"

definition reduceRenderFidelity :: "renderFidelityTargetState \<Rightarrow> RenderFidelityStatus" where
  "reduceRenderFidelity state =
     (let n = length (ft_scopes state) in
      case reduce_scopes (ft_scopes state) (sort (map fst (ft_scopes state))) 0 of
        Inl (sample, clean) \<Rightarrow>
          \<lparr> st_Epoch = ft_epoch state, st_State = RenderFidelityFalse,
            st_Reason = ''RenderDoesNotMatchLive'',
            st_Message = ''Rendered token '' @ dv_Token sample @ '' at '' @ dv_Field sample @ '' does not match live'',
            st_Divergence = Some sample, st_ScopeCount = n, st_CleanScopes = clean \<rparr>
      | Inr clean \<Rightarrow>
          if clean \<noteq> n then
            \<lparr> st_Epoch = ft_epoch state, st_State = RenderFidelityUnknown, st_Reason = ''Rechecking'',
              st_Message = ''Waiting for every render scope in the current epoch'',
              st_Divergence = None, st_ScopeCount = n, st_CleanScopes = clean \<rparr>
          else renderFidelityReadyStatus (ft_epoch state) n clean)"

section \<open>Operations\<close>







text \<open>A nil gate is \<open>None\<close>.\<close>

definition Status :: "RenderFidelityGate option \<Rightarrow> ResourceReference \<Rightarrow> RenderFidelityStatus" where
  "Status g target =
     (case g of
        None \<Rightarrow> renderFidelityReadyStatus 0 0 0
      | Some g \<Rightarrow>
          (case map_get (fg_targets g) (rr_Key target) of
             None \<Rightarrow> renderFidelityReadyStatus 0 0 0
           | Some state \<Rightarrow> reduceRenderFidelity state))"

definition AllowsWrites :: "RenderFidelityGate option \<Rightarrow> ResourceReference \<Rightarrow> bool" where
  "AllowsWrites g target = (st_State (Status g target) = RenderFidelityTrue)"


definition normalWritesAllowed :: "RenderFidelityGate option \<Rightarrow> string \<Rightarrow> string \<Rightarrow> bool" where
  "normalWritesAllowed g targetName targetNamespace =
     (if g = None \<or> targetName = [] \<or> targetNamespace = [] then True
      else AllowsWrites g (NewResourceReference targetName targetNamespace))"

section \<open>The state of an epoch in closed form\<close>





declare reduce_scopes.simps(2) [simp del]





section \<open>Runs\<close>



























end
