(* ===== verification/Pending_Write.thy ===== *)
theory Pending_Write
  imports Commit_Window Fidelity_Gate
begin

text \<open>
  What a branch worker retains until a push succeeds, and how it becomes commits: building a pending
  write (\<open>internal/git/pending_writes.go\<close>), executing it (\<open>internal/git/commit_executor.go\<close>, the resync
  case of \<open>internal/git/resync_flush.go\<close>), choosing message and author (\<open>internal/git/commit.go\<close>), and
  committing, pushing and replaying (\<open>internal/git/branch_worker.go\<close>).

  The API server, the Git repository and the remote are the world \<open>'w\<close>. Each call to them is a field
  of \<open>worker_env\<close> that takes the world and gives an error or an answer and the next world, so nothing is
  assumed about what two calls in a row have in common. The Go code shares slices and maps between the
  caller and the callee; here the updated pending writes are returned.
\<close>

section \<open>Errors and calls\<close>

text \<open>
  The three kinds of error the callers tell apart: a missing API object (\<open>apierrors.IsNotFound\<close>), a
  refused write plan (\<open>AcceptanceRefusedError\<close>), and any other. Wrapping with \<open>%w\<close> keeps the kind.
\<close>

datatype git_error =
  Failure string
| NotFound string
| Refused string

fun wrap :: "string \<Rightarrow> git_error \<Rightarrow> git_error" where
  "wrap m (Failure e) = Failure (m @ '': '' @ e)"
| "wrap m (NotFound e) = NotFound (m @ '': '' @ e)"
| "wrap m (Refused e) = Refused (m @ '': '' @ e)"

type_synonym ('w, 'a) io = "'w \<Rightarrow> (git_error + 'a) \<times> 'w"

definition return_io :: "'a \<Rightarrow> ('w, 'a) io" where
  "return_io x w = (Inr x, w)"

definition fail_io :: "git_error \<Rightarrow> ('w, 'a) io" where
  "fail_io e w = (Inl e, w)"

definition bind_io :: "('w, 'a) io \<Rightarrow> ('a \<Rightarrow> ('w, 'b) io) \<Rightarrow> ('w, 'b) io" where
  "bind_io m f w =
     (case m w of
        (Inl e, w') \<Rightarrow> (Inl e, w')
      | (Inr x, w') \<Rightarrow> f x w')"

definition wrap_io :: "string \<Rightarrow> ('w, 'a) io \<Rightarrow> ('w, 'a) io" where
  "wrap_io m a w =
     (case a w of
        (Inl e, w') \<Rightarrow> (Inl (wrap m e), w')
      | (Inr x, w') \<Rightarrow> (Inr x, w'))"

lemmas io_defs = return_io_def fail_io_def bind_io_def wrap_io_def

section \<open>Commit configuration\<close>

record CommitterSpec =
  cs_Name :: string
  cs_Email :: string

record CommitMessageSpec =
  ms_EventTemplate :: string
  ms_ReconcileTemplate :: string
  ms_GroupTemplate :: string

record CommitSpec =
  cp_Committer :: "CommitterSpec option"
  cp_Message :: "CommitMessageSpec option"

record CommitConfig =
  cc_CommitterName :: string
  cc_CommitterEmail :: string
  cc_EventTemplate :: string
  cc_ReconcileTemplate :: string
  cc_GroupTemplate :: string

definition DefaultCommitConfig :: CommitConfig where
  "DefaultCommitConfig =
     \<lparr> cc_CommitterName = ''GitOps Reverser'', cc_CommitterEmail = ''noreply@configbutler.ai'',
       cc_EventTemplate = ''[{{.Operation}}] {{.APIVersion}}/{{.Resource}}/{{.Name}}'',
       cc_ReconcileTemplate = ''reconciled {{.Count}} {{if .Resource}}{{.Resource}}{{else}}resources{{end}}'' @
         ''{{if .Revision}} (last resourceVersion: {{.Revision}}){{end}}'',
       cc_GroupTemplate = ''{{.Author}} on {{.GitTarget}}: {{.Count}} resource(s)'' \<rparr>"

definition or_default :: "string \<Rightarrow> string \<Rightarrow> string" where
  "or_default s d = (if TrimSpace s \<noteq> [] then TrimSpace s else d)"

definition ResolveCommitConfig :: "CommitSpec option \<Rightarrow> CommitConfig" where
  "ResolveCommitConfig spec =
     (case spec of
        None \<Rightarrow> DefaultCommitConfig
      | Some sp \<Rightarrow>
          (let config = DefaultCommitConfig;
               config = (case cp_Committer sp of
                   None \<Rightarrow> config
                 | Some c \<Rightarrow> config\<lparr> cc_CommitterName := or_default (cs_Name c) (cc_CommitterName config),
                     cc_CommitterEmail := or_default (cs_Email c) (cc_CommitterEmail config) \<rparr>)
           in case cp_Message sp of
                None \<Rightarrow> config
              | Some m \<Rightarrow> config\<lparr>
                  cc_EventTemplate := or_default (ms_EventTemplate m) (cc_EventTemplate config),
                  cc_ReconcileTemplate := or_default (ms_ReconcileTemplate m) (cc_ReconcileTemplate config),
                  cc_GroupTemplate := or_default (ms_GroupTemplate m) (cc_GroupTemplate config) \<rparr>))"

record GitProviderSpec =
  gps_URL :: string
  gps_Commit :: "CommitSpec option"
  gps_CommitWindow :: "string option"

section \<open>Pending writes\<close>

datatype PendingWriteKind = PendingWriteCommit | PendingWriteAtomic | PendingWriteResync

record pendingTargetKey =
  ptk_Name :: string
  ptk_Namespace :: string

record ResolvedEncryptionConfig =
  re_Provider :: string
  re_AgeRecipients :: "string list"

record ResolvedTargetMetadata =
  md_Name :: string
  md_Namespace :: string
  md_Path :: string
  md_BootstrapOptions :: pathBootstrapOptions
  md_EncryptionConfig :: "ResolvedEncryptionConfig option"
  md_Placement :: "GitTargetPlacementSpec option"
  md_PruneMode :: PruneMode
  md_SourceCluster :: string

record DesiredResource =
  dr_Resource :: ResourceIdentifier
  dr_Object :: "json option"

record ResyncStats =
  sa_Created :: nat
  sa_Updated :: nat
  sa_Deleted :: nat
  sa_Skipped :: nat
  sa_PlacementSkipped :: nat
  sa_Retained :: nat
  sa_PruneMode :: PruneMode

record PendingWrite =
  pw_Kind :: PendingWriteKind
  pw_Events :: "Event list"
  pw_CommitMessage :: string
  pw_CommitConfig :: CommitConfig
  pw_Signer :: "string option"
  pw_GitTargetName :: string
  pw_GitTargetNamespace :: string
  pw_Targets :: "(pendingTargetKey, ResolvedTargetMetadata) gomap"
  pw_ByteSize :: int
  pw_Desired :: "DesiredResource list"
  pw_Scope :: "ResyncScope option"
  pw_Revision :: string
  pw_ResyncStats :: "ResyncStats option"
  pw_Committed :: "bool option"
  pw_CommitRequest :: "commitRequestID option"
  pw_CommitSHA :: string

datatype CommitMode = CommitModePerEvent | CommitModeAtomic

record WriteRequest =
  wr_Events :: "Event list"
  wr_CommitMessage :: string
  wr_GitTargetName :: string
  wr_GitTargetNamespace :: string
  wr_CommitMode :: CommitMode

text \<open>The reply channel of a resync is named by a number; \<open>None\<close> is the nil channel.\<close>

record ResyncRequest =
  rq_Desired :: "DesiredResource list"
  rq_Revision :: string
  rq_GitTargetName :: string
  rq_GitTargetNamespace :: string
  rq_Scope :: "ResyncScope option"
  rq_Heal :: bool
  rq_Result :: "nat option"

section \<open>The world of a worker\<close>

record Signature =
  sg_Name :: string
  sg_Email :: string
  sg_When :: gotime

record CommitOptions =
  co_Author :: Signature
  co_Committer :: Signature
  co_Signer :: "string option"

record PullReport =
  pr_ExistsOnRemote :: bool
  pr_Sha :: string
  pr_Unborn :: bool
  pr_IncomingChanges :: bool

record ReconcileCommitMessageData =
  rd_Count :: nat
  rd_GitTarget :: string
  rd_Group :: string
  rd_Version :: string
  rd_Resource :: string
  rd_APIVersion :: string
  rd_Revision :: string
  rd_Namespace :: string

record CommitMessageData =
  cd_Operation :: string
  cd_Group :: string
  cd_Version :: string
  cd_Resource :: string
  cd_Namespace :: string
  cd_Name :: string
  cd_APIVersion :: string
  cd_Username :: string
  cd_GitTarget :: string

datatype template_data =
  EventData CommitMessageData
| ReconcileData ReconcileCommitMessageData
| GroupData GroupedCommitMessageData

text \<open>
  The calls a worker makes: the API client (provider, signer, credentials, target, encryption), the
  repository (go-git and the functions of the package that drive it), the template engine, the clock,
  the hash of a repository URL, the YAML encoder, the fidelity gate that other goroutines write, and
  the refusal reporter.
\<close>

record 'w worker_env =
  we_getGitProvider :: "('w, GitProviderSpec) io"
  we_getCommitSigner :: "GitProviderSpec \<Rightarrow> ('w, string option) io"
  we_getAuthFromSecret :: "GitProviderSpec \<Rightarrow> ('w, string) io"
  we_getGitTarget :: "string \<Rightarrow> string \<Rightarrow> ('w, GitTarget) io"
  we_ResolveTargetEncryption :: "GitTarget \<Rightarrow> ('w, ResolvedEncryptionConfig option) io"
  we_PrepareBranch :: "string \<Rightarrow> string \<Rightarrow> string \<Rightarrow> ('w, PullReport) io"
  we_PlainOpen :: "string \<Rightarrow> ('w, unit) io"
  we_Worktree :: "('w, unit) io"
  we_GetCurrentBranch :: "('w, string \<times> string) io"
  we_switchOrCreateBranch :: "string \<Rightarrow> string \<Rightarrow> ('w, unit) io"
  we_ensureBootstrapTemplateInPath :: "string \<Rightarrow> pathBootstrapOptions \<Rightarrow> ('w, unit) io"
  we_configureSecretEncryptionWriter :: "string \<Rightarrow> ResolvedEncryptionConfig option \<Rightarrow> ('w, unit) io"
  we_flushEventsToWorktree ::
    "string \<Rightarrow> Event list \<Rightarrow> GitTargetPlacementSpec option \<Rightarrow> PruneMode \<Rightarrow> ('w, bool) io"
  we_refuseUnsafeWorktree :: "string \<Rightarrow> string \<Rightarrow> ('w, unit) io"
  we_applyResyncToWorktree ::
    "string \<Rightarrow> ResolvedTargetMetadata \<Rightarrow> DesiredResource list \<Rightarrow> ResyncScope option
      \<Rightarrow> ('w, ResyncStats \<times> bool) io"
  we_Commit :: "string \<Rightarrow> CommitOptions \<Rightarrow> ('w, string) io"
  we_renderCommitTemplate :: "string \<Rightarrow> string \<Rightarrow> template_data \<Rightarrow> git_error + string"
  we_pushAtomic :: "string \<Rightarrow> string \<Rightarrow> string \<Rightarrow> ('w, unit) io"
  we_fetchRemoteBranchHash :: "string \<Rightarrow> string \<Rightarrow> ('w, string) io"
  we_syncToRemote :: "string \<Rightarrow> string \<Rightarrow> ('w, PullReport) io"
  we_now :: "'w \<Rightarrow> gotime \<times> 'w"
  we_sha256_hex :: "string \<Rightarrow> string"
  we_MarshalToOrderedYAML :: "json \<Rightarrow> string option"
  we_renderFidelityGate :: "'w \<Rightarrow> RenderFidelityGate option"
  we_pathRefusal :: "ResourceReference \<Rightarrow> string \<Rightarrow> 'w \<Rightarrow> 'w"

definition now_io :: "'w worker_env \<Rightarrow> ('w, gotime) io" where
  "now_io env w = (case we_now env w of (t, w') \<Rightarrow> (Inr t, w'))"

section \<open>Reading a pending write\<close>

datatype CommitMessageKind = CommitMessagePerEvent | CommitMessageReconcile | CommitMessageGrouped

definition MessageKind :: "PendingWrite \<Rightarrow> CommitMessageKind" where
  "MessageKind p =
     (if pw_Kind p = PendingWriteAtomic \<or> pw_Kind p = PendingWriteResync then CommitMessageReconcile
      else if length (pw_Events p) = 1 then CommitMessagePerEvent
      else CommitMessageGrouped)"

definition AuthorUserInfo :: "PendingWrite \<Rightarrow> UserInfo" where
  "AuthorUserInfo p =
     (if pw_Kind p = PendingWriteAtomic \<or> pw_Events p = [] then no_user
      else ev_UserInfo (hd (pw_Events p)))"

definition pw_Author :: "PendingWrite \<Rightarrow> string" where
  "pw_Author p = ui_Username (AuthorUserInfo p)"

definition pw_AttributionOutcome :: "PendingWrite \<Rightarrow> AttributionOutcome" where
  "pw_AttributionOutcome p =
     (if pw_Kind p = PendingWriteAtomic \<or> pw_Events p = [] then AttributionNotAttempted
      else ev_Attribution (hd (pw_Events p)))"

definition createdCommit :: "PendingWrite \<Rightarrow> bool" where
  "createdCommit p =
     (if pw_Kind p = PendingWriteResync then pw_Committed p = Some True
      else pw_CommitSHA p \<noteq> [])"

definition authorKind :: "PendingWrite \<Rightarrow> string" where
  "authorKind p =
     (if pw_AttributionOutcome p = AttributionUnresolved then ''unresolved''
      else if pw_Author p = [] then ''committer''
      else if HasPrefix (pw_Author p) ''system:serviceaccount:'' then ''serviceaccount''
      else ''user'')"

definition targetIdentity :: "PendingWrite \<Rightarrow> string \<times> string" where
  "targetIdentity p =
     (if pw_Kind p = PendingWriteAtomic \<or> pw_Kind p = PendingWriteResync
      then (pw_GitTargetName p, pw_GitTargetNamespace p)
      else case pw_Events p of
             [] \<Rightarrow> ([], [])
           | event # _ \<Rightarrow> (ev_GitTargetName event, ev_GitTargetNamespace event))"

definition no_options :: pathBootstrapOptions where
  "no_options = \<lparr> bo_Enabled = False, bo_AgeRecipients = [], bo_IncludeSOPSConfig = False \<rparr>"

text \<open>The zero value of the metadata, with a name and a namespace; its prune mode is the empty string.\<close>

definition bare_metadata :: "string \<Rightarrow> string \<Rightarrow> ResolvedTargetMetadata" where
  "bare_metadata name namespace =
     \<lparr> md_Name = name, md_Namespace = namespace, md_Path = [], md_BootstrapOptions = no_options,
       md_EncryptionConfig = None, md_Placement = None, md_PruneMode = [], md_SourceCluster = [] \<rparr>"

definition findTargetMetadata :: "PendingWrite \<Rightarrow> string \<Rightarrow> string \<Rightarrow> ResolvedTargetMetadata" where
  "findTargetMetadata p name namespace =
     (if name = [] \<or> namespace = [] \<or> pw_Targets p = [] then bare_metadata [] []
      else case map_get (pw_Targets p) \<lparr> ptk_Name = name, ptk_Namespace = namespace \<rparr> of
             Some md \<Rightarrow> md
           | None \<Rightarrow> bare_metadata [] [])"

definition pw_Target :: "PendingWrite \<Rightarrow> ResolvedTargetMetadata" where
  "pw_Target p =
     (case targetIdentity p of
        (name, namespace) \<Rightarrow>
          (let md = findTargetMetadata p name namespace in
           if md_Name md \<noteq> [] then md else bare_metadata name namespace))"

fun first_event_path :: "Event list \<Rightarrow> string" where
  "first_event_path [] = []"
| "first_event_path (event # events) =
     (if ev_Path event \<noteq> [] then ev_Path event else first_event_path events)"

definition pw_path :: "PendingWrite \<Rightarrow> string" where
  "pw_path p =
     (if md_Path (pw_Target p) \<noteq> [] then md_Path (pw_Target p) else first_event_path (pw_Events p))"

fun pruneModeForBase :: "(pendingTargetKey, ResolvedTargetMetadata) gomap \<Rightarrow> string \<Rightarrow> PruneMode" where
  "pruneModeForBase [] base = PruneOnEvent"
| "pruneModeForBase ((key, md) # targets) base =
     (if sanitizePath (md_Path md) = base then OrDefault (md_PruneMode md)
      else pruneModeForBase targets base)"

fun placementPolicyForBase ::
  "(pendingTargetKey, ResolvedTargetMetadata) gomap \<Rightarrow> string \<Rightarrow> GitTargetPlacementSpec option" where
  "placementPolicyForBase [] base = None"
| "placementPolicyForBase ((key, md) # targets) base =
     (if sanitizePath (md_Path md) = base then md_Placement md
      else placementPolicyForBase targets base)"

section \<open>Message and author\<close>

definition buildAPIVersion :: "string \<Rightarrow> string \<Rightarrow> string" where
  "buildAPIVersion grp version = (if grp = [] then version else grp @ ''/'' @ version)"

definition renderEventCommitMessage :: "'w worker_env \<Rightarrow> Event \<Rightarrow> CommitConfig \<Rightarrow> git_error + string" where
  "renderEventCommitMessage env event config =
     we_renderCommitTemplate env ''event'' (cc_EventTemplate config)
       (EventData
          \<lparr> cd_Operation = ev_Operation event, cd_Group = ri_Group (ev_Identifier event),
            cd_Version = ri_Version (ev_Identifier event), cd_Resource = ri_Resource (ev_Identifier event),
            cd_Namespace = ri_Namespace (ev_Identifier event), cd_Name = ri_Name (ev_Identifier event),
            cd_APIVersion = buildAPIVersion (ri_Group (ev_Identifier event)) (ri_Version (ev_Identifier event)),
            cd_Username = ui_Username (ev_UserInfo event), cd_GitTarget = ev_GitTargetName event \<rparr>)"

definition reconcile_data :: "nat \<Rightarrow> string \<Rightarrow> ReconcileCommitMessageData" where
  "reconcile_data n gitTarget =
     \<lparr> rd_Count = n, rd_GitTarget = gitTarget, rd_Group = [], rd_Version = [], rd_Resource = [],
       rd_APIVersion = [], rd_Revision = [], rd_Namespace = [] \<rparr>"

definition renderReconcileCommitMessageFromEvents ::
  "'w worker_env \<Rightarrow> Event list \<Rightarrow> string \<Rightarrow> string \<Rightarrow> CommitConfig \<Rightarrow> git_error + string" where
  "renderReconcileCommitMessageFromEvents env events override gitTarget config =
     (if TrimSpace override \<noteq> [] then Inr override
      else we_renderCommitTemplate env ''reconcile'' (cc_ReconcileTemplate config)
             (ReconcileData (reconcile_data (length events) gitTarget)))"

definition renderReconcileCommitMessage ::
  "'w worker_env \<Rightarrow> nat \<Rightarrow> string \<Rightarrow> ResyncScope option \<Rightarrow> string \<Rightarrow> CommitConfig \<Rightarrow> git_error + string" where
  "renderReconcileCommitMessage env n gitTarget scope revision config =
     (let d = (reconcile_data n gitTarget)\<lparr> rd_Revision := revision \<rparr>;
          d = (case scope of
                 None \<Rightarrow> d
               | Some s \<Rightarrow> d\<lparr> rd_Group := gvr_Group (rs_GVR s), rd_Version := gvr_Version (rs_GVR s),
                   rd_Resource := gvr_Resource (rs_GVR s),
                   rd_APIVersion := buildAPIVersion (gvr_Group (rs_GVR s)) (gvr_Version (rs_GVR s)),
                   rd_Namespace := rs_Namespace s \<rparr>)
      in we_renderCommitTemplate env ''reconcile'' (cc_ReconcileTemplate config) (ReconcileData d))"

definition renderGroupCommitMessage :: "'w worker_env \<Rightarrow> PendingWrite \<Rightarrow> CommitConfig \<Rightarrow> git_error + string" where
  "renderGroupCommitMessage env p config =
     we_renderCommitTemplate env ''group'' (cc_GroupTemplate config)
       (GroupData (buildGroupedCommitMessageData (pw_Author p) (md_Name (pw_Target p)) (pw_Events p)))"

definition operatorSignature :: "CommitConfig \<Rightarrow> gotime \<Rightarrow> Signature" where
  "operatorSignature config when =
     \<lparr> sg_Name = cc_CommitterName config, sg_Email = cc_CommitterEmail config, sg_When = when \<rparr>"

definition commitOptionsFor ::
  "PendingWrite \<Rightarrow> CommitConfig \<Rightarrow> string option \<Rightarrow> gotime \<Rightarrow> CommitOptions" where
  "commitOptionsFor p config signer when =
     (let committer = operatorSignature config when;
          author = (if pw_AttributionOutcome p = AttributionUnresolved then UnresolvedAuthor
                    else AuthorUserInfo p)
      in if ui_Username author = []
         then \<lparr> co_Author = committer, co_Committer = committer, co_Signer = signer \<rparr>
         else \<lparr> co_Author = \<lparr> sg_Name = authorName author, sg_Email = authorEmail author, sg_When = when \<rparr>,
                co_Committer = committer, co_Signer = signer \<rparr>)"

definition commitMetadata :: "'w worker_env \<Rightarrow> PendingWrite \<Rightarrow> ('w, string \<times> CommitOptions) io" where
  "commitMetadata env p =
     bind_io (now_io env) (\<lambda>when.
       let options = commitOptionsFor p (pw_CommitConfig p) (pw_Signer p) when;
           finish = (\<lambda>r. case r of Inl e \<Rightarrow> fail_io e | Inr message \<Rightarrow> return_io (message, options))
       in if TrimSpace (pw_CommitMessage p) \<noteq> [] then return_io (pw_CommitMessage p, options)
          else case MessageKind p of
                 CommitMessagePerEvent \<Rightarrow>
                   (case pw_Events p of
                      [event] \<Rightarrow> finish (renderEventCommitMessage env event (pw_CommitConfig p))
                    | _ \<Rightarrow> fail_io (Failure ''per-event pending write requires exactly one event''))
               | CommitMessageReconcile \<Rightarrow>
                   finish (renderReconcileCommitMessageFromEvents env (pw_Events p) (pw_CommitMessage p)
                     (md_Name (pw_Target p)) (pw_CommitConfig p))
               | CommitMessageGrouped \<Rightarrow> finish (renderGroupCommitMessage env p (pw_CommitConfig p)))"

section \<open>Building a pending write\<close>

definition estimateEventSize :: "'w worker_env \<Rightarrow> Event \<Rightarrow> int" where
  "estimateEventSize env ev =
     (case ev_Object ev of
        None \<Rightarrow> 0
      | Some ob \<Rightarrow> (case we_MarshalToOrderedYAML env ob of Some b \<Rightarrow> int (length b) | None \<Rightarrow> 0))"

definition estimateEventsSize :: "'w worker_env \<Rightarrow> Event list \<Rightarrow> int" where
  "estimateEventsSize env events = sum_list (map (estimateEventSize env) events)"

definition estimateDesiredSize :: "'w worker_env \<Rightarrow> DesiredResource list \<Rightarrow> int" where
  "estimateDesiredSize env desired =
     sum_list (map (\<lambda>dr. case dr_Object dr of
         None \<Rightarrow> 0
       | Some ob \<Rightarrow> (case we_MarshalToOrderedYAML env ob of Some b \<Rightarrow> int (length b) | None \<Rightarrow> 0)) desired)"

definition buildBootstrapOptions :: "ResolvedEncryptionConfig option \<Rightarrow> pathBootstrapOptions" where
  "buildBootstrapOptions encryptionConfig =
     (case encryptionConfig of
        None \<Rightarrow> no_options\<lparr> bo_Enabled := True \<rparr>
      | Some c \<Rightarrow>
          if re_AgeRecipients c = [] then no_options\<lparr> bo_Enabled := True \<rparr>
          else \<lparr> bo_Enabled = True, bo_AgeRecipients = re_AgeRecipients c, bo_IncludeSOPSConfig = True \<rparr>)"

definition resolveTargetMetadata ::
  "'w worker_env \<Rightarrow> string \<Rightarrow> string \<Rightarrow> ('w, ResolvedTargetMetadata) io" where
  "resolveTargetMetadata env targetName targetNamespace =
     bind_io (we_getGitTarget env targetName targetNamespace) (\<lambda>target.
     bind_io (wrap_io ''failed to resolve target encryption configuration''
                (we_ResolveTargetEncryption env target)) (\<lambda>encryptionConfig.
     return_io
       \<lparr> md_Name = gt_Name target, md_Namespace = gt_Namespace target, md_Path = gt_Path target,
         md_BootstrapOptions = buildBootstrapOptions encryptionConfig,
         md_EncryptionConfig = encryptionConfig, md_Placement = gt_Placement target,
         md_PruneMode = EffectivePruneMode target, md_SourceCluster = SourceCluster target \<rparr>))"

definition stamp_event :: "ResolvedTargetMetadata \<Rightarrow> Event \<Rightarrow> Event" where
  "stamp_event md event =
     event\<lparr> ev_Path := (if ev_Path event = [] then md_Path md else ev_Path event),
       ev_GitTargetName := md_Name md, ev_GitTargetNamespace := md_Namespace md,
       ev_BootstrapOptions := md_BootstrapOptions md \<rparr>"

fun resolve_events ::
  "'w worker_env \<Rightarrow> (pendingTargetKey, ResolvedTargetMetadata) gomap \<Rightarrow> Event list
     \<Rightarrow> ('w, Event list \<times> (pendingTargetKey, ResolvedTargetMetadata) gomap) io" where
  "resolve_events env targets [] = return_io ([], targets)"
| "resolve_events env targets (event # events) =
     (if ev_GitTargetName event = [] \<or> ev_GitTargetNamespace event = []
      then bind_io (resolve_events env targets events) (\<lambda>(resolved, targets).
             return_io (event\<lparr> ev_BootstrapOptions := buildBootstrapOptions None \<rparr> # resolved, targets))
      else
        bind_io
          (case map_get targets \<lparr> ptk_Name = ev_GitTargetName event, ptk_Namespace = ev_GitTargetNamespace event \<rparr> of
             Some md \<Rightarrow> return_io (md, targets)
           | None \<Rightarrow>
               bind_io (resolveTargetMetadata env (ev_GitTargetName event) (ev_GitTargetNamespace event)) (\<lambda>md.
               return_io (md, map_put \<lparr> ptk_Name = md_Name md, ptk_Namespace = md_Namespace md \<rparr> md targets)))
          (\<lambda>(md, targets).
             bind_io (resolve_events env targets events) (\<lambda>(resolved, targets).
               return_io (stamp_event md event # resolved, targets))))"

definition resolveEventsForPendingWrite ::
  "'w worker_env \<Rightarrow> Event list \<Rightarrow> ('w, Event list \<times> (pendingTargetKey, ResolvedTargetMetadata) gomap) io" where
  "resolveEventsForPendingWrite env events = resolve_events env [] events"

definition empty_write :: "PendingWriteKind \<Rightarrow> CommitConfig \<Rightarrow> string option \<Rightarrow> PendingWrite" where
  "empty_write kind config signer =
     \<lparr> pw_Kind = kind, pw_Events = [], pw_CommitMessage = [], pw_CommitConfig = config, pw_Signer = signer,
       pw_GitTargetName = [], pw_GitTargetNamespace = [], pw_Targets = [], pw_ByteSize = 0,
       pw_Desired = [], pw_Scope = None, pw_Revision = [], pw_ResyncStats = None, pw_Committed = None,
       pw_CommitRequest = None, pw_CommitSHA = [] \<rparr>"

definition provider_and_signer :: "'w worker_env \<Rightarrow> ('w, GitProviderSpec \<times> string option) io" where
  "provider_and_signer env =
     bind_io (wrap_io ''get GitProvider'' (we_getGitProvider env)) (\<lambda>provider.
     bind_io (wrap_io ''resolve signer'' (we_getCommitSigner env provider)) (\<lambda>signer.
     return_io (provider, signer)))"

definition buildGroupedPendingWrite :: "'w worker_env \<Rightarrow> Event list \<Rightarrow> ('w, PendingWrite) io" where
  "buildGroupedPendingWrite env events =
     (if events = [] then fail_io (Failure ''grouped pending write requires at least one event'')
      else
        bind_io (provider_and_signer env) (\<lambda>(provider, signer).
        bind_io (resolveEventsForPendingWrite env events) (\<lambda>(resolvedEvents, targets).
        return_io
          ((empty_write PendingWriteCommit (ResolveCommitConfig (gps_Commit provider)) signer)
            \<lparr> pw_Events := resolvedEvents, pw_Targets := targets,
              pw_ByteSize := estimateEventsSize env resolvedEvents \<rparr>))))"

definition buildAtomicPendingWrite :: "'w worker_env \<Rightarrow> WriteRequest \<Rightarrow> ('w, PendingWrite) io" where
  "buildAtomicPendingWrite env request =
     (if wr_Events request = [] then fail_io (Failure ''atomic pending write requires at least one event'')
      else
        bind_io (provider_and_signer env) (\<lambda>(provider, signer).
        bind_io
          (if wr_GitTargetName request \<noteq> [] \<and> wr_GitTargetNamespace request \<noteq> []
           then bind_io (resolveTargetMetadata env (wr_GitTargetName request) (wr_GitTargetNamespace request)) (\<lambda>md.
                return_io (map (stamp_event md) (wr_Events request),
                           [(\<lparr> ptk_Name = md_Name md, ptk_Namespace = md_Namespace md \<rparr>, md)]))
           else return_io (wr_Events request, []))
          (\<lambda>(resolvedEvents, targets).
        return_io
          ((empty_write PendingWriteAtomic (ResolveCommitConfig (gps_Commit provider)) signer)
            \<lparr> pw_Events := resolvedEvents, pw_CommitMessage := wr_CommitMessage request,
              pw_GitTargetName := wr_GitTargetName request,
              pw_GitTargetNamespace := wr_GitTargetNamespace request, pw_Targets := targets,
              pw_ByteSize := estimateEventsSize env resolvedEvents \<rparr>))))"

definition no_stats :: ResyncStats where
  "no_stats = \<lparr> sa_Created = 0, sa_Updated = 0, sa_Deleted = 0, sa_Skipped = 0, sa_PlacementSkipped = 0,
     sa_Retained = 0, sa_PruneMode = [] \<rparr>"

definition buildResyncPendingWrite :: "'w worker_env \<Rightarrow> ResyncRequest \<Rightarrow> ('w, PendingWrite) io" where
  "buildResyncPendingWrite env req =
     (if rq_GitTargetName req = [] \<or> rq_GitTargetNamespace req = []
      then fail_io (Failure ''resync request requires a GitTarget name and namespace'')
      else
        bind_io (provider_and_signer env) (\<lambda>(provider, signer).
        bind_io (resolveTargetMetadata env (rq_GitTargetName req) (rq_GitTargetNamespace req)) (\<lambda>md.
        return_io
          ((empty_write PendingWriteResync (ResolveCommitConfig (gps_Commit provider)) signer)
            \<lparr> pw_Desired := rq_Desired req, pw_Revision := rq_Revision req, pw_Scope := rq_Scope req,
              pw_ResyncStats := Some no_stats, pw_GitTargetName := md_Name md,
              pw_GitTargetNamespace := md_Namespace md,
              pw_Targets := [(\<lparr> ptk_Name = md_Name md, ptk_Namespace = md_Namespace md \<rparr>, md)],
              pw_ByteSize := estimateDesiredSize env (rq_Desired req) \<rparr>))))"

section \<open>Executing pending writes\<close>

fun for_io :: "('a \<Rightarrow> ('w, unit) io) \<Rightarrow> 'a list \<Rightarrow> ('w, unit) io" where
  "for_io f [] = return_io ()"
| "for_io f (x # xs) = bind_io (f x) (\<lambda>_. for_io f xs)"

definition groupEventsByBase :: "Event list \<Rightarrow> (string, Event list) gomap" where
  "groupEventsByBase events =
     fold (\<lambda>event byBase.
         let base = sanitizePath (ev_Path event) in
         map_put base ((case map_get byBase base of Some es \<Rightarrow> es | None \<Rightarrow> []) @ [event]) byBase) events []"

definition sortedBaseKeys :: "(string, Event list) gomap \<Rightarrow> string list" where
  "sortedBaseKeys byBase = sort (map fst byBase)"

fun flush_bases ::
  "'w worker_env \<Rightarrow> (string, Event list) gomap \<Rightarrow> (pendingTargetKey, ResolvedTargetMetadata) gomap
     \<Rightarrow> string list \<Rightarrow> ('w, bool) io" where
  "flush_bases env byBase targets [] = return_io False"
| "flush_bases env byBase targets (base # bases) =
     bind_io
       (we_flushEventsToWorktree env base (case map_get byBase base of Some es \<Rightarrow> es | None \<Rightarrow> [])
          (placementPolicyForBase targets base) (pruneModeForBase targets base)) (\<lambda>changed.
     bind_io (flush_bases env byBase targets bases) (\<lambda>anyChanges.
     return_io (changed \<or> anyChanges)))"

definition applyPendingWriteEvents ::
  "'w worker_env \<Rightarrow> Event list \<Rightarrow> (pendingTargetKey, ResolvedTargetMetadata) gomap \<Rightarrow> ('w, bool) io" where
  "applyPendingWriteEvents env events targets =
     bind_io
       (for_io (\<lambda>event. we_ensureBootstrapTemplateInPath env (sanitizePath (ev_Path event)) (ev_BootstrapOptions event))
          events) (\<lambda>_.
     let byBase = groupEventsByBase events in
     flush_bases env byBase targets (sortedBaseKeys byBase))"

text \<open>
  The resync case. The statistics and the flag \<open>Committed\<close> are written through pointers of the
  pending write in the code; here they are part of the answer.
\<close>

definition executeResyncPendingWrite ::
  "'w worker_env \<Rightarrow> PendingWrite \<Rightarrow> ('w, nat \<times> PendingWrite) io" where
  "executeResyncPendingWrite env p =
     (let target = pw_Target p; base = sanitizePath (md_Path target) in
      bind_io (we_refuseUnsafeWorktree env base (md_SourceCluster target)) (\<lambda>_.
      bind_io (we_ensureBootstrapTemplateInPath env base (md_BootstrapOptions target)) (\<lambda>_.
      bind_io (wrap_io ''configure secret encryptor''
                 (we_configureSecretEncryptionWriter env base (md_EncryptionConfig target))) (\<lambda>_.
      bind_io (we_applyResyncToWorktree env base target (pw_Desired p) (pw_Scope p)) (\<lambda>(stats, anyChanges).
      let p = p\<lparr> pw_ResyncStats := map_option (\<lambda>_. stats) (pw_ResyncStats p) \<rparr> in
      if \<not> anyChanges then return_io (0, p)
      else
        case renderReconcileCommitMessage env (sa_Created stats + sa_Updated stats + sa_Deleted stats)
               (md_Name target) (pw_Scope p) (pw_Revision p) (pw_CommitConfig p) of
          Inl e \<Rightarrow> fail_io e
        | Inr rendered \<Rightarrow>
            bind_io (commitMetadata env (p\<lparr> pw_CommitMessage := rendered \<rparr>)) (\<lambda>(message, options).
            bind_io (wrap_io ''failed to create resync commit'' (we_Commit env message options)) (\<lambda>_.
            return_io (1, p\<lparr> pw_Committed := map_option (\<lambda>_. True) (pw_Committed p) \<rparr>))))))))"

text \<open>The answer holds the commits created and the pending write with its new hash.\<close>

definition executePendingWrite :: "'w worker_env \<Rightarrow> PendingWrite \<Rightarrow> ('w, nat \<times> PendingWrite) io" where
  "executePendingWrite env p =
     (if pw_Kind p = PendingWriteResync then
        bind_io (executeResyncPendingWrite env p) (\<lambda>(created, p). return_io (created, p\<lparr> pw_CommitSHA := [] \<rparr>))
      else if pw_Events p = [] then return_io (0, p\<lparr> pw_CommitSHA := [] \<rparr>)
      else
        bind_io (wrap_io ''configure secret encryptor''
                   (we_configureSecretEncryptionWriter env (sanitizePath (pw_path p))
                      (md_EncryptionConfig (pw_Target p)))) (\<lambda>_.
        bind_io (applyPendingWriteEvents env (pw_Events p) (pw_Targets p)) (\<lambda>anyChanges.
        if \<not> anyChanges then return_io (0, p\<lparr> pw_CommitSHA := [] \<rparr>)
        else
          bind_io (commitMetadata env p) (\<lambda>(message, options).
          bind_io (wrap_io ''failed to create commit'' (we_Commit env message options)) (\<lambda>hash.
          return_io (1, p\<lparr> pw_CommitSHA := hash \<rparr>))))))"

text \<open>
  An error stops the loop; the writes before it keep their new hash, since the slice is the caller's.
\<close>

fun execute_writes ::
  "'w worker_env \<Rightarrow> PendingWrite list \<Rightarrow> 'w \<Rightarrow> (git_error + nat) \<times> PendingWrite list \<times> 'w" where
  "execute_writes env [] w = (Inr 0, [], w)"
| "execute_writes env (p # ps) w =
     (case executePendingWrite env p w of
        (Inl e, w) \<Rightarrow> (Inl e, p # ps, w)
      | (Inr (created, p'), w) \<Rightarrow>
          (case execute_writes env ps w of
             (Inl e, ps', w) \<Rightarrow> (Inl e, p' # ps', w)
           | (Inr n, ps', w) \<Rightarrow> (Inr (created + n), p' # ps', w)))"

definition executePendingWrites ::
  "'w worker_env \<Rightarrow> PendingWrite list \<Rightarrow> 'w \<Rightarrow> (git_error + nat) \<times> PendingWrite list \<times> 'w" where
  "executePendingWrites env pendingWrites w =
     (case wrap_io ''failed to get worktree'' (we_Worktree env) w of
        (Inl e, w) \<Rightarrow> (Inl e, pendingWrites, w)
      | (Inr _, w) \<Rightarrow> execute_writes env pendingWrites w)"

section \<open>The worker\<close>

record commitRequestOutcomeEntry =
  oe_result :: FinalizeResult
  oe_resolvedAt :: gotime

datatype WorkItem =
  ItemRequest WriteRequest
| ItemAttach AttachCommitRequest
| ItemResync ResyncRequest

record BranchWorker =
  bw_GitProviderRef :: string
  bw_GitProviderNamespace :: string
  bw_Branch :: string
  bw_contentWriter :: SensitiveResourcePolicy
  bw_branchBufferMaxBytes :: int
  bw_eventQueue :: "WorkItem list"
  bw_inflightItems :: int
  bw_hasUnpushedWork :: bool
  bw_branchExists :: bool
  bw_lastCommitSHA :: string
  bw_lastFetchTime :: gotime
  bw_pushCycleRootBranch :: string
  bw_pushCycleRootHash :: string
  bw_crOutcomes :: "(commitRequestID, commitRequestOutcomeEntry) gomap"

definition repoPathForRemote :: "'w worker_env \<Rightarrow> BranchWorker \<Rightarrow> string \<Rightarrow> string" where
  "repoPathForRemote env bw remoteURL =
     Clean (Join ''/'' [''/tmp'', ''gitops-reverser-workers'', bw_GitProviderNamespace bw, bw_GitProviderRef bw,
       bw_Branch bw, ''repos'', we_sha256_hex env (TrimSpace remoteURL)])"

definition branch_ref :: "string \<Rightarrow> string" where
  "branch_ref branch = ''refs/heads/'' @ branch"

definition ensureWriteBranch :: "'w worker_env \<Rightarrow> BranchWorker \<Rightarrow> ('w, string \<times> string) io" where
  "ensureWriteBranch env bw =
     bind_io (wrap_io ''get current branch'' (we_GetCurrentBranch env)) (\<lambda>(baseBranch, baseHash).
     if baseBranch \<noteq> branch_ref (bw_Branch bw)
     then bind_io (we_switchOrCreateBranch env (branch_ref (bw_Branch bw)) baseHash) (\<lambda>_.
            return_io (baseBranch, baseHash))
     else return_io (baseBranch, baseHash))"

definition updateBranchMetadataFromPullReport ::
  "'w worker_env \<Rightarrow> PullReport \<Rightarrow> BranchWorker \<Rightarrow> 'w \<Rightarrow> BranchWorker \<times> 'w" where
  "updateBranchMetadataFromPullReport env report bw w =
     (case we_now env w of
        (t, w) \<Rightarrow> (bw\<lparr> bw_branchExists := pr_ExistsOnRemote report, bw_lastCommitSHA := pr_Sha report,
                       bw_lastFetchTime := t \<rparr>, w))"

text \<open>\<open>commitPendingWrites\<close>: an error, the writes with their hashes, the worker and the world.\<close>

type_synonym 'w batch_result = "git_error option \<times> PendingWrite list \<times> BranchWorker \<times> 'w"

definition prepare_cycle ::
  "'w worker_env \<Rightarrow> GitProviderSpec \<Rightarrow> BranchWorker \<Rightarrow> bool \<Rightarrow> 'w \<Rightarrow> git_error option \<times> BranchWorker \<times> 'w" where
  "prepare_cycle env provider bw hasPendingCommits w =
     (if hasPendingCommits then (None, bw, w)
      else
        case bind_io (wrap_io ''resolve auth'' (we_getAuthFromSecret env provider)) (\<lambda>auth.
               wrap_io ''prepare repository''
                 (we_PrepareBranch env (gps_URL provider) (repoPathForRemote env bw (gps_URL provider)) auth)) w of
          (Inl e, w) \<Rightarrow> (Some e, bw, w)
        | (Inr pullReport, w) \<Rightarrow>
            (case updateBranchMetadataFromPullReport env pullReport bw w of (bw, w) \<Rightarrow> (None, bw, w)))"

definition commitPendingWrites ::
  "'w worker_env \<Rightarrow> PendingWrite list \<Rightarrow> bool \<Rightarrow> BranchWorker \<Rightarrow> 'w \<Rightarrow> 'w batch_result" where
  "commitPendingWrites env pendingWrites hasPendingCommits bw w =
     (if pendingWrites = [] then (None, [], bw, w)
      else
        case wrap_io ''get GitProvider'' (we_getGitProvider env) w of
          (Inl e, w) \<Rightarrow> (Some e, pendingWrites, bw, w)
        | (Inr provider, w) \<Rightarrow>
        (case prepare_cycle env provider bw hasPendingCommits w of
          (Some e, bw, w) \<Rightarrow> (Some e, pendingWrites, bw, w)
        | (None, bw, w) \<Rightarrow>
        (case bind_io (wrap_io ''open repository'' (we_PlainOpen env (repoPathForRemote env bw (gps_URL provider))))
                (\<lambda>_. ensureWriteBranch env bw) w of
          (Inl e, w) \<Rightarrow> (Some e, pendingWrites, bw, w)
        | (Inr (baseBranch, baseHash), w) \<Rightarrow>
            (let bw = (if hasPendingCommits then bw
                       else bw\<lparr> bw_pushCycleRootBranch := baseBranch, bw_pushCycleRootHash := baseHash \<rparr>)
             in case executePendingWrites env pendingWrites w of
                  (Inl e, ps, w) \<Rightarrow> (Some (wrap ''execute pending writes'' e), ps, bw, w)
                | (Inr _, ps, w) \<Rightarrow> (None, ps, bw, w)))))"

section \<open>Replaying after a conflict\<close>

text \<open>
  The prune mode a target has now, from the cache of this pass or read again: a target that is gone
  gives the most restrictive mode, a failed read stops the pass.
\<close>

definition current_mode ::
  "'w worker_env \<Rightarrow> (pendingTargetKey, PruneMode) gomap \<Rightarrow> pendingTargetKey \<Rightarrow> ('w, PruneMode) io" where
  "current_mode env current key w =
     (case map_get current key of
        Some mode \<Rightarrow> (Inr mode, w)
      | None \<Rightarrow>
          (case we_getGitTarget env (ptk_Name key) (ptk_Namespace key) w of
             (Inl (NotFound e), w) \<Rightarrow> (Inr PruneNever, w)
           | (Inl e, w) \<Rightarrow>
               (Inl (wrap (''re-read prune policy for '' @ ptk_Namespace key @ ''/'' @ ptk_Name key @ '' before replay'') e), w)
           | (Inr target, w) \<Rightarrow> (Inr (EffectivePruneMode target), w)))"

definition tighten :: "PruneMode \<Rightarrow> ResolvedTargetMetadata \<Rightarrow> ResolvedTargetMetadata" where
  "tighten mode md =
     (let tightened = MoreRestrictiveOf (md_PruneMode md) mode in
      if tightened = OrDefault (md_PruneMode md) then md else md\<lparr> md_PruneMode := tightened \<rparr>)"

text \<open>The maps are updated in place, so what was tightened before an error stays tightened.\<close>

fun tighten_targets ::
  "'w worker_env \<Rightarrow> (pendingTargetKey, PruneMode) gomap \<Rightarrow> (pendingTargetKey, ResolvedTargetMetadata) gomap \<Rightarrow> 'w
     \<Rightarrow> git_error option \<times> (pendingTargetKey, PruneMode) gomap
        \<times> (pendingTargetKey, ResolvedTargetMetadata) gomap \<times> 'w" where
  "tighten_targets env current [] w = (None, current, [], w)"
| "tighten_targets env current ((key, md) # targets) w =
     (case current_mode env current key w of
        (Inl e, w) \<Rightarrow> (Some e, current, (key, md) # targets, w)
      | (Inr mode, w) \<Rightarrow>
          (case tighten_targets env (map_put key mode current) targets w of
             (err, current, targets, w) \<Rightarrow> (err, current, (key, tighten mode md) # targets, w)))"

fun tighten_writes ::
  "'w worker_env \<Rightarrow> (pendingTargetKey, PruneMode) gomap \<Rightarrow> PendingWrite list \<Rightarrow> 'w
     \<Rightarrow> git_error option \<times> PendingWrite list \<times> 'w" where
  "tighten_writes env current [] w = (None, [], w)"
| "tighten_writes env current (p # ps) w =
     (case tighten_targets env current (pw_Targets p) w of
        (Some e, current, targets, w) \<Rightarrow> (Some e, p\<lparr> pw_Targets := targets \<rparr> # ps, w)
      | (None, current, targets, w) \<Rightarrow>
          (case tighten_writes env current ps w of
             (err, ps, w) \<Rightarrow> (err, p\<lparr> pw_Targets := targets \<rparr> # ps, w)))"

definition tightenPendingPruneModes ::
  "'w worker_env \<Rightarrow> PendingWrite list \<Rightarrow> 'w \<Rightarrow> git_error option \<times> PendingWrite list \<times> 'w" where
  "tightenPendingPruneModes env pendingWrites w = tighten_writes env [] pendingWrites w"

definition rebuildPendingWrites ::
  "'w worker_env \<Rightarrow> BranchWorker \<Rightarrow> PendingWrite list \<Rightarrow> 'w
     \<Rightarrow> (git_error + string \<times> string) \<times> PendingWrite list \<times> 'w" where
  "rebuildPendingWrites env bw pendingWrites w =
     (case ensureWriteBranch env bw w of
        (Inl e, w) \<Rightarrow> (Inl e, pendingWrites, w)
      | (Inr base, w) \<Rightarrow>
          (case tightenPendingPruneModes env pendingWrites w of
             (Some e, ps, w) \<Rightarrow> (Inl e, ps, w)
           | (None, ps, w) \<Rightarrow>
               (case executePendingWrites env ps w of
                  (Inl e, ps, w) \<Rightarrow> (Inl (wrap ''execute replay pending writes'' e), ps, w)
                | (Inr _, ps, w) \<Rightarrow> (Inr base, ps, w))))"

definition maxRetries :: nat where
  "maxRetries = 3"

text \<open>One push attempt after the other; \<open>n\<close> attempts are left.\<close>

fun push_loop ::
  "'w worker_env \<Rightarrow> string \<Rightarrow> nat \<Rightarrow> string \<Rightarrow> git_error \<Rightarrow> PendingWrite list \<Rightarrow> BranchWorker \<Rightarrow> 'w \<Rightarrow> 'w batch_result"
  where
  "push_loop env auth 0 rootHash lastErr ps bw w =
     (Some (wrap ''push failed after 3 attempts'' lastErr), ps, bw, w)"
| "push_loop env auth (Suc n) rootHash lastErr ps bw w =
     (let rootBranch = (if bw_pushCycleRootBranch bw = [] then branch_ref (bw_Branch bw)
                        else bw_pushCycleRootBranch bw)
      in case we_pushAtomic env rootHash rootBranch auth w of
           (Inr _, w) \<Rightarrow> (None, ps, bw\<lparr> bw_pushCycleRootBranch := [], bw_pushCycleRootHash := [] \<rparr>, w)
         | (Inl err, w) \<Rightarrow>
             (case we_fetchRemoteBranchHash env rootBranch auth w of
                (Inl _, w) \<Rightarrow> (Some err, ps, bw, w)
              | (Inr remoteHash, w) \<Rightarrow>
                  if remoteHash = rootHash then (Some err, ps, bw, w)
                  else
                    (case we_syncToRemote env (branch_ref (bw_Branch bw)) auth w of
                       (Inl e, w) \<Rightarrow> (Some (wrap ''sync remote during replay'' e), ps, bw, w)
                     | (Inr pullReport, w) \<Rightarrow>
                         (case updateBranchMetadataFromPullReport env pullReport bw w of
                            (bw, w) \<Rightarrow>
                              (case rebuildPendingWrites env bw ps w of
                                 (Inl e, ps, w) \<Rightarrow> (Some e, ps, bw, w)
                               | (Inr (branch, hash), ps, w) \<Rightarrow>
                                   push_loop env auth n hash err ps
                                     (bw\<lparr> bw_pushCycleRootBranch := branch, bw_pushCycleRootHash := hash \<rparr>) w)))))"

definition pushPendingCommits ::
  "'w worker_env \<Rightarrow> PendingWrite list \<Rightarrow> BranchWorker \<Rightarrow> 'w \<Rightarrow> 'w batch_result" where
  "pushPendingCommits env pendingWrites bw w =
     (if pendingWrites = [] then (None, [], bw, w)
      else
        case bind_io (wrap_io ''get GitProvider'' (we_getGitProvider env)) (\<lambda>provider.
             bind_io (wrap_io ''resolve auth'' (we_getAuthFromSecret env provider)) (\<lambda>auth.
             bind_io (wrap_io ''open repository'' (we_PlainOpen env (repoPathForRemote env bw (gps_URL provider)))) (\<lambda>_.
             return_io auth))) w of
          (Inl e, w) \<Rightarrow> (Some e, pendingWrites, bw, w)
        | (Inr auth, w) \<Rightarrow>
            push_loop env auth maxRetries (bw_pushCycleRootHash bw) (Failure []) pendingWrites bw w)"

section \<open>What executing a write keeps\<close>

text \<open>
  Executing, tightening and replaying change a write only in its hash, its resync outcome and the
  prune modes of its targets: the events, the message, the CommitRequest and the size are carried along.
\<close>

definition same_write :: "PendingWrite \<Rightarrow> PendingWrite \<Rightarrow> bool" where
  "same_write p q =
     (pw_Kind q = pw_Kind p \<and> pw_Events q = pw_Events p \<and> pw_CommitMessage q = pw_CommitMessage p
      \<and> pw_CommitConfig q = pw_CommitConfig p \<and> pw_Signer q = pw_Signer p
      \<and> pw_GitTargetName q = pw_GitTargetName p \<and> pw_GitTargetNamespace q = pw_GitTargetNamespace p
      \<and> pw_ByteSize q = pw_ByteSize p \<and> pw_Desired q = pw_Desired p \<and> pw_Scope q = pw_Scope p
      \<and> pw_Revision q = pw_Revision p \<and> pw_CommitRequest q = pw_CommitRequest p)"

lemma same_write_refl [simp, intro]: "same_write p p"
  by (simp add: same_write_def)

lemma same_write_trans [trans]: "same_write p q \<Longrightarrow> same_write q r \<Longrightarrow> same_write p r"
  by (simp add: same_write_def)

lemma same_writes_refl [simp, intro]: "list_all2 same_write ps ps"
  by (simp add: list_all2_refl)

lemma same_writes_trans:
  "list_all2 same_write ps qs \<Longrightarrow> list_all2 same_write qs rs \<Longrightarrow> list_all2 same_write ps rs"
  by (rule list_all2_trans [of same_write same_write same_write]) (auto intro: same_write_trans)

lemma bind_io_InrE:
  assumes "bind_io m f w = (Inr y, w')"
  obtains x w1 where "m w = (Inr x, w1)" and "f x w1 = (Inr y, w')"
  using assms by (auto simp: bind_io_def split: prod.splits sum.splits)

lemma return_io_InrE [elim!]:
  assumes "return_io x w = (Inr y, w')"
  obtains "y = x" and "w' = w"
  using assms by (auto simp: return_io_def)

lemma fail_io_Inr [simp]: "fail_io e w \<noteq> (Inr y, w')"
  by (simp add: fail_io_def)

lemma executeResyncPendingWrite_same:
  assumes "executeResyncPendingWrite env p w = (Inr (n, q), w')"
  shows "same_write p q"
  using assms unfolding executeResyncPendingWrite_def Let_def
  by (auto elim!: bind_io_InrE split: if_splits sum.splits prod.splits simp: same_write_def)

lemma executePendingWrite_same:
  assumes "executePendingWrite env p w = (Inr (n, q), w')"
  shows "same_write p q"
proof (cases "pw_Kind p = PendingWriteResync")
  case True
  with assms obtain m r where "executeResyncPendingWrite env p w = (Inr (m, r), w')" and "q = r\<lparr> pw_CommitSHA := [] \<rparr>"
    by (auto simp: executePendingWrite_def elim!: bind_io_InrE)
  with executeResyncPendingWrite_same show ?thesis by (fastforce simp: same_write_def)
next
  case False
  with assms show ?thesis
    by (auto simp: executePendingWrite_def same_write_def elim!: bind_io_InrE split: if_splits)
qed

lemma execute_writes_same:
  "execute_writes env ps w = (r, qs, w') \<Longrightarrow> list_all2 same_write ps qs"
proof (induction ps arbitrary: w r qs w')
  case (Cons p ps)
  then show ?case
    by (auto split: prod.splits sum.splits dest: executePendingWrite_same)
qed simp

lemma executePendingWrites_same:
  "executePendingWrites env ps w = (r, qs, w') \<Longrightarrow> list_all2 same_write ps qs"
  by (auto simp: executePendingWrites_def split: prod.splits sum.splits dest: execute_writes_same)

section \<open>Deletion policy of a replay\<close>

text \<open>
  The policies a replay reads, once per target and in the order of the retained writes; a target that is
  gone allows no deletion.
\<close>

fun read_policies ::
  "'w worker_env \<Rightarrow> (pendingTargetKey, PruneMode) gomap \<Rightarrow> pendingTargetKey list
     \<Rightarrow> ('w, (pendingTargetKey, PruneMode) gomap) io" where
  "read_policies env now [] = return_io now"
| "read_policies env now (key # keys) =
     bind_io (current_mode env now key) (\<lambda>mode. read_policies env (map_put key mode now) keys)"

definition target_keys :: "PendingWrite list \<Rightarrow> pendingTargetKey list" where
  "target_keys ps = concat (map (map fst \<circ> pw_Targets) ps)"

definition policy_now :: "(pendingTargetKey, PruneMode) gomap \<Rightarrow> pendingTargetKey \<Rightarrow> PruneMode" where
  "policy_now now key = (case map_get now key of Some mode \<Rightarrow> mode | None \<Rightarrow> PruneNever)"

definition tightened :: "(pendingTargetKey, PruneMode) gomap \<Rightarrow> PendingWrite \<Rightarrow> PendingWrite" where
  "tightened now p = p\<lparr> pw_Targets := map (\<lambda>(key, md). (key, tighten (policy_now now key) md)) (pw_Targets p) \<rparr>"

text \<open>
  What the two policies of a target leave: an applied DELETE event needs both to apply them, a sweep of
  orphans needs both to sweep. A folder that belongs to no target of the write has no policy.
\<close>

definition may_delete :: "(pendingTargetKey, PruneMode) gomap \<Rightarrow> PendingWrite \<Rightarrow> string \<Rightarrow> bool" where
  "may_delete now p base \<longleftrightarrow>
     (\<exists>(key, md) \<in> set (pw_Targets p). sanitizePath (md_Path md) = base
        \<and> AppliesEventDeletes (OrDefault (md_PruneMode md)) \<and> AppliesEventDeletes (OrDefault (policy_now now key)))
     \<or> (\<forall>(key, md) \<in> set (pw_Targets p). sanitizePath (md_Path md) \<noteq> base)"

definition may_sweep :: "(pendingTargetKey, PruneMode) gomap \<Rightarrow> PendingWrite \<Rightarrow> bool" where
  "may_sweep now p \<longleftrightarrow>
     (\<exists>(key, md) \<in> set (pw_Targets p).
        SweepsOrphans (OrDefault (md_PruneMode md)) \<and> SweepsOrphans (OrDefault (policy_now now key)))"

lemma read_policies_keep:
  assumes "read_policies env now keys w = (Inr now', w')" and "map_get now key = Some mode"
  shows "map_get now' key = Some mode"
  using assms
proof (induction keys arbitrary: now w)
  case Nil
  then show ?case by (simp add: return_io_def)
next
  case (Cons k keys)
  from Cons.prems(1) obtain m w1 where m: "current_mode env now k w = (Inr m, w1)"
      "read_policies env (map_put k m now) keys w1 = (Inr now', w')"
    by (auto elim!: bind_io_InrE)
  have "map_get (map_put k m now) key = Some mode"
    using m(1) Cons.prems(2) by (auto simp: al.lookup_put current_mode_def)
  then show ?case using Cons.IH m(2) by blast
qed

lemma tighten_targets_exact:
  assumes "tighten_targets env current targets w = (None, current', targets', w')"
    and "read_policies env current' keys w' = (Inr now, w'')"
  shows "read_policies env current (map fst targets @ keys) w = (Inr now, w'')
     \<and> targets' = map (\<lambda>(key, md). (key, tighten (policy_now now key) md)) targets"
  using assms
proof (induction targets arbitrary: current w targets')
  case (Cons t targets)
  obtain key md where t: "t = (key, md)" by (cases t)
  from Cons.prems(1) obtain mode w1 ts where
      mode: "current_mode env current key w = (Inr mode, w1)"
      and rest: "tighten_targets env (map_put key mode current) targets w1 = (None, current', ts, w')"
      and out: "targets' = (key, tighten mode md) # ts"
    by (auto simp: t split: prod.splits sum.splits)
  from Cons.IH [OF rest Cons.prems(2)]
  have IH: "read_policies env (map_put key mode current) (map fst targets @ keys) w1 = (Inr now, w'')"
    "ts = map (\<lambda>(key, md). (key, tighten (policy_now now key) md)) targets" by simp_all
  have "map_get now key = Some mode"
    using read_policies_keep [OF IH(1)] by (simp add: al.lookup_put)
  then show ?case using IH mode by (simp add: t out policy_now_def bind_io_def)
qed simp

lemma tighten_writes_exact:
  assumes "tighten_writes env current ps w = (None, qs, w')"
  shows "\<exists>now. read_policies env current (target_keys ps) w = (Inr now, w') \<and> qs = map (tightened now) ps"
  using assms
proof (induction ps arbitrary: current w qs)
  case Nil
  then show ?case by (simp add: target_keys_def return_io_def)
next
  case (Cons p ps)
  from Cons.prems obtain current1 ts w1 rest where
      ts: "tighten_targets env current (pw_Targets p) w = (None, current1, ts, w1)"
      and rest: "tighten_writes env current1 ps w1 = (None, rest, w')"
      and out: "qs = p\<lparr> pw_Targets := ts \<rparr> # rest"
    by (auto split: prod.splits option.splits)
  from Cons.IH [OF rest] obtain now
    where now: "read_policies env current1 (target_keys ps) w1 = (Inr now, w')" "rest = map (tightened now) ps" by blast
  from tighten_targets_exact [OF ts now(1)] now(2)
  show ?case by (auto simp: out tightened_def target_keys_def)
qed

lemma tighten_mode: "OrDefault (md_PruneMode (tighten mode md)) = MoreRestrictiveOf (md_PruneMode md) mode"
  by (simp add: tighten_def Let_def MoreRestrictiveOf_resolved)

lemma tighten_path [simp]: "md_Path (tighten mode md) = md_Path md"
  by (simp add: tighten_def Let_def)

lemma tightened_delete:
  "AppliesEventDeletes (pruneModeForBase (pw_Targets (tightened now p)) base) \<Longrightarrow> may_delete now p base"
proof -
  have "AppliesEventDeletes (pruneModeForBase (map (\<lambda>(key, md). (key, tighten (policy_now now key) md)) ts) base) \<Longrightarrow>
      (\<exists>(key, md) \<in> set ts. sanitizePath (md_Path md) = base
        \<and> AppliesEventDeletes (OrDefault (md_PruneMode md)) \<and> AppliesEventDeletes (OrDefault (policy_now now key)))
      \<or> (\<forall>(key, md) \<in> set ts. sanitizePath (md_Path md) \<noteq> base)" for ts
    by (induction ts) (auto simp: tighten_mode MoreRestrictiveOf_meet split: if_splits)
  then show "AppliesEventDeletes (pruneModeForBase (pw_Targets (tightened now p)) base) \<Longrightarrow> may_delete now p base"
    by (simp add: tightened_def may_delete_def)
qed

lemma tightened_sweep:
  assumes "SweepsOrphans (OrDefault (md_PruneMode (pw_Target (tightened now p))))"
  shows "may_sweep now p"
proof -
  let ?ts = "map (\<lambda>(key, md). (key, tighten (policy_now now key) md)) (pw_Targets p)"
  have bare: "\<not> SweepsOrphans (OrDefault (md_PruneMode (bare_metadata a b)))" for a b
    by (simp add: bare_metadata_def OrDefault_def SweepsOrphans_def prune_modes)
  then obtain key md where "map_get ?ts key = Some md" "pw_Target (tightened now p) = md"
    using assms by (auto simp: pw_Target_def findTargetMetadata_def tightened_def Let_def split: if_splits option.splits prod.splits)
  then obtain md0 where "(key, md0) \<in> set (pw_Targets p)" "pw_Target (tightened now p) = tighten (policy_now now key) md0"
    by (auto dest!: map_of_SomeD)
  then show ?thesis
    using assms MoreRestrictiveOf_meet [of "md_PruneMode md0" "policy_now now key"]
    by (auto simp: may_sweep_def tighten_mode)
qed

lemma groupEventsByBase_events:
  assumes "map_get (groupEventsByBase events) base = Some es"
  shows "set es \<subseteq> set events"
proof -
  let ?f = "\<lambda>event byBase. let base = sanitizePath (ev_Path event) in
      map_put base ((case map_get byBase base of Some es \<Rightarrow> es | None \<Rightarrow> []) @ [event]) byBase"
  have "\<forall>base es. map_get (fold ?f evs m) base = Some es \<longrightarrow> set es \<subseteq> S"
    if "set evs \<subseteq> S" "\<forall>base es. map_get m base = Some es \<longrightarrow> set es \<subseteq> S" for evs m S
    using that
  proof (induction evs arbitrary: m)
    case (Cons e evs)
    have "\<forall>base es. map_get (?f e m) base = Some es \<longrightarrow> set es \<subseteq> S"
      using Cons.prems by (cases "map_get m (sanitizePath (ev_Path e))") (auto simp: Let_def al.lookup_put)
    with Cons show ?case by simp
  qed simp
  from this [of events "set events" "[]"] assms show ?thesis by (simp add: groupEventsByBase_def)
qed

section \<open>The calls of a replay\<close>

text \<open>
  A worker with other functions for writing a folder and for applying a resync. Two workers whose
  functions agree on some calls do the same as long as they make only those calls.
\<close>

definition with_writers where
  "with_writers flush resync env = env\<lparr> we_flushEventsToWorktree := flush, we_applyResyncToWorktree := resync \<rparr>"

lemma with_writers_fields [simp]:
  "we_flushEventsToWorktree (with_writers flush resync env) = flush"
  "we_applyResyncToWorktree (with_writers flush resync env) = resync"
  "we_getGitTarget (with_writers flush resync env) = we_getGitTarget env"
  "we_Worktree (with_writers flush resync env) = we_Worktree env"
  "we_ensureBootstrapTemplateInPath (with_writers flush resync env) = we_ensureBootstrapTemplateInPath env"
  "we_configureSecretEncryptionWriter (with_writers flush resync env) = we_configureSecretEncryptionWriter env"
  "we_refuseUnsafeWorktree (with_writers flush resync env) = we_refuseUnsafeWorktree env"
  "we_Commit (with_writers flush resync env) = we_Commit env"
  "we_GetCurrentBranch (with_writers flush resync env) = we_GetCurrentBranch env"
  "we_switchOrCreateBranch (with_writers flush resync env) = we_switchOrCreateBranch env"
  "we_renderCommitTemplate (with_writers flush resync env) = we_renderCommitTemplate env"
  "we_now (with_writers flush resync env) = we_now env"
  by (simp_all add: with_writers_def)

lemma with_writers_calls [simp]:
  "commitMetadata (with_writers flush resync env) = commitMetadata env"
  "renderReconcileCommitMessage (with_writers flush resync env) = renderReconcileCommitMessage env"
  "ensureWriteBranch (with_writers flush resync env) = ensureWriteBranch env"
  "current_mode (with_writers flush resync env) = current_mode env"
  unfolding fun_eq_iff commitMetadata_def now_io_def renderEventCommitMessage_def renderReconcileCommitMessageFromEvents_def
    renderGroupCommitMessage_def renderReconcileCommitMessage_def ensureWriteBranch_def current_mode_def with_writers_fields
  by (intro allI refl)+

lemma with_writers_tighten [simp]:
  "tightenPendingPruneModes (with_writers flush resync env) = tightenPendingPruneModes env"
proof -
  have targets: "tighten_targets (with_writers flush resync env) current ts w = tighten_targets env current ts w" for current ts w
    by (induction ts arbitrary: current w) (auto split: sum.splits prod.splits)
  have "tighten_writes (with_writers flush resync env) current ps w = tighten_writes env current ps w" for current ps w
    by (induction ps arbitrary: current w) (auto simp: targets split: option.splits prod.splits)
  then show ?thesis by (simp add: fun_eq_iff tightenPendingPruneModes_def)
qed

lemma flush_bases_cong:
  assumes "\<And>base. base \<in> set bases \<Longrightarrow>
      flush base (case map_get byBase base of Some es \<Rightarrow> es | None \<Rightarrow> []) (placementPolicyForBase targets base) (pruneModeForBase targets base)
      = we_flushEventsToWorktree env base (case map_get byBase base of Some es \<Rightarrow> es | None \<Rightarrow> [])
          (placementPolicyForBase targets base) (pruneModeForBase targets base)"
  shows "flush_bases (with_writers flush resync env) byBase targets bases = flush_bases env byBase targets bases"
  using assms by (induction bases) simp_all

definition agree_on_permitted where
  "agree_on_permitted now ps env flush resync \<longleftrightarrow>
     (\<forall>p \<in> set ps.
        (\<forall>base es placement mode. set es \<subseteq> set (pw_Events p) \<and> (AppliesEventDeletes mode \<longrightarrow> may_delete now p base) \<longrightarrow>
           flush base es placement mode = we_flushEventsToWorktree env base es placement mode)
        \<and> (\<forall>base md. (SweepsOrphans (OrDefault (md_PruneMode md)) \<longrightarrow> may_sweep now p) \<longrightarrow>
             resync base md (pw_Desired p) (pw_Scope p) = we_applyResyncToWorktree env base md (pw_Desired p) (pw_Scope p)))"

lemma execute_permitted:
  assumes agree: "agree_on_permitted now ps env flush resync" and p: "p \<in> set ps"
  shows "executePendingWrite (with_writers flush resync env) (tightened now p) = executePendingWrite env (tightened now p)"
proof -
  let ?p = "tightened now p" and ?env = "with_writers flush resync env"
  have ev: "pw_Events ?p = pw_Events p" "pw_Desired ?p = pw_Desired p" "pw_Scope ?p = pw_Scope p"
    by (simp_all add: tightened_def)
  have "resync base (pw_Target ?p) (pw_Desired ?p) (pw_Scope ?p)
      = we_applyResyncToWorktree env base (pw_Target ?p) (pw_Desired ?p) (pw_Scope ?p)" for base
    using agree p tightened_sweep [of now p] by (simp add: ev agree_on_permitted_def)
  then have resync: "executeResyncPendingWrite ?env ?p = executeResyncPendingWrite env ?p"
    unfolding executeResyncPendingWrite_def Let_def with_writers_fields with_writers_calls by simp
  have "flush_bases ?env (groupEventsByBase (pw_Events p)) (pw_Targets ?p) bases =
      flush_bases env (groupEventsByBase (pw_Events p)) (pw_Targets ?p) bases" for bases
    using agree p tightened_delete [of now p] groupEventsByBase_events [of "pw_Events p"]
    by (intro flush_bases_cong) (fastforce simp: agree_on_permitted_def split: option.splits)
  then have "applyPendingWriteEvents ?env (pw_Events ?p) (pw_Targets ?p) = applyPendingWriteEvents env (pw_Events ?p) (pw_Targets ?p)"
    unfolding applyPendingWriteEvents_def ev Let_def with_writers_fields by simp
  with resync show ?thesis unfolding executePendingWrite_def with_writers_fields with_writers_calls by simp
qed

text \<open>
  C25: a replay deletes only what both policies allow. When retained writes are executed again on a moved
  remote, their targets' policies are read anew, once per target (none at all for a target that is gone).
  A folder is then written, and a resync applied, only with a deletion mode that applies DELETE events
  when both the policy the write was planned under and the policy just read apply them, and that sweeps
  orphans when both sweep: with other functions in the place of the two that write, which agree with
  them on those calls and do anything at all on others, the replay is the same.
\<close>

theorem replay_obeys_both_policies:
  assumes branch: "ensureWriteBranch env bw w = (Inr base, w1)"
    and read: "read_policies env [] (target_keys ps) w1 = (Inr now, w2)"
    and agree: "agree_on_permitted now ps env flush resync"
  shows "rebuildPendingWrites (with_writers flush resync env) bw ps w = rebuildPendingWrites env bw ps w"
proof -
  have same: "execute_writes (with_writers flush resync env) (map (tightened now) qs) v = execute_writes env (map (tightened now) qs) v"
    if "set qs \<subseteq> set ps" for qs v
    using that by (induction qs arbitrary: v) (simp_all add: execute_permitted [OF agree] split: prod.splits sum.splits)
  obtain err qs w3 where t: "tightenPendingPruneModes env ps w1 = (err, qs, w3)" by (metis prod_cases3)
  show ?thesis
  proof (cases err)
    case None
    with t tighten_writes_exact [of env "[]" ps w1 qs w3] read have "qs = map (tightened now) ps"
      by (auto simp: tightenPendingPruneModes_def)
    then show ?thesis using None t same [of ps]
      by (simp add: rebuildPendingWrites_def branch executePendingWrites_def split: prod.splits sum.splits)
  next
    case (Some e)
    then show ?thesis using t by (simp add: rebuildPendingWrites_def branch)
  qed
qed

section \<open>A concrete world\<close>

text \<open>A clock, a commit counter, the number of pushes that will still fail, and the pushed hashes.\<close>

record ex_world =
  xw_now :: gotime
  xw_count :: nat
  xw_failures :: nat
  xw_gate :: "RenderFidelityGate option"

definition ex_env :: "ex_world worker_env" where
  "ex_env =
     \<lparr> we_getGitProvider = return_io \<lparr> gps_URL = ''https://git'', gps_Commit = None, gps_CommitWindow = None \<rparr>,
       we_getCommitSigner = (\<lambda>_. return_io None),
       we_getAuthFromSecret = (\<lambda>_. return_io ''token''),
       we_getGitTarget = (\<lambda>name namespace.
          if name = ''target'' \<and> namespace = ''tenant''
          then return_io ((ex_folder ''target'' 1 ''apps'')\<lparr> gt_Namespace := ''tenant'' \<rparr>)
          else fail_io (NotFound name)),
       we_ResolveTargetEncryption = (\<lambda>_. return_io None),
       we_PrepareBranch = (\<lambda>_ _ _. return_io \<lparr> pr_ExistsOnRemote = True, pr_Sha = ''c0'', pr_Unborn = False,
          pr_IncomingChanges = False \<rparr>),
       we_PlainOpen = (\<lambda>_. return_io ()),
       we_Worktree = return_io (),
       we_GetCurrentBranch = return_io (''refs/heads/main'', ''c0''),
       we_switchOrCreateBranch = (\<lambda>_ _. return_io ()),
       we_ensureBootstrapTemplateInPath = (\<lambda>_ _. return_io ()),
       we_configureSecretEncryptionWriter = (\<lambda>_ _. return_io ()),
       we_flushEventsToWorktree = (\<lambda>_ _ _ _. return_io True),
       we_refuseUnsafeWorktree = (\<lambda>_ _. return_io ()),
       we_applyResyncToWorktree = (\<lambda>_ _ _ _. return_io (no_stats, False)),
       we_Commit = (\<lambda>_ _ w. (Inr (''c'' @ Itoa (Suc (xw_count w))), w\<lparr> xw_count := Suc (xw_count w) \<rparr>)),
       we_renderCommitTemplate = (\<lambda>_ text _. Inr text),
       we_pushAtomic = (\<lambda>_ _ _ w. case xw_failures w of
          0 \<Rightarrow> (Inr (), w) | Suc n \<Rightarrow> (Inl (Failure ''push rejected''), w\<lparr> xw_failures := n \<rparr>)),
       we_fetchRemoteBranchHash = (\<lambda>_ _. return_io ''c0''),
       we_syncToRemote = (\<lambda>_ _. return_io \<lparr> pr_ExistsOnRemote = True, pr_Sha = ''c0'', pr_Unborn = False,
          pr_IncomingChanges = False \<rparr>),
       we_now = (\<lambda>w. (xw_now w, w\<lparr> xw_now := xw_now w + 1 \<rparr>)),
       we_sha256_hex = (\<lambda>s. s),
       we_MarshalToOrderedYAML = (\<lambda>_. Some ''yaml''),
       we_renderFidelityGate = xw_gate,
       we_pathRefusal = (\<lambda>_ _ w. w) \<rparr>"

definition ex_start :: "nat \<Rightarrow> ex_world" where
  "ex_start failures = \<lparr> xw_now = 1000, xw_count = 0, xw_failures = failures, xw_gate = None \<rparr>"

text \<open>
  A retained deletion planned under a policy that applied it: its target is gone by now, so that the replay
  never asks for a write that applies the deletion, even one that would fail.
\<close>

definition ex_write :: PendingWrite where
  "ex_write = (empty_write PendingWriteCommit DefaultCommitConfig None)
     \<lparr> pw_Events := [ex_event ''alice'' ''a'' ''DELETE''],
       pw_Targets := [(\<lparr> ptk_Name = ''gone'', ptk_Namespace = ''tenant'' \<rparr>,
           (bare_metadata ''gone'' ''tenant'')\<lparr> md_Path := ''apps'', md_PruneMode := PruneAlways \<rparr>)] \<rparr>"

definition ex_flush :: "string \<Rightarrow> Event list \<Rightarrow> GitTargetPlacementSpec option \<Rightarrow> PruneMode \<Rightarrow> (ex_world, bool) io" where
  "ex_flush base es placement mode =
     (if base = sanitizePath ''apps'' \<and> AppliesEventDeletes mode then fail_io (Failure ''deleted'') else we_flushEventsToWorktree ex_env base es placement mode)"

definition ex_resync ::
  "string \<Rightarrow> ResolvedTargetMetadata \<Rightarrow> DesiredResource list \<Rightarrow> ResyncScope option \<Rightarrow> (ex_world, ResyncStats \<times> bool) io" where
  "ex_resync base md desired scope =
     (if SweepsOrphans (OrDefault (md_PruneMode md)) then fail_io (Failure ''swept'')
      else we_applyResyncToWorktree ex_env base md desired scope)"

definition ex_bw :: BranchWorker where
  "ex_bw = \<lparr> bw_GitProviderRef = ''git'', bw_GitProviderNamespace = ''tenant'', bw_Branch = ''main'',
     bw_contentWriter = ex_policy, bw_branchBufferMaxBytes = 1000, bw_eventQueue = [], bw_inflightItems = 0,
     bw_hasUnpushedWork = False, bw_branchExists = True, bw_lastCommitSHA = [], bw_lastFetchTime = 0,
     bw_pushCycleRootBranch = [], bw_pushCycleRootHash = [], bw_crOutcomes = [] \<rparr>"

lemma ex_reads:
  "ensureWriteBranch ex_env ex_bw w = (Inr (''refs/heads/main'', ''c0''), w)"
  "read_policies ex_env [] (target_keys [ex_write]) w = (Inr [(\<lparr> ptk_Name = ''gone'', ptk_Namespace = ''tenant'' \<rparr>, PruneNever)], w)"
  by (simp_all add: ensureWriteBranch_def ex_env_def ex_bw_def ex_write_def branch_ref_def target_keys_def current_mode_def io_defs)

lemma ex_agree:
  "agree_on_permitted [(\<lparr> ptk_Name = ''gone'', ptk_Namespace = ''tenant'' \<rparr>, PruneNever)] [ex_write] ex_env ex_flush ex_resync"
proof -
  let ?now = "[(\<lparr> ptk_Name = ''gone'', ptk_Namespace = ''tenant'' \<rparr>, PruneNever)]"
  have "\<not> may_sweep ?now ex_write"
    by (simp add: may_sweep_def ex_write_def policy_now_def OrDefault_def SweepsOrphans_def prune_modes)
  moreover have "\<not> may_delete ?now ex_write (sanitizePath ''apps'')"
    by (simp add: may_delete_def ex_write_def policy_now_def OrDefault_def AppliesEventDeletes_def prune_modes bare_metadata_def)
  ultimately show ?thesis
    unfolding agree_on_permitted_def ex_flush_def ex_resync_def by auto
qed

theorem replay_obeys_both_policies_witness:
  "fst (rebuildPendingWrites (with_writers ex_flush ex_resync ex_env) ex_bw [ex_write] (ex_start 0)) = Inr (''refs/heads/main'', ''c0'')"
proof -
  have "fst (rebuildPendingWrites ex_env ex_bw [ex_write] (ex_start 0)) = Inr (''refs/heads/main'', ''c0'')" by code_simp
  then show ?thesis using replay_obeys_both_policies [OF ex_reads(1) ex_reads(2) ex_agree, of "ex_start 0"] by simp
qed

section \<open>Committing and pushing keep the writes\<close>

lemma same_write_targets [simp]: "same_write p (p\<lparr> pw_Targets := ts \<rparr>)"
  by (simp add: same_write_def)

lemma tighten_writes_same: "tighten_writes env current ps w = (err, qs, w') \<Longrightarrow> list_all2 same_write ps qs"
proof (induction ps arbitrary: current w err qs w')
  case (Cons p ps)
  then show ?case
    by (auto split: prod.splits option.splits)
qed simp

lemma rebuildPendingWrites_same:
  assumes "rebuildPendingWrites env bw ps w = (r, qs, w')"
  shows "list_all2 same_write ps qs"
  using assms
  by (auto simp: rebuildPendingWrites_def tightenPendingPruneModes_def split: prod.splits sum.splits option.splits
      dest!: executePendingWrites_same tighten_writes_same intro: same_writes_trans)

lemma commitPendingWrites_same:
  assumes "commitPendingWrites env ps has bw w = (err, qs, bw', w')"
  shows "list_all2 same_write ps qs"
  using assms
  by (auto simp: commitPendingWrites_def Let_def split: if_splits prod.splits sum.splits option.splits
      dest!: executePendingWrites_same)

lemma push_loop_same: "push_loop env auth n root lst ps bw w = (err, qs, bw', w') \<Longrightarrow> list_all2 same_write ps qs"
proof (induction n arbitrary: root lst ps bw w)
  case (Suc n)
  then show ?case
    by (auto simp: Let_def split: if_splits prod.splits sum.splits
        dest!: rebuildPendingWrites_same intro: same_writes_trans)
qed simp

lemma pushPendingCommits_same:
  assumes "pushPendingCommits env ps bw w = (err, qs, bw', w')"
  shows "list_all2 same_write ps qs"
  using assms by (auto simp: pushPendingCommits_def split: if_splits prod.splits sum.splits dest!: push_loop_same)

end
