(* ===== verification/Branch_Worker.thy ===== *)
theory Branch_Worker
  imports Pending_Write
begin

text \<open>
  The event loop of a branch worker (\<open>internal/git/branch_worker.go\<close>,
  \<open>internal/git/commit_request_attach_loop.go\<close>, \<open>internal/git/resync_flush.go\<close>): one goroutine per
  provider and branch that owns the open commit window, the retained pending writes, the parked
  CommitRequests and the deferred heal resyncs, and wakes on a queue item, a timer or the shutdown.

  A timer is its deadline, or \<open>None\<close> when it is not armed; it is armed from the clock reading that
  computes its delay. Log lines and metrics are left out; the flag behind the depth metric is kept.
\<close>

section \<open>State\<close>

record ResyncResult =
  rz_Stats :: ResyncStats
  rz_Err :: "git_error option"

record 'w branchWorkerEventLoop =
  lp_w :: BranchWorker
  lp_commitWindow :: duration
  lp_openWindow :: "openWindow option"
  lp_windowBytes :: int
  lp_pendingWrites :: "PendingWrite list"
  lp_pendingWritesBytes :: int
  lp_lastPushAt :: gotime
  lp_commitTimer :: "gotime option"
  lp_pushTimer :: "gotime option"
  lp_deferredHeals :: "ResyncRequest list"
  lp_pendingCRs :: "(commitRequestID, pendingCommitRequest) gomap"
  lp_attachTimer :: "gotime option"
  lp_replies :: "(nat \<times> ResyncResult) list"
  lp_world :: 'w

definition DefaultCommitWindow :: duration where
  "DefaultCommitWindow = 5 * Second"

definition PushCooldown :: duration where
  "PushCooldown = 5 * Second"

definition commitRequestOutcomeTTL :: duration where
  "commitRequestOutcomeTTL = 15 * 60 * Second"

definition branchWorkerQueueSize :: nat where
  "branchWorkerQueueSize = 100"

definition DefaultBranchBufferMaxBytes :: int where
  "DefaultBranchBufferMaxBytes = 8 * 1024 * 1024"

definition NewBranchWorker ::
  "string \<Rightarrow> string \<Rightarrow> string \<Rightarrow> SensitiveResourcePolicy option \<Rightarrow> int \<Rightarrow> BranchWorker" where
  "NewBranchWorker providerName providerNamespace branch writer branchBufferMaxBytes =
     \<lparr> bw_GitProviderRef = providerName, bw_GitProviderNamespace = providerNamespace, bw_Branch = branch,
       bw_contentWriter = (case writer of None \<Rightarrow> \<lparr> additional = [] \<rparr> | Some p \<Rightarrow> p),
       bw_branchBufferMaxBytes =
         (if branchBufferMaxBytes \<le> 0 then DefaultBranchBufferMaxBytes else branchBufferMaxBytes),
       bw_eventQueue = [], bw_inflightItems = 0, bw_hasUnpushedWork = False, bw_branchExists = False,
       bw_lastCommitSHA = [], bw_lastFetchTime = 0, bw_pushCycleRootBranch = [], bw_pushCycleRootHash = [],
       bw_crOutcomes = [] \<rparr>"

text \<open>\<open>parse\<close> is \<open>time.ParseDuration\<close>.\<close>

definition getCommitWindow :: "(string \<Rightarrow> duration option) \<Rightarrow> GitProviderSpec \<Rightarrow> duration" where
  "getCommitWindow parse provider =
     (case gps_CommitWindow provider of
        None \<Rightarrow> DefaultCommitWindow
      | Some s \<Rightarrow>
          (case parse s of
             None \<Rightarrow> DefaultCommitWindow
           | Some parsed \<Rightarrow> if parsed < 0 then 0 else parsed))"

definition newBranchWorkerEventLoop :: "BranchWorker \<Rightarrow> duration \<Rightarrow> 'w \<Rightarrow> 'w branchWorkerEventLoop" where
  "newBranchWorkerEventLoop bw commitWindow world =
     \<lparr> lp_w = bw, lp_commitWindow = commitWindow, lp_openWindow = None, lp_windowBytes = 0,
       lp_pendingWrites = [], lp_pendingWritesBytes = 0, lp_lastPushAt = 0, lp_commitTimer = None,
       lp_pushTimer = None, lp_deferredHeals = [], lp_pendingCRs = [], lp_attachTimer = None,
       lp_replies = [], lp_world = world \<rparr>"

section \<open>The queue\<close>

text \<open>Every way in takes a slot of the bounded queue or is dropped; \<open>True\<close> means accepted.\<close>

definition enqueue_item :: "WorkItem \<Rightarrow> BranchWorker \<Rightarrow> bool \<times> BranchWorker" where
  "enqueue_item item bw =
     (if length (bw_eventQueue bw) < branchWorkerQueueSize
      then (True, bw\<lparr> bw_inflightItems := bw_inflightItems bw + 1, bw_eventQueue := bw_eventQueue bw @ [item] \<rparr>)
      else (False, bw))"

definition Enqueue :: "Event \<Rightarrow> BranchWorker \<Rightarrow> bool \<times> BranchWorker" where
  "Enqueue event =
     enqueue_item (ItemRequest \<lparr> wr_Events = [event], wr_CommitMessage = [], wr_GitTargetName = [],
       wr_GitTargetNamespace = [], wr_CommitMode = CommitModePerEvent \<rparr>)"

definition EnqueueAttach :: "AttachCommitRequest \<Rightarrow> BranchWorker \<Rightarrow> bool \<times> BranchWorker" where
  "EnqueueAttach req = enqueue_item (ItemAttach req)"

definition reply_to ::
  "ResyncRequest \<Rightarrow> ResyncResult \<Rightarrow> (nat \<times> ResyncResult) list \<Rightarrow> (nat \<times> ResyncResult) list" where
  "reply_to r result replies =
     (case rq_Result r of None \<Rightarrow> replies | Some ch \<Rightarrow> replies @ [(ch, result)])"

definition ErrFinalizeQueueFull :: git_error where
  "ErrFinalizeQueueFull = Failure ''branch worker event queue full; item dropped''"

text \<open>The replies of a dropped resync are given on the spot.\<close>

definition EnqueueResync ::
  "ResyncRequest \<Rightarrow> BranchWorker \<Rightarrow> (nat \<times> ResyncResult) list \<Rightarrow> bool \<times> BranchWorker \<times> (nat \<times> ResyncResult) list" where
  "EnqueueResync request bw replies =
     (case enqueue_item (ItemResync request) bw of
        (True, bw) \<Rightarrow> (True, bw, replies)
      | (False, bw) \<Rightarrow>
          (False, bw, reply_to request \<lparr> rz_Stats = no_stats, rz_Err = Some ErrFinalizeQueueFull \<rparr> replies))"

definition queueDepth :: "BranchWorker \<Rightarrow> int" where
  "queueDepth bw = bw_inflightItems bw + (if bw_hasUnpushedWork bw then 1 else 0)"

section \<open>Outcomes of CommitRequests\<close>

definition read_clock :: "'w worker_env \<Rightarrow> 'w branchWorkerEventLoop \<Rightarrow> gotime \<times> 'w branchWorkerEventLoop" where
  "read_clock env l = (case we_now env (lp_world l) of (t, w) \<Rightarrow> (t, l\<lparr> lp_world := w \<rparr>))"

definition record_outcome ::
  "gotime \<Rightarrow> commitRequestID \<Rightarrow> FinalizeResult
     \<Rightarrow> (commitRequestID, commitRequestOutcomeEntry) gomap \<Rightarrow> (commitRequestID, commitRequestOutcomeEntry) gomap" where
  "record_outcome now cr result outcomes =
     filter (\<lambda>(k, entry). \<not> commitRequestOutcomeTTL < time_Sub now (oe_resolvedAt entry))
       (map_put cr \<lparr> oe_result = result, oe_resolvedAt = now \<rparr> outcomes)"

definition recordCommitRequestOutcome ::
  "'w worker_env \<Rightarrow> commitRequestID \<Rightarrow> FinalizeResult \<Rightarrow> 'w branchWorkerEventLoop \<Rightarrow> 'w branchWorkerEventLoop" where
  "recordCommitRequestOutcome env cr result l =
     (case read_clock env l of
        (now, l) \<Rightarrow> l\<lparr> lp_w := (lp_w l)\<lparr> bw_crOutcomes := record_outcome now cr result (bw_crOutcomes (lp_w l)) \<rparr> \<rparr>)"

definition LookupCommitRequestOutcome :: "string \<Rightarrow> string \<Rightarrow> string \<Rightarrow> BranchWorker \<Rightarrow> FinalizeResult option" where
  "LookupCommitRequestOutcome namespace name uid bw =
     map_option oe_result
       (map_get (bw_crOutcomes bw) \<lparr> crid_Namespace = namespace, crid_Name = name, crid_UID = uid \<rparr>)"

definition hasCommitRequestOutcome :: "commitRequestID \<Rightarrow> BranchWorker \<Rightarrow> bool" where
  "hasCommitRequestOutcome cr bw = (map_get (bw_crOutcomes bw) cr \<noteq> None)"

definition resolveCommitRequest ::
  "'w worker_env \<Rightarrow> commitRequestID \<Rightarrow> FinalizeResult \<Rightarrow> 'w branchWorkerEventLoop \<Rightarrow> 'w branchWorkerEventLoop" where
  "resolveCommitRequest env cr result l =
     (let result = (if fr_Branch result = [] then result\<lparr> fr_Branch := bw_Branch (lp_w l) \<rparr> else result);
          l = recordCommitRequestOutcome env cr result l
      in l\<lparr> lp_pendingCRs := map_del cr (lp_pendingCRs l) \<rparr>)"

definition outcome :: "FinalizeOutcome \<Rightarrow> string \<Rightarrow> string \<Rightarrow> FinalizeResult" where
  "outcome oc sha branch = \<lparr> fr_Outcome = Some oc, fr_SHA = sha, fr_Branch = branch, fr_Err = None \<rparr>"

section \<open>Pushing\<close>

definition stopCommitTimer :: "'w branchWorkerEventLoop \<Rightarrow> 'w branchWorkerEventLoop" where
  "stopCommitTimer l = l\<lparr> lp_commitTimer := None \<rparr>"

definition stopPushTimer :: "'w branchWorkerEventLoop \<Rightarrow> 'w branchWorkerEventLoop" where
  "stopPushTimer l = l\<lparr> lp_pushTimer := None \<rparr>"

definition stopAttachTimer :: "'w branchWorkerEventLoop \<Rightarrow> 'w branchWorkerEventLoop" where
  "stopAttachTimer l = l\<lparr> lp_attachTimer := None \<rparr>"

definition resetCommitTimer :: "'w worker_env \<Rightarrow> 'w branchWorkerEventLoop \<Rightarrow> 'w branchWorkerEventLoop" where
  "resetCommitTimer env l =
     (case read_clock env l of (now, l) \<Rightarrow> l\<lparr> lp_commitTimer := Some (now + lp_commitWindow l) \<rparr>)"

fun resolve_pushed :: "'w worker_env \<Rightarrow> PendingWrite list \<Rightarrow> 'w branchWorkerEventLoop \<Rightarrow> 'w branchWorkerEventLoop" where
  "resolve_pushed env [] l = l"
| "resolve_pushed env (pw # pws) l =
     resolve_pushed env pws
       (case pw_CommitRequest pw of
          None \<Rightarrow> l
        | Some cr \<Rightarrow>
            if pw_CommitSHA pw = [] then l
            else resolveCommitRequest env cr (outcome FinalizeCommitted (pw_CommitSHA pw) (bw_Branch (lp_w l))) l)"

definition resolvePushedCommitRequests ::
  "'w worker_env \<Rightarrow> 'w branchWorkerEventLoop \<Rightarrow> 'w branchWorkerEventLoop" where
  "resolvePushedCommitRequests env l = resolve_pushed env (lp_pendingWrites l) l"

definition pushPending :: "'w worker_env \<Rightarrow> 'w branchWorkerEventLoop \<Rightarrow> 'w branchWorkerEventLoop" where
  "pushPending env l =
     (if lp_pendingWrites l = [] then stopPushTimer l
      else
        case pushPendingCommits env (lp_pendingWrites l) (lp_w l) (lp_world l) of
          (err, ps, bw, w) \<Rightarrow>
            (let l = l\<lparr> lp_pendingWrites := ps, lp_w := bw, lp_world := w \<rparr> in
             case err of
               Some e \<Rightarrow> stopPushTimer l
             | None \<Rightarrow>
                 (let l = resolvePushedCommitRequests env l;
                      l = l\<lparr> lp_pendingWrites := [], lp_pendingWritesBytes := 0 \<rparr>
                  in case read_clock env l of
                       (now, l) \<Rightarrow> stopPushTimer (l\<lparr> lp_lastPushAt := now \<rparr>))))"

definition maybeSchedulePush :: "'w worker_env \<Rightarrow> 'w branchWorkerEventLoop \<Rightarrow> 'w branchWorkerEventLoop" where
  "maybeSchedulePush env l =
     (if lp_pendingWrites l = [] then l
      else if time_IsZero (lp_lastPushAt l) then pushPending env l
      else
        case read_clock env l of
          (now, l) \<Rightarrow>
            (let elapsed = time_Sub now (lp_lastPushAt l) in
             if PushCooldown \<le> elapsed then pushPending env l
             else if lp_pushTimer l = None then l\<lparr> lp_pushTimer := Some (now + (PushCooldown - elapsed)) \<rparr>
             else l))"

section \<open>Closing the window\<close>

fun err_text :: "git_error \<Rightarrow> string" where
  "err_text (Failure e) = e"
| "err_text (NotFound e) = e"
| "err_text (Refused e) = e"

definition dropOpenWindow ::
  "'w worker_env \<Rightarrow> commitRequestID option \<Rightarrow> string \<Rightarrow> 'w branchWorkerEventLoop \<Rightarrow> 'w branchWorkerEventLoop" where
  "dropOpenWindow env pendingCR cause l =
     (let l = l\<lparr> lp_openWindow := None, lp_windowBytes := 0 \<rparr> in
      case pendingCR of
        None \<Rightarrow> l
      | Some cr \<Rightarrow>
          resolveCommitRequest env cr
            \<lparr> fr_Outcome = None, fr_SHA = [], fr_Branch = bw_Branch (lp_w l), fr_Err = Some cause \<rparr> l)"

definition reportPathRefusal ::
  "'w worker_env \<Rightarrow> git_error \<Rightarrow> string \<Rightarrow> string \<Rightarrow> 'w branchWorkerEventLoop \<Rightarrow> 'w branchWorkerEventLoop" where
  "reportPathRefusal env err targetName targetNamespace l =
     (case err of
        Refused detail \<Rightarrow>
          if targetName = [] \<or> targetNamespace = [] then l
          else l\<lparr> lp_world := we_pathRefusal env (NewResourceReference targetName targetNamespace) detail (lp_world l) \<rparr>
      | _ \<Rightarrow> l)"

text \<open>
  The write of a closed window is retained. A request riding it is resolved now when the window made no
  commit, and at the push otherwise.
\<close>

definition retain_window ::
  "'w worker_env \<Rightarrow> commitRequestID option \<Rightarrow> PendingWrite \<Rightarrow> 'w branchWorkerEventLoop \<Rightarrow> 'w branchWorkerEventLoop" where
  "retain_window env pendingCR pw l =
     (let l = l\<lparr> lp_pendingWrites := lp_pendingWrites l @ [pw],
                lp_pendingWritesBytes := lp_pendingWritesBytes l + pw_ByteSize pw,
                lp_openWindow := None, lp_windowBytes := 0 \<rparr>
      in case pendingCR of
           None \<Rightarrow> l
         | Some cr \<Rightarrow>
             if pw_CommitSHA pw = []
             then resolveCommitRequest env cr (outcome FinalizeAlreadyPresent [] [])
                    (l\<lparr> lp_pendingWrites := butlast (lp_pendingWrites l) @ [pw\<lparr> pw_CommitRequest := None \<rparr>] \<rparr>)
             else l\<lparr> lp_pendingCRs := map_del cr (lp_pendingCRs l) \<rparr>)"

definition finalizeOpenWindowWithMessage ::
  "'w worker_env \<Rightarrow> string \<Rightarrow> 'w branchWorkerEventLoop \<Rightarrow> bool \<times> 'w branchWorkerEventLoop" where
  "finalizeOpenWindowWithMessage env message l =
     (case lp_openWindow l of
        None \<Rightarrow> (False, l)
      | Some win \<Rightarrow>
          (let l = stopCommitTimer l;
               events = orderedEvents win;
               targetName = ow_GitTarget win;
               targetNamespace = ow_GitTargetNamespace win;
               pendingCR = ow_pendingCR win;
               effectiveMessage = (if message = [] then ow_pendingMessage win else message)
           in if \<not> normalWritesAllowed (we_renderFidelityGate env (lp_world l)) targetName targetNamespace
              then (False, dropOpenWindow env pendingCR ''render fidelity gate is closed'' l)
              else
                case buildGroupedPendingWrite env events (lp_world l) of
                  (Inl e, w) \<Rightarrow>
                    (False, dropOpenWindow env pendingCR (err_text (wrap ''build pending write'' e)) (l\<lparr> lp_world := w \<rparr>))
                | (Inr pw, w) \<Rightarrow>
                    (let pw = pw\<lparr> pw_CommitMessage := effectiveMessage, pw_CommitRequest := pendingCR \<rparr>;
                         hasPendingCommits = (lp_pendingWrites l \<noteq> [])
                     in case commitPendingWrites env [pw] hasPendingCommits (lp_w l) w of
                          (Some e, batch, bw, w) \<Rightarrow>
                            (let l = reportPathRefusal env e targetName targetNamespace (l\<lparr> lp_w := bw, lp_world := w \<rparr>)
                             in (False, dropOpenWindow env pendingCR (err_text (wrap ''commit failed'' e)) l))
                        | (None, batch, bw, w) \<Rightarrow>
                            (True, retain_window env pendingCR (hd batch) (l\<lparr> lp_w := bw, lp_world := w \<rparr>)))))"

definition finalizeOpenWindow ::
  "'w worker_env \<Rightarrow> 'w branchWorkerEventLoop \<Rightarrow> bool \<times> 'w branchWorkerEventLoop" where
  "finalizeOpenWindow env l = finalizeOpenWindowWithMessage env [] l"

abbreviation closed_window :: "'w worker_env \<Rightarrow> 'w branchWorkerEventLoop \<Rightarrow> 'w branchWorkerEventLoop" where
  "closed_window env l \<equiv> snd (finalizeOpenWindow env l)"

section \<open>Resyncs\<close>

text \<open>\<open>gs\<close> is \<open>GroupVersionResource.String\<close>; a heal is keyed by its target and its scope.\<close>

record healKey =
  hk_name :: string
  hk_namespace :: string
  hk_scope :: string

definition resyncHealKey :: "(GroupVersionResource \<Rightarrow> string) \<Rightarrow> ResyncRequest \<Rightarrow> healKey" where
  "resyncHealKey gs req =
     \<lparr> hk_name = rq_GitTargetName req, hk_namespace = rq_GitTargetNamespace req,
       hk_scope = ResyncScope_String gs (rq_Scope req) \<rparr>"

fun stash_heal ::
  "(GroupVersionResource \<Rightarrow> string) \<Rightarrow> ResyncRequest \<Rightarrow> ResyncRequest list
     \<Rightarrow> ResyncRequest list \<times> ResyncRequest option" where
  "stash_heal gs req [] = ([req], None)"
| "stash_heal gs req (h # heals) =
     (if resyncHealKey gs h = resyncHealKey gs req then (req # heals, Some h)
      else case stash_heal gs req heals of (heals', old) \<Rightarrow> (h # heals', old))"

definition stashDeferredHeal ::
  "(GroupVersionResource \<Rightarrow> string) \<Rightarrow> ResyncRequest \<Rightarrow> 'w branchWorkerEventLoop \<Rightarrow> 'w branchWorkerEventLoop" where
  "stashDeferredHeal gs req l =
     (case stash_heal gs req (lp_deferredHeals l) of
        (heals, old) \<Rightarrow>
          l\<lparr> lp_deferredHeals := heals,
             lp_replies := (case old of
                None \<Rightarrow> lp_replies l
              | Some h \<Rightarrow> reply_to h \<lparr> rz_Stats = no_stats, rz_Err = None \<rparr> (lp_replies l)) \<rparr>)"

definition reply :: "ResyncRequest \<Rightarrow> ResyncResult \<Rightarrow> 'w branchWorkerEventLoop \<Rightarrow> 'w branchWorkerEventLoop" where
  "reply req result l = l\<lparr> lp_replies := reply_to req result (lp_replies l) \<rparr>"

text \<open>The resync itself, once the window is out of the way.\<close>

definition finish_resync ::
  "'w worker_env \<Rightarrow> ResyncRequest \<Rightarrow> bool \<Rightarrow> 'w branchWorkerEventLoop \<Rightarrow> 'w branchWorkerEventLoop" where
  "finish_resync env req closedWindow l =
     (case buildResyncPendingWrite env req (lp_world l) of
        (Inl e, w) \<Rightarrow> reply req \<lparr> rz_Stats = no_stats, rz_Err = Some e \<rparr> (l\<lparr> lp_world := w \<rparr>)
      | (Inr pw, w) \<Rightarrow>
          (let pw = pw\<lparr> pw_Committed := Some False \<rparr> in
           case commitPendingWrites env [pw] (lp_pendingWrites l \<noteq> []) (lp_w l) w of
             (Some e, batch, bw, w) \<Rightarrow>
               reply req \<lparr> rz_Stats = no_stats, rz_Err = Some e \<rparr> (l\<lparr> lp_w := bw, lp_world := w \<rparr>)
           | (None, batch, bw, w) \<Rightarrow>
               (let pw = hd batch;
                    committed = (pw_Committed pw = Some True);
                    l = l\<lparr> lp_w := bw, lp_world := w \<rparr>;
                    l = (if committed
                         then l\<lparr> lp_pendingWrites := lp_pendingWrites l @ [pw],
                                lp_pendingWritesBytes := lp_pendingWritesBytes l + pw_ByteSize pw \<rparr>
                         else l);
                    l = (if committed \<or> closedWindow then maybeSchedulePush env l else l)
                in reply req
                     \<lparr> rz_Stats = (case pw_ResyncStats pw of Some s \<Rightarrow> s | None \<Rightarrow> no_stats), rz_Err = None \<rparr> l)))"

definition applyResync ::
  "'w worker_env \<Rightarrow> ResyncRequest \<Rightarrow> 'w branchWorkerEventLoop \<Rightarrow> 'w branchWorkerEventLoop" where
  "applyResync env req l =
     (if rq_Heal req then finish_resync env req False l
      else case finalizeOpenWindow env l of (closedWindow, l) \<Rightarrow> finish_resync env req closedWindow l)"

definition applyDeferredHeals :: "'w worker_env \<Rightarrow> 'w branchWorkerEventLoop \<Rightarrow> 'w branchWorkerEventLoop" where
  "applyDeferredHeals env l =
     (if lp_openWindow l \<noteq> None \<or> lp_deferredHeals l = [] then l
      else fold (applyResync env) (lp_deferredHeals l) (l\<lparr> lp_deferredHeals := [] \<rparr>))"

definition handleResyncRequest ::
  "(GroupVersionResource \<Rightarrow> string) \<Rightarrow> 'w worker_env \<Rightarrow> ResyncRequest \<Rightarrow> 'w branchWorkerEventLoop
     \<Rightarrow> 'w branchWorkerEventLoop" where
  "handleResyncRequest gs env req l =
     (if rq_Heal req \<and> lp_openWindow l \<noteq> None then stashDeferredHeal gs req l else applyResync env req l)"

section \<open>Write requests\<close>

fun first_event_target :: "Event list \<Rightarrow> string \<times> string" where
  "first_event_target [] = ([], [])"
| "first_event_target (event # events) =
     (if ev_GitTargetName event \<noteq> [] \<and> ev_GitTargetNamespace event \<noteq> []
      then (ev_GitTargetName event, ev_GitTargetNamespace event) else first_event_target events)"

definition atomicRefusalTarget :: "WriteRequest \<Rightarrow> string \<times> string" where
  "atomicRefusalTarget request =
     (if wr_GitTargetName request \<noteq> [] \<and> wr_GitTargetNamespace request \<noteq> []
      then (wr_GitTargetName request, wr_GitTargetNamespace request)
      else first_event_target (wr_Events request))"

definition writes_allowed :: "'w worker_env \<Rightarrow> 'w branchWorkerEventLoop \<Rightarrow> string \<Rightarrow> string \<Rightarrow> bool" where
  "writes_allowed env l name namespace =
     normalWritesAllowed (we_renderFidelityGate env (lp_world l)) name namespace"

definition handleAtomicRequest ::
  "'w worker_env \<Rightarrow> WriteRequest \<Rightarrow> 'w branchWorkerEventLoop \<Rightarrow> 'w branchWorkerEventLoop" where
  "handleAtomicRequest env request l =
     (let l = closed_window env l; l = applyDeferredHeals env l in
      case buildAtomicPendingWrite env request (lp_world l) of
        (Inl e, w) \<Rightarrow> l\<lparr> lp_world := w \<rparr>
      | (Inr pw, w) \<Rightarrow>
          (case commitPendingWrites env [pw] (lp_pendingWrites l \<noteq> []) (lp_w l) w of
             (Some e, batch, bw, w) \<Rightarrow>
               (case atomicRefusalTarget request of
                  (name, namespace) \<Rightarrow> reportPathRefusal env e name namespace (l\<lparr> lp_w := bw, lp_world := w \<rparr>))
           | (None, batch, bw, w) \<Rightarrow>
               maybeSchedulePush env
                 (l\<lparr> lp_w := bw, lp_world := w, lp_pendingWrites := lp_pendingWrites l @ [pw],
                    lp_pendingWritesBytes := lp_pendingWritesBytes l + pw_ByteSize pw \<rparr>)))"

definition totalRetainedBytes :: "'w branchWorkerEventLoop \<Rightarrow> int" where
  "totalRetainedBytes l = lp_windowBytes l + lp_pendingWritesBytes l"

text \<open>One event of a per-event request: the body of the loop of \<open>handleQueueItem\<close>.\<close>

definition make_room :: "'w worker_env \<Rightarrow> Event \<Rightarrow> 'w branchWorkerEventLoop \<Rightarrow> 'w branchWorkerEventLoop" where
  "make_room env event l =
     (if lp_openWindow l \<noteq> None \<and> \<not> canAppend (lp_openWindow l) event
      then applyDeferredHeals env (maybeSchedulePush env (closed_window env l)) else l)"

definition append_event :: "'w worker_env \<Rightarrow> Event \<Rightarrow> 'w branchWorkerEventLoop \<Rightarrow> 'w branchWorkerEventLoop" where
  "append_event env event l =
     (let win = (case lp_openWindow l of
                   None \<Rightarrow> newOpenWindow event (bw_contentWriter (lp_w l))
                 | Some win \<Rightarrow> win)
      in l\<lparr> lp_openWindow := Some (add win event),
            lp_windowBytes := lp_windowBytes l + estimateEventSize env event \<rparr>)"

definition handle_event :: "'w worker_env \<Rightarrow> Event \<Rightarrow> 'w branchWorkerEventLoop \<Rightarrow> 'w branchWorkerEventLoop" where
  "handle_event env event l =
     (if \<not> writes_allowed env l (ev_GitTargetName event) (ev_GitTargetNamespace event) then l
      else
        (let l = append_event env event (make_room env event l) in
         if bw_branchBufferMaxBytes (lp_w l) \<le> totalRetainedBytes l
         then maybeSchedulePush env (closed_window env l)
         else if lp_commitWindow l = 0 then maybeSchedulePush env (closed_window env l)
         else resetCommitTimer env l))"

section \<open>Parked CommitRequests\<close>

definition handleAttachCommitRequest ::
  "'w worker_env \<Rightarrow> AttachCommitRequest \<Rightarrow> 'w branchWorkerEventLoop \<Rightarrow> 'w branchWorkerEventLoop" where
  "handleAttachCommitRequest env req l =
     (let cr = attach_id req in
      if hasCommitRequestOutcome cr (lp_w l) then l
      else if map_get (lp_pendingCRs l) cr \<noteq> None then l
      else
        case read_clock env l of
          (now, l) \<Rightarrow>
            l\<lparr> lp_pendingCRs := map_put cr
                \<lparr> pcr_id = cr, pcr_author = ac_Author req, pcr_attribution = ac_Attribution req,
                  pcr_gitTargetName = ac_GitTargetName req, pcr_gitTargetNamespace = ac_GitTargetNamespace req,
                  pcr_message = ac_Message req, pcr_finalizeAt = now + ac_CloseDelaySeconds req * Second,
                  pcr_attached = False \<rparr> (lp_pendingCRs l) \<rparr>)"

fun oldest_waiting ::
  "openWindow \<Rightarrow> pendingCommitRequest option \<Rightarrow> (commitRequestID \<times> pendingCommitRequest) list
     \<Rightarrow> pendingCommitRequest option" where
  "oldest_waiting win oldest [] = oldest"
| "oldest_waiting win oldest ((cr, pcr) # crs) =
     oldest_waiting win
       (if pcr_attached pcr \<or> \<not> matchesWindow pcr win then oldest
        else case oldest of
               None \<Rightarrow> Some pcr
             | Some old \<Rightarrow> if pcr_finalizeAt pcr < pcr_finalizeAt old then Some pcr else oldest) crs"

definition attachToOpenWindow ::
  "openWindow \<Rightarrow> pendingCommitRequest \<Rightarrow> 'w branchWorkerEventLoop \<Rightarrow> 'w branchWorkerEventLoop" where
  "attachToOpenWindow win pcr l =
     l\<lparr> lp_openWindow := Some (win\<lparr> ow_pendingMessage := pcr_message pcr, ow_pendingCR := Some (pcr_id pcr) \<rparr>),
        lp_pendingCRs := map_put (pcr_id pcr) (pcr\<lparr> pcr_attached := True \<rparr>) (lp_pendingCRs l) \<rparr>"

definition attachWaitingCommitRequests :: "'w branchWorkerEventLoop \<Rightarrow> 'w branchWorkerEventLoop" where
  "attachWaitingCommitRequests l =
     (case lp_openWindow l of
        None \<Rightarrow> l
      | Some win \<Rightarrow>
          if ow_pendingCR win \<noteq> None then l
          else case oldest_waiting win None (lp_pendingCRs l) of
                 None \<Rightarrow> l
               | Some oldest \<Rightarrow> attachToOpenWindow win oldest l)"

definition process_due :: "'w worker_env \<Rightarrow> commitRequestID \<Rightarrow> 'w branchWorkerEventLoop \<Rightarrow> 'w branchWorkerEventLoop" where
  "process_due env cr l =
     (if map_get (lp_pendingCRs l) cr = None then l
      else if (case lp_openWindow l of None \<Rightarrow> False | Some win \<Rightarrow> ow_pendingCR win = Some cr)
      then
        (let l = maybeSchedulePush env (closed_window env l) in
         if map_get (lp_pendingCRs l) cr \<noteq> None
         then resolveCommitRequest env cr (outcome FinalizeNoOpenWindow [] []) l
         else l)
      else resolveCommitRequest env cr (outcome FinalizeNoOpenWindow [] []) l)"

definition processDueCommitRequests :: "'w worker_env \<Rightarrow> 'w branchWorkerEventLoop \<Rightarrow> 'w branchWorkerEventLoop" where
  "processDueCommitRequests env l =
     (case read_clock env l of
        (now, l) \<Rightarrow>
          (let due = map fst (filter (\<lambda>(cr, pcr). \<not> now < pcr_finalizeAt pcr) (lp_pendingCRs l)) in
           fold (process_due env) due l))"

text \<open>The zero time is the code's "none yet".\<close>

definition earliest_deadline :: "(commitRequestID, pendingCommitRequest) gomap \<Rightarrow> gotime" where
  "earliest_deadline crs =
     fold (\<lambda>(cr, pcr) earliest.
         if time_IsZero earliest \<or> pcr_finalizeAt pcr < earliest then pcr_finalizeAt pcr else earliest) crs 0"

definition rearmAttachTimer :: "'w worker_env \<Rightarrow> 'w branchWorkerEventLoop \<Rightarrow> 'w branchWorkerEventLoop" where
  "rearmAttachTimer env l =
     (let earliest = earliest_deadline (lp_pendingCRs l) in
      if time_IsZero earliest then stopAttachTimer l
      else
        case read_clock env l of
          (now, l) \<Rightarrow> l\<lparr> lp_attachTimer := Some (now + max 0 (time_Sub earliest now)) \<rparr>)"

definition serviceCommitRequests :: "'w worker_env \<Rightarrow> 'w branchWorkerEventLoop \<Rightarrow> 'w branchWorkerEventLoop" where
  "serviceCommitRequests env l =
     (if lp_pendingCRs l = [] then stopAttachTimer l
      else rearmAttachTimer env (processDueCommitRequests env (attachWaitingCommitRequests l)))"

section \<open>The loop\<close>

definition handleQueueItem ::
  "(GroupVersionResource \<Rightarrow> string) \<Rightarrow> 'w worker_env \<Rightarrow> WorkItem \<Rightarrow> 'w branchWorkerEventLoop
     \<Rightarrow> 'w branchWorkerEventLoop" where
  "handleQueueItem gs env item l =
     (case item of
        ItemAttach req \<Rightarrow> handleAttachCommitRequest env req l
      | ItemResync req \<Rightarrow> handleResyncRequest gs env req l
      | ItemRequest request \<Rightarrow>
          if wr_CommitMode request = CommitModeAtomic
          then (case atomicRefusalTarget request of
                  (targetName, targetNamespace) \<Rightarrow>
                    if \<not> writes_allowed env l targetName targetNamespace then l
                    else handleAtomicRequest env request l)
          else fold (handle_event env) (wr_Events request) l)"

definition syncQueueDepthMetric :: "'w branchWorkerEventLoop \<Rightarrow> 'w branchWorkerEventLoop" where
  "syncQueueDepthMetric l =
     l\<lparr> lp_w := (lp_w l)\<lparr> bw_hasUnpushedWork := (lp_openWindow l \<noteq> None \<or> lp_pendingWrites l \<noteq> []) \<rparr> \<rparr>"

text \<open>What the \<open>select\<close> of the loop can deliver. A timer wakes the loop only while it is armed.\<close>

datatype wake = WakeItem | WakeCommit | WakePush | WakeAttach

definition add_inflight :: "int \<Rightarrow> 'w branchWorkerEventLoop \<Rightarrow> 'w branchWorkerEventLoop" where
  "add_inflight d l = l\<lparr> lp_w := (lp_w l)\<lparr> bw_inflightItems := bw_inflightItems (lp_w l) + d \<rparr> \<rparr>"

fun enabled :: "wake \<Rightarrow> 'w branchWorkerEventLoop \<Rightarrow> bool" where
  "enabled WakeItem l = (bw_eventQueue (lp_w l) \<noteq> [])"
| "enabled WakeCommit l = (lp_commitTimer l \<noteq> None)"
| "enabled WakePush l = (lp_pushTimer l \<noteq> None)"
| "enabled WakeAttach l = (lp_attachTimer l \<noteq> None)"

fun wake_up ::
  "(GroupVersionResource \<Rightarrow> string) \<Rightarrow> 'w worker_env \<Rightarrow> wake \<Rightarrow> 'w branchWorkerEventLoop \<Rightarrow> 'w branchWorkerEventLoop" where
  "wake_up gs env WakeItem l =
     (case bw_eventQueue (lp_w l) of
        [] \<Rightarrow> l
      | item # items \<Rightarrow>
          add_inflight (- 1) (handleQueueItem gs env item (l\<lparr> lp_w := (lp_w l)\<lparr> bw_eventQueue := items \<rparr> \<rparr>)))"
| "wake_up gs env WakeCommit l = maybeSchedulePush env (closed_window env (l\<lparr> lp_commitTimer := None \<rparr>))"
| "wake_up gs env WakePush l = pushPending env (l\<lparr> lp_pushTimer := None \<rparr>)"
| "wake_up gs env WakeAttach l = l\<lparr> lp_attachTimer := None \<rparr>"

text \<open>One turn of \<open>run\<close>.\<close>

definition loop_turn ::
  "(GroupVersionResource \<Rightarrow> string) \<Rightarrow> 'w worker_env \<Rightarrow> wake \<Rightarrow> 'w branchWorkerEventLoop \<Rightarrow> 'w branchWorkerEventLoop" where
  "loop_turn gs env wk l =
     syncQueueDepthMetric (applyDeferredHeals env (serviceCommitRequests env (wake_up gs env wk l)))"

definition drainUnhandledQueueItems :: "'w branchWorkerEventLoop \<Rightarrow> 'w branchWorkerEventLoop" where
  "drainUnhandledQueueItems l =
     l\<lparr> lp_w := (lp_w l)\<lparr> bw_eventQueue := [],
        bw_inflightItems := bw_inflightItems (lp_w l) - int (length (bw_eventQueue (lp_w l))) \<rparr> \<rparr>"

definition handleShutdown :: "'w worker_env \<Rightarrow> 'w branchWorkerEventLoop \<Rightarrow> 'w branchWorkerEventLoop" where
  "handleShutdown env l =
     (let l = applyDeferredHeals env (closed_window env l);
          l = (if lp_pendingWrites l \<noteq> [] then pushPending env l else l)
      in drainUnhandledQueueItems l)"

definition stopTimers :: "'w branchWorkerEventLoop \<Rightarrow> 'w branchWorkerEventLoop" where
  "stopTimers l = stopAttachTimer (stopPushTimer (stopCommitTimer l))"

text \<open>
  The steps of a worker: an event, an attach or a resync is enqueued by another goroutine, the world
  moves on its own, or the loop takes a turn.
\<close>

datatype 'w worker_op =
  OpEnqueue WorkItem
| OpWorld 'w
| OpTurn wake

fun worker_step ::
  "(GroupVersionResource \<Rightarrow> string) \<Rightarrow> 'w worker_env \<Rightarrow> 'w worker_op \<Rightarrow> 'w branchWorkerEventLoop
     \<Rightarrow> 'w branchWorkerEventLoop" where
  "worker_step gs env (OpEnqueue item) l =
     (case item of
        ItemResync req \<Rightarrow>
          (case EnqueueResync req (lp_w l) (lp_replies l) of
             (_, bw, replies) \<Rightarrow> l\<lparr> lp_w := bw, lp_replies := replies \<rparr>)
      | _ \<Rightarrow> l\<lparr> lp_w := snd (enqueue_item item (lp_w l)) \<rparr>)"
| "worker_step gs env (OpWorld w) l = l\<lparr> lp_world := w \<rparr>"
| "worker_step gs env (OpTurn wk) l = (if enabled wk l then loop_turn gs env wk l else l)"

section \<open>What each operation leaves alone\<close>

definition same_worker :: "BranchWorker \<Rightarrow> BranchWorker \<Rightarrow> bool" where
  "same_worker a b =
     (bw_contentWriter b = bw_contentWriter a \<and> bw_branchBufferMaxBytes b = bw_branchBufferMaxBytes a
      \<and> bw_Branch b = bw_Branch a \<and> bw_eventQueue b = bw_eventQueue a
      \<and> bw_inflightItems b = bw_inflightItems a)"

lemma same_worker_refl [simp, intro]: "same_worker a a"
  by (simp add: same_worker_def)

lemma same_worker_trans: "same_worker a b \<Longrightarrow> same_worker b c \<Longrightarrow> same_worker a c"
  by (simp add: same_worker_def)

lemma updateBranchMetadata_worker:
  assumes "updateBranchMetadataFromPullReport env r bw w = (bw', w')"
  shows "same_worker bw bw' \<and> bw_crOutcomes bw' = bw_crOutcomes bw"
  using assms by (auto simp: updateBranchMetadataFromPullReport_def same_worker_def split: prod.splits)

lemma prepare_cycle_worker:
  assumes "prepare_cycle env provider bw has w = (err, bw', w')"
  shows "same_worker bw bw' \<and> bw_crOutcomes bw' = bw_crOutcomes bw"
  using assms by (auto simp: prepare_cycle_def split: if_splits prod.splits sum.splits
      dest!: updateBranchMetadata_worker)

lemma commitPendingWrites_worker:
  assumes "commitPendingWrites env ps has bw w = (err, qs, bw', w')"
  shows "same_worker bw bw' \<and> bw_crOutcomes bw' = bw_crOutcomes bw"
  using assms
  by (auto simp: commitPendingWrites_def Let_def same_worker_def
      split: if_splits prod.splits sum.splits option.splits dest!: prepare_cycle_worker)

lemma push_loop_worker:
  "push_loop env auth n root lst ps bw w = (err, qs, bw', w')
   \<Longrightarrow> same_worker bw bw' \<and> bw_crOutcomes bw' = bw_crOutcomes bw"
proof (induction n arbitrary: root lst ps bw w)
  case (Suc n)
  then show ?case
    by (auto simp: Let_def split: if_splits prod.splits sum.splits dest!: updateBranchMetadata_worker)
      (fastforce simp: same_worker_def)+
qed simp

lemma pushPendingCommits_worker:
  assumes "pushPendingCommits env ps bw w = (err, qs, bw', w')"
  shows "same_worker bw bw' \<and> bw_crOutcomes bw' = bw_crOutcomes bw"
  using assms by (auto simp: pushPendingCommits_def split: if_splits prod.splits sum.splits dest!: push_loop_worker)

lemma read_clock_fields:
  assumes "read_clock env l = (t, l')"
  obtains w where "l' = l\<lparr> lp_world := w \<rparr>"
  using assms by (auto simp: read_clock_def split: prod.splits)

text \<open>Resolving a request touches the outcomes, the clock and the parked requests.\<close>

lemma resolveCommitRequest_form:
  obtains w outs where "resolveCommitRequest env cr result l =
    l\<lparr> lp_world := w, lp_w := (lp_w l)\<lparr> bw_crOutcomes := outs \<rparr>, lp_pendingCRs := map_del cr (lp_pendingCRs l) \<rparr>"
proof -
  obtain t w where "we_now env (lp_world l) = (t, w)" by (cases "we_now env (lp_world l)")
  then have "resolveCommitRequest env cr result l =
      l\<lparr> lp_world := w,
         lp_w := (lp_w l)\<lparr> bw_crOutcomes := record_outcome t cr
           (if fr_Branch result = [] then result\<lparr> fr_Branch := bw_Branch (lp_w l) \<rparr> else result)
           (bw_crOutcomes (lp_w l)) \<rparr>,
         lp_pendingCRs := map_del cr (lp_pendingCRs l) \<rparr>"
    by (simp add: resolveCommitRequest_def recordCommitRequestOutcome_def read_clock_def Let_def)
  then show ?thesis by (rule that)
qed

lemma resolveCommitRequest_frame [simp]:
  "lp_openWindow (resolveCommitRequest env cr r l) = lp_openWindow l"
  "lp_windowBytes (resolveCommitRequest env cr r l) = lp_windowBytes l"
  "lp_pendingWrites (resolveCommitRequest env cr r l) = lp_pendingWrites l"
  "lp_pendingWritesBytes (resolveCommitRequest env cr r l) = lp_pendingWritesBytes l"
  "lp_commitWindow (resolveCommitRequest env cr r l) = lp_commitWindow l"
  "lp_commitTimer (resolveCommitRequest env cr r l) = lp_commitTimer l"
  "lp_pushTimer (resolveCommitRequest env cr r l) = lp_pushTimer l"
  "lp_attachTimer (resolveCommitRequest env cr r l) = lp_attachTimer l"
  "lp_deferredHeals (resolveCommitRequest env cr r l) = lp_deferredHeals l"
  "lp_lastPushAt (resolveCommitRequest env cr r l) = lp_lastPushAt l"
  "lp_replies (resolveCommitRequest env cr r l) = lp_replies l"
  "lp_pendingCRs (resolveCommitRequest env cr r l) = map_del cr (lp_pendingCRs l)"
  "same_worker (lp_w l) (lp_w (resolveCommitRequest env cr r l))"
  by (rule resolveCommitRequest_form [of env cr r l]; simp add: same_worker_def)+

lemma resolve_pushed_frame [simp]:
  "lp_openWindow (resolve_pushed env ps l) = lp_openWindow l"
  "lp_windowBytes (resolve_pushed env ps l) = lp_windowBytes l"
  "lp_pendingWrites (resolve_pushed env ps l) = lp_pendingWrites l"
  "lp_pendingWritesBytes (resolve_pushed env ps l) = lp_pendingWritesBytes l"
  "lp_commitWindow (resolve_pushed env ps l) = lp_commitWindow l"
  "lp_commitTimer (resolve_pushed env ps l) = lp_commitTimer l"
  "lp_attachTimer (resolve_pushed env ps l) = lp_attachTimer l"
  "lp_deferredHeals (resolve_pushed env ps l) = lp_deferredHeals l"
  "lp_replies (resolve_pushed env ps l) = lp_replies l"
  by (induction env ps l rule: resolve_pushed.induct) (simp_all split: option.splits)

lemma resolve_pushed_worker: "same_worker (lp_w l) (lp_w (resolve_pushed env ps l))"
proof (induction env ps l rule: resolve_pushed.induct)
  case (2 env pw pws l)
  then show ?case
    by (auto split: option.splits intro: same_worker_trans [OF resolveCommitRequest_frame(13)])
qed simp

lemma resolve_pushed_CRs: "set (lp_pendingCRs (resolve_pushed env ps l)) \<subseteq> set (lp_pendingCRs l)
   \<and> (map_wf (lp_pendingCRs l) \<longrightarrow> map_wf (lp_pendingCRs (resolve_pushed env ps l)))"
proof (induction env ps l rule: resolve_pushed.induct)
  case (2 env pw pws l)
  then show ?case by (auto simp: set_map_del split: option.splits)
qed simp

end
