(* ===== verification/Worker_Invariant.thy ===== *)
theory Worker_Invariant
  imports Branch_Worker
begin

text \<open>
  The invariant of the branch worker's event loop and what follows from it: no retained commit mixes two
  authors, an open window stays below the byte cap and has its timer, a CommitRequest rides only a window
  of its own author and target, a heal never closes a window, and a request is reported as committed only
  by the push that carried its commit.
\<close>

section \<open>The invariant\<close>

text \<open>
  \<open>core_inv\<close> holds inside a turn as well: the window is well formed, the retained bytes are counted,
  every retained commit speaks for one author, and a request is attached only to the window that carries
  its message. \<open>tight\<close> holds between turns: an open window is below the byte cap and has its silence timer.
\<close>

definition window_ok :: "SensitiveResourcePolicy \<Rightarrow> openWindow option \<Rightarrow> int \<Rightarrow> bool" where
  "window_ok writer win bytes =
     (case win of None \<Rightarrow> bytes = 0 | Some w \<Rightarrow> window_wf w \<and> ow_writer w = writer)"

definition one_author :: "PendingWrite \<Rightarrow> bool" where
  "one_author p =
     (pw_Kind p = PendingWriteCommit \<longrightarrow>
        (\<forall>e \<in> set (pw_Events p). ui_Username (ev_UserInfo e) = pw_Author p \<and> ev_Attribution e = pw_AttributionOutcome p))"

definition writes_ok :: "PendingWrite list \<Rightarrow> int \<Rightarrow> bool" where
  "writes_ok ps bytes =
     (bytes = sum_list (map pw_ByteSize ps) \<and> (\<forall>p \<in> set ps. 0 \<le> pw_ByteSize p \<and> one_author p))"

definition carries :: "openWindow option \<Rightarrow> commitRequestID \<Rightarrow> pendingCommitRequest \<Rightarrow> bool" where
  "carries win cr pcr =
     (case win of
        None \<Rightarrow> False
      | Some w \<Rightarrow> ow_pendingCR w = Some cr \<and> matchesWindow pcr w \<and> ow_pendingMessage w = pcr_message pcr)"

definition claims_ok ::
  "openWindow option \<Rightarrow> (commitRequestID, pendingCommitRequest) gomap \<Rightarrow> bool" where
  "claims_ok win crs =
     (map_wf crs
      \<and> (\<forall>(cr, pcr) \<in> set crs. pcr_id pcr = cr \<and> (pcr_attached pcr \<longrightarrow> carries win cr pcr)))"

definition core_inv :: "'w branchWorkerEventLoop \<Rightarrow> bool" where
  "core_inv l =
     (window_ok (bw_contentWriter (lp_w l)) (lp_openWindow l) (lp_windowBytes l)
      \<and> writes_ok (lp_pendingWrites l) (lp_pendingWritesBytes l)
      \<and> claims_ok (lp_openWindow l) (lp_pendingCRs l))"

definition tight :: "'w branchWorkerEventLoop \<Rightarrow> bool" where
  "tight l =
     (lp_openWindow l \<noteq> None \<longrightarrow>
        totalRetainedBytes l < bw_branchBufferMaxBytes (lp_w l)
        \<and> lp_commitTimer l \<noteq> None \<and> lp_commitWindow l \<noteq> 0)"

lemma claims_ok_subset:
  assumes "claims_ok win crs" and "map_wf crs'" and "set crs' \<subseteq> set crs"
  shows "claims_ok win crs'"
  using assms by (fastforce simp: claims_ok_def)

lemma claims_ok_wf: "claims_ok win crs \<Longrightarrow> map_wf crs"
  by (simp add: claims_ok_def)

lemma claims_ok_del: "claims_ok win crs \<Longrightarrow> claims_ok win (map_del cr crs)"
  by (rule claims_ok_subset) (auto simp: set_map_del claims_ok_def)

lemma claims_ok_new: "claims_ok None crs \<Longrightarrow> claims_ok win crs"
  by (auto simp: claims_ok_def carries_def)

lemma claims_ok_close:
  assumes "claims_ok (Some win) crs"
  shows "claims_ok None (case ow_pendingCR win of None \<Rightarrow> crs | Some cr \<Rightarrow> map_del cr crs)"
  using assms by (auto simp: claims_ok_def carries_def set_map_del split: option.splits)

lemma claims_ok_add: "claims_ok (Some win) crs \<Longrightarrow> claims_ok (Some (add win e)) crs"
  by (auto simp: claims_ok_def carries_def matchesWindow_def)

lemma author_cong:
  assumes "pw_Kind q = pw_Kind p" and "pw_Events q = pw_Events p"
  shows "pw_Author q = pw_Author p" and "pw_AttributionOutcome q = pw_AttributionOutcome p"
    and "one_author q = one_author p"
proof -
  show a: "pw_Author q = pw_Author p" and b: "pw_AttributionOutcome q = pw_AttributionOutcome p"
    using assms by (simp_all add: pw_Author_def AuthorUserInfo_def pw_AttributionOutcome_def)
  show "one_author q = one_author p" unfolding one_author_def a b assms by (rule refl)
qed

lemma same_write_author:
  assumes "same_write p q"
  shows "pw_Author q = pw_Author p" and "pw_AttributionOutcome q = pw_AttributionOutcome p"
    and "one_author q = one_author p"
  using assms by (auto simp: same_write_def intro!: author_cong)

lemma one_author_same: "same_write p q \<Longrightarrow> one_author p \<Longrightarrow> one_author q"
  by (simp add: same_write_author)

lemma writes_ok_same:
  assumes "writes_ok ps bytes" and "list_all2 same_write ps qs"
  shows "writes_ok qs bytes"
proof -
  have sizes: "map pw_ByteSize qs = map pw_ByteSize ps"
    using assms(2) by (induction rule: list_all2_induct) (auto simp: same_write_def)
  have "0 \<le> pw_ByteSize q \<and> one_author q" if q: "q \<in> set qs" for q
  proof -
    from q obtain i where i: "i < length qs" "q = qs ! i" by (auto simp: in_set_conv_nth)
    with assms(2) have "same_write (ps ! i) q" and "ps ! i \<in> set ps"
      by (auto simp: list_all2_conv_all_nth)
    with assms(1) show ?thesis
      unfolding writes_ok_def using one_author_same [of "ps ! i" q] by (auto simp: same_write_def)
  qed
  with assms(1) sizes show ?thesis by (simp add: writes_ok_def)
qed

lemma writes_ok_snoc:
  "writes_ok (ps @ [p]) (bytes + pw_ByteSize p) \<longleftrightarrow> writes_ok ps bytes \<and> 0 \<le> pw_ByteSize p \<and> one_author p"
  by (auto simp: writes_ok_def)

lemma writes_ok_nonneg: "writes_ok ps bytes \<Longrightarrow> 0 \<le> bytes"
  by (auto simp: writes_ok_def intro!: sum_list_nonneg)

lemma writes_ok_Nil [simp]: "writes_ok [] 0"
  by (simp add: writes_ok_def)

lemma same_workerD:
  assumes "same_worker a b"
  shows "bw_contentWriter b = bw_contentWriter a" and "bw_branchBufferMaxBytes b = bw_branchBufferMaxBytes a"
    and "bw_Branch b = bw_Branch a"
  using assms by (simp_all add: same_worker_def)

text \<open>Both invariants depend only on the fields they name.\<close>

lemma core_inv_cong:
  assumes "core_inv l" and "same_worker (lp_w l) (lp_w l')"
    and "lp_openWindow l' = lp_openWindow l" and "lp_windowBytes l' = lp_windowBytes l"
    and "lp_pendingWrites l' = lp_pendingWrites l" and "lp_pendingWritesBytes l' = lp_pendingWritesBytes l"
    and "lp_pendingCRs l' = lp_pendingCRs l"
  shows "core_inv l'"
  using assms by (simp add: core_inv_def same_workerD)

lemma resolveCommitRequest_core:
  assumes "core_inv l"
  shows "core_inv (resolveCommitRequest env cr r l)"
  using assms same_workerD(1) [OF resolveCommitRequest_frame(13) [of l env cr r]]
  by (simp add: core_inv_def claims_ok_del)

lemma resolve_pushed_core:
  assumes "core_inv l"
  shows "core_inv (resolve_pushed env ps l)"
proof -
  have "claims_ok (lp_openWindow l) (lp_pendingCRs (resolve_pushed env ps l))"
    using assms resolve_pushed_CRs [of env ps l] claims_ok_wf
    unfolding core_inv_def by (metis claims_ok_subset)
  with assms same_workerD(1) [OF resolve_pushed_worker [of l env ps]] show ?thesis
    by (simp add: core_inv_def)
qed

section \<open>Preservation inside a turn\<close>

text \<open>A push clears the retained writes or leaves them; the window and its timer stay.\<close>

lemma pushPending_frame:
  "lp_openWindow (pushPending env l) = lp_openWindow l"
  "lp_windowBytes (pushPending env l) = lp_windowBytes l"
  "lp_commitTimer (pushPending env l) = lp_commitTimer l"
  "lp_commitWindow (pushPending env l) = lp_commitWindow l"
  "lp_deferredHeals (pushPending env l) = lp_deferredHeals l"
  "lp_attachTimer (pushPending env l) = lp_attachTimer l"
  by (simp_all add: pushPending_def stopPushTimer_def resolvePushedCommitRequests_def read_clock_def Let_def
      split: prod.splits option.splits)

lemma pushPending_worker: "same_worker (lp_w l) (lp_w (pushPending env l))"
proof -
  obtain err ps bw w where p: "pushPendingCommits env (lp_pendingWrites l) (lp_w l) (lp_world l) = (err, ps, bw, w)"
    by (metis prod_cases4)
  have a: "same_worker (lp_w l) bw" using pushPendingCommits_worker [OF p] by simp
  moreover have "same_worker bw (lp_w (resolve_pushed env ps (l\<lparr> lp_pendingWrites := ps, lp_w := bw, lp_world := w \<rparr>)))"
    using resolve_pushed_worker [of "l\<lparr> lp_pendingWrites := ps, lp_w := bw, lp_world := w \<rparr>" env ps] by simp
  ultimately show ?thesis
    by (auto simp: pushPending_def p stopPushTimer_def resolvePushedCommitRequests_def read_clock_def Let_def
        split: prod.splits option.splits intro: same_worker_trans)
qed

lemma pushPending_core:
  assumes "core_inv l"
  shows "core_inv (pushPending env l)"
proof -
  obtain err ps bw w where p: "pushPendingCommits env (lp_pendingWrites l) (lp_w l) (lp_world l) = (err, ps, bw, w)"
    by (metis prod_cases4)
  let ?l = "l\<lparr> lp_pendingWrites := ps, lp_w := bw, lp_world := w \<rparr>"
  have "writes_ok ps (lp_pendingWritesBytes l)"
    using assms writes_ok_same pushPendingCommits_same [OF p] unfolding core_inv_def by blast
  then have mid: "core_inv ?l"
    using assms same_workerD(1) [OF conjunct1 [OF pushPendingCommits_worker [OF p]]]
    by (simp add: core_inv_def)
  show ?thesis
  proof (cases "lp_pendingWrites l = []")
    case True
    then show ?thesis using assms by (simp add: pushPending_def stopPushTimer_def core_inv_def)
  next
    case False
    show ?thesis
    proof (cases err)
      case None
      have "core_inv (resolve_pushed env ps ?l)" using mid by (rule resolve_pushed_core)
      with False None p show ?thesis
        by (auto simp: pushPending_def stopPushTimer_def resolvePushedCommitRequests_def read_clock_def Let_def
            core_inv_def split: prod.splits)
    next
      case (Some e)
      with False p mid show ?thesis
        by (simp add: pushPending_def stopPushTimer_def core_inv_def)
    qed
  qed
qed

lemma pushPending_bytes:
  assumes "core_inv l"
  shows "lp_pendingWritesBytes (pushPending env l) \<le> lp_pendingWritesBytes l"
  using assms writes_ok_nonneg [of "lp_pendingWrites l" "lp_pendingWritesBytes l"]
  by (simp add: pushPending_def stopPushTimer_def resolvePushedCommitRequests_def read_clock_def Let_def
      core_inv_def split: prod.splits option.splits)

text \<open>The same for the hook that decides whether to push now.\<close>

lemma maybeSchedulePush_cases:
  obtains (same) "maybeSchedulePush env l = l"
  | (push) w where "maybeSchedulePush env l = pushPending env (l\<lparr> lp_world := w \<rparr>)"
  | (timer) w t where "maybeSchedulePush env l = l\<lparr> lp_world := w, lp_pushTimer := t \<rparr>"
proof -
  obtain t w where now: "we_now env (lp_world l) = (t, w)" by (cases "we_now env (lp_world l)")
  let ?elapsed = "time_Sub t (lp_lastPushAt l)"
  consider "lp_pendingWrites l = []"
    | "lp_pendingWrites l \<noteq> []" "time_IsZero (lp_lastPushAt l)"
    | "lp_pendingWrites l \<noteq> []" "\<not> time_IsZero (lp_lastPushAt l)" "PushCooldown \<le> ?elapsed"
    | "lp_pendingWrites l \<noteq> []" "\<not> time_IsZero (lp_lastPushAt l)" "\<not> PushCooldown \<le> ?elapsed"
    by blast
  then show thesis
  proof cases
    case 1
    then show thesis by (intro same) (simp add: maybeSchedulePush_def)
  next
    case 2
    then show thesis by (intro push [of "lp_world l"]) (simp add: maybeSchedulePush_def)
  next
    case 3
    then show thesis by (intro push [of w]) (simp add: maybeSchedulePush_def read_clock_def now)
  next
    case 4
    show thesis
    proof (cases "lp_pushTimer l")
      case None
      with 4 show thesis
        by (intro timer [of "Some (t + (PushCooldown - ?elapsed))" w])
          (simp add: maybeSchedulePush_def read_clock_def now)
    next
      case (Some d)
      with 4 have "maybeSchedulePush env l = l\<lparr> lp_world := w \<rparr>"
        by (simp add: maybeSchedulePush_def read_clock_def now)
      then show thesis using Some by (intro timer [of "Some d" w]) (cases l, simp)
    qed
  qed
qed

lemma core_inv_world [simp]:
  "core_inv (l\<lparr> lp_world := w \<rparr>) = core_inv l"
  "core_inv (l\<lparr> lp_pushTimer := t \<rparr>) = core_inv l"
  "core_inv (l\<lparr> lp_commitTimer := t \<rparr>) = core_inv l"
  "core_inv (l\<lparr> lp_attachTimer := t \<rparr>) = core_inv l"
  "core_inv (l\<lparr> lp_deferredHeals := hs \<rparr>) = core_inv l"
  "core_inv (l\<lparr> lp_replies := rs \<rparr>) = core_inv l"
  by (simp_all add: core_inv_def)

lemma maybeSchedulePush_frame:
  "lp_openWindow (maybeSchedulePush env l) = lp_openWindow l"
  "lp_windowBytes (maybeSchedulePush env l) = lp_windowBytes l"
  "lp_commitTimer (maybeSchedulePush env l) = lp_commitTimer l"
  "lp_commitWindow (maybeSchedulePush env l) = lp_commitWindow l"
  "lp_deferredHeals (maybeSchedulePush env l) = lp_deferredHeals l"
  "lp_attachTimer (maybeSchedulePush env l) = lp_attachTimer l"
  "same_worker (lp_w l) (lp_w (maybeSchedulePush env l))"
  by (rule maybeSchedulePush_cases [of env l]; simp add: pushPending_frame;
      use pushPending_worker [of "l\<lparr> lp_world := _ \<rparr>" env] in simp)+

lemma maybeSchedulePush_core: "core_inv l \<Longrightarrow> core_inv (maybeSchedulePush env l)"
  by (rule maybeSchedulePush_cases [of env l]) (simp_all add: pushPending_core)

lemma maybeSchedulePush_bytes:
  assumes "core_inv l"
  shows "lp_pendingWritesBytes (maybeSchedulePush env l) \<le> lp_pendingWritesBytes l"
  by (rule maybeSchedulePush_cases [of env l])
    (use assms pushPending_bytes [of "l\<lparr> lp_world := _ \<rparr>" env] in auto)

text \<open>Resolving the targets of events changes neither their author nor their attribution.\<close>

lemma stamp_event_author [simp]:
  "ev_UserInfo (stamp_event md e) = ev_UserInfo e" "ev_Attribution (stamp_event md e) = ev_Attribution e"
  by (simp_all add: stamp_event_def)

lemma resolve_events_author:
  "resolve_events env targets es w = (Inr (rs, targets'), w')
   \<Longrightarrow> map (\<lambda>e. (ev_UserInfo e, ev_Attribution e)) rs = map (\<lambda>e. (ev_UserInfo e, ev_Attribution e)) es"
proof (induction env targets es arbitrary: w rs targets' w' rule: resolve_events.induct)
  case (2 env targets event events)
  show ?case
  proof (cases "ev_GitTargetName event = [] \<or> ev_GitTargetNamespace event = []")
    case True
    with "2.prems" "2.IH"(1) show ?thesis by (auto elim!: bind_io_InrE)
  next
    case False
    with "2.prems" obtain x w1 rest ts where
        "resolve_events env (snd x) events w1 = (Inr (rest, ts), w')" and "rs = stamp_event (fst x) event # rest"
      by (auto elim!: bind_io_InrE split: prod.splits)
    with "2.IH"(2) [OF False, of "snd x"] show ?thesis by simp
  qed
qed auto

lemma estimateEventSize_nonneg: "0 \<le> estimateEventSize env e"
  by (simp add: estimateEventSize_def split: option.splits)

lemma estimateEventsSize_nonneg: "0 \<le> estimateEventsSize env es"
  unfolding estimateEventsSize_def
  by (rule sum_list_nonneg) (auto simp: estimateEventSize_nonneg)

lemma estimateDesiredSize_nonneg: "0 \<le> estimateDesiredSize env ds"
  unfolding estimateDesiredSize_def by (rule sum_list_nonneg) (auto split: option.splits)

lemma buildGrouped_ok:
  assumes "buildGroupedPendingWrite env es w = (Inr pw, w')"
    and "\<And>e. e \<in> set es \<Longrightarrow> ui_Username (ev_UserInfo e) = a \<and> ev_Attribution e = oc"
  shows "pw_Kind pw = PendingWriteCommit" and "0 \<le> pw_ByteSize pw" and "one_author pw"
    and "pw_Author pw = a" and "pw_AttributionOutcome pw = oc"
    and "length (pw_Events pw) = length es"
proof -
  from assms(1) obtain rs targets w1 w2 sg cfg where
      r: "resolve_events env [] es w1 = (Inr (rs, targets), w2)" and ne: "es \<noteq> []"
      and pw: "pw = (empty_write PendingWriteCommit cfg sg)\<lparr> pw_Events := rs, pw_Targets := targets,
          pw_ByteSize := estimateEventsSize env rs \<rparr>"
    by (auto simp: buildGroupedPendingWrite_def resolveEventsForPendingWrite_def elim!: bind_io_InrE
        split: if_splits)
  have same: "map (\<lambda>e. (ev_UserInfo e, ev_Attribution e)) rs = map (\<lambda>e. (ev_UserInfo e, ev_Attribution e)) es"
    using resolve_events_author [OF r] .
  then have len: "length rs = length es" by (metis length_map)
  have "set (map (\<lambda>e. (ev_UserInfo e, ev_Attribution e)) rs) = set (map (\<lambda>e. (ev_UserInfo e, ev_Attribution e)) es)"
    using same by simp
  then have au: "ui_Username (ev_UserInfo e) = a \<and> ev_Attribution e = oc" if "e \<in> set rs" for e
    using assms(2) that by (auto simp: set_eq_iff image_iff) (metis)+
  have "rs \<noteq> []" using len ne by auto
  then have hd: "hd rs \<in> set rs" by simp
  show kind: "pw_Kind pw = PendingWriteCommit" and "0 \<le> pw_ByteSize pw"
    by (simp_all add: pw empty_write_def estimateEventsSize_nonneg)
  show "length (pw_Events pw) = length es" by (simp add: pw empty_write_def len)
  show author: "pw_Author pw = a" and oc: "pw_AttributionOutcome pw = oc"
    using au [OF hd] \<open>rs \<noteq> []\<close>
    by (simp_all add: pw empty_write_def pw_Author_def AuthorUserInfo_def pw_AttributionOutcome_def)
  show "one_author pw"
    unfolding one_author_def author oc using au by (simp add: pw empty_write_def)
qed

section \<open>Closing a window\<close>

text \<open>A window closes in one of two ways: it is dropped, or its write is retained.\<close>

definition closing :: "'w branchWorkerEventLoop \<Rightarrow> BranchWorker \<Rightarrow> 'w \<Rightarrow> 'w branchWorkerEventLoop" where
  "closing l bw w = l\<lparr> lp_commitTimer := None, lp_w := bw, lp_world := w \<rparr>"

definition window_write :: "openWindow \<Rightarrow> PendingWrite \<Rightarrow> bool" where
  "window_write win pw =
     (pw_Kind pw = PendingWriteCommit \<and> 0 \<le> pw_ByteSize pw \<and> one_author pw \<and> pw_Author pw = ow_Author win
      \<and> pw_AttributionOutcome pw = ow_Attribution win \<and> pw_CommitRequest pw = ow_pendingCR win
      \<and> pw_CommitMessage pw = ow_pendingMessage win
      \<and> length (pw_Events pw) = length (orderedEvents win))"

lemma commit_one:
  assumes "commitPendingWrites env [pw] has bw w = (err, batch, bw', w')"
  obtains q where "batch = [q]" and "same_write pw q"
  using commitPendingWrites_same [OF assms] by (auto simp: list_all2_Cons1)

lemma window_write_same: "same_write pw q \<Longrightarrow> window_write win pw \<Longrightarrow> window_write win q"
  unfolding window_write_def
  using same_write_author [of pw q] one_author_same [of pw q] by (simp add: same_write_def)

lemma built_window_write:
  assumes "window_wf win" and "buildGroupedPendingWrite env (orderedEvents win) w = (Inr pw, w')"
  shows "window_write win (pw\<lparr> pw_CommitMessage := ow_pendingMessage win, pw_CommitRequest := ow_pendingCR win \<rparr>)"
proof -
  have ident: "ui_Username (ev_UserInfo e) = ow_Author win \<and> ev_Attribution e = ow_Attribution win"
    if "e \<in> set (orderedEvents win)" for e
    using orderedEvents_identity [OF assms(1) that] by (simp add: canAppend_def)
  note ok = buildGrouped_ok [OF assms(2) ident]
  let ?pw = "pw\<lparr> pw_CommitMessage := ow_pendingMessage win, pw_CommitRequest := ow_pendingCR win \<rparr>"
  have "pw_Author ?pw = pw_Author pw" "pw_AttributionOutcome ?pw = pw_AttributionOutcome pw"
      "one_author ?pw = one_author pw"
    by (rule author_cong; simp)+
  then show ?thesis using ok by (simp add: window_write_def)
qed

lemma finalizeOpenWindow_cases:
  assumes "lp_openWindow l = Some win" and "window_wf win"
  obtains
    (dropped) cause bw w where
      "finalizeOpenWindow env l = (False, dropOpenWindow env (ow_pendingCR win) cause (closing l bw w))"
      and "same_worker (lp_w l) bw \<and> bw_crOutcomes bw = bw_crOutcomes (lp_w l)"
  | (retained) pw bw w where
      "finalizeOpenWindow env l = (True, retain_window env (ow_pendingCR win) pw (closing l bw w))"
      and "same_worker (lp_w l) bw \<and> bw_crOutcomes bw = bw_crOutcomes (lp_w l)" and "window_write win pw"
proof -
  let ?l = "stopCommitTimer l"
  have fields: "lp_world ?l = lp_world l" "lp_w ?l = lp_w l" "lp_pendingWrites ?l = lp_pendingWrites l"
    by (simp_all add: stopCommitTimer_def)
  have self: "?l = closing l (lp_w l) (lp_world l)"
    by (cases l) (simp add: closing_def stopCommitTimer_def)
  show thesis
  proof (cases "normalWritesAllowed (we_renderFidelityGate env (lp_world l)) (ow_GitTarget win) (ow_GitTargetNamespace win)")
    case False
    then have "finalizeOpenWindow env l = (False, dropOpenWindow env (ow_pendingCR win) ''render fidelity gate is closed'' ?l)"
      using assms fields by (simp add: finalizeOpenWindow_def finalizeOpenWindowWithMessage_def)
    then show thesis using dropped [of "''render fidelity gate is closed''" "lp_w l" "lp_world l"] self by simp
  next
    case True
    obtain r w1 where b: "buildGroupedPendingWrite env (orderedEvents win) (lp_world l) = (r, w1)"
      by (cases "buildGroupedPendingWrite env (orderedEvents win) (lp_world l)")
    show thesis
    proof (cases r)
      case (Inl e)
      then have "finalizeOpenWindow env l =
          (False, dropOpenWindow env (ow_pendingCR win) (err_text (wrap ''build pending write'' e)) (closing l (lp_w l) w1))"
        using assms fields True b
        by (simp add: finalizeOpenWindow_def finalizeOpenWindowWithMessage_def closing_def stopCommitTimer_def)
      then show thesis by (rule dropped) simp
    next
      case (Inr pw)
      let ?pw = "pw\<lparr> pw_CommitMessage := ow_pendingMessage win, pw_CommitRequest := ow_pendingCR win \<rparr>"
      obtain err batch bw w2 where c:
        "commitPendingWrites env [?pw] (lp_pendingWrites l \<noteq> []) (lp_w l) w1 = (err, batch, bw, w2)"
        by (metis prod_cases4)
      note kept = commitPendingWrites_worker [OF c]
      obtain q where q: "batch = [q]" "same_write ?pw q" using c by (rule commit_one)
      have "window_write win ?pw" using assms(2) b unfolding Inr by (rule built_window_write)
      with q(2) have ok: "window_write win q" by (rule window_write_same)
      show thesis
      proof (cases err)
        case None
        then have "finalizeOpenWindow env l = (True, retain_window env (ow_pendingCR win) q (closing l bw w2))"
          using assms fields True b Inr c q
          by (simp add: finalizeOpenWindow_def finalizeOpenWindowWithMessage_def closing_def stopCommitTimer_def)
        then show thesis using kept ok by (rule retained)
      next
        case (Some e)
        have "\<exists>w3. reportPathRefusal env e n ns (closing l bw w2) = closing l bw w3" for n ns
          by (cases e) (auto simp: reportPathRefusal_def closing_def)
        then obtain w3 where
          "reportPathRefusal env e (ow_GitTarget win) (ow_GitTargetNamespace win) (closing l bw w2) = closing l bw w3" by blast
        with Some have "finalizeOpenWindow env l =
            (False, dropOpenWindow env (ow_pendingCR win) (err_text (wrap ''commit failed'' e)) (closing l bw w3))"
          using assms fields True b Inr c q
          by (simp add: finalizeOpenWindow_def finalizeOpenWindowWithMessage_def closing_def stopCommitTimer_def)
        then show thesis using kept by (rule dropped)
      qed
    qed
  qed
qed

lemma closing_fields [simp]:
  "lp_w (closing l bw w) = bw" "lp_world (closing l bw w) = w" "lp_commitTimer (closing l bw w) = None"
  "lp_openWindow (closing l bw w) = lp_openWindow l" "lp_pendingWrites (closing l bw w) = lp_pendingWrites l"
  "lp_pendingWritesBytes (closing l bw w) = lp_pendingWritesBytes l" "lp_pendingCRs (closing l bw w) = lp_pendingCRs l"
  "lp_commitWindow (closing l bw w) = lp_commitWindow l" "lp_deferredHeals (closing l bw w) = lp_deferredHeals l"
  "lp_attachTimer (closing l bw w) = lp_attachTimer l" "lp_replies (closing l bw w) = lp_replies l"
  by (simp_all add: closing_def)

lemma dropOpenWindow_core:
  assumes "core_inv l" and "lp_openWindow l = Some win" and "same_worker (lp_w l) bw"
  shows "core_inv (dropOpenWindow env (ow_pendingCR win) cause (closing l bw w))"
proof -
  have claims: "claims_ok None (case ow_pendingCR win of None \<Rightarrow> lp_pendingCRs l | Some cr \<Rightarrow> map_del cr (lp_pendingCRs l))"
    using assms(1,2) claims_ok_close [of win] by (simp add: core_inv_def)
  have writes: "writes_ok (lp_pendingWrites l) (lp_pendingWritesBytes l)" using assms(1) by (simp add: core_inv_def)
  show ?thesis
    using claims writes by (cases "ow_pendingCR win") (simp_all add: dropOpenWindow_def core_inv_def window_ok_def Let_def)
qed

lemma retain_window_core:
  assumes "core_inv l" and "lp_openWindow l = Some win" and "window_write win pw"
  shows "core_inv (retain_window env (ow_pendingCR win) pw (closing l bw w))"
proof -
  have claims: "claims_ok None (case ow_pendingCR win of None \<Rightarrow> lp_pendingCRs l | Some cr \<Rightarrow> map_del cr (lp_pendingCRs l))"
    using assms(1,2) claims_ok_close [of win] by (simp add: core_inv_def)
  have "one_author (pw\<lparr> pw_CommitRequest := None \<rparr>) = one_author pw" by (rule author_cong) simp_all
  then have writes: "writes_ok (lp_pendingWrites l @ [q]) (lp_pendingWritesBytes l + pw_ByteSize pw)"
    if "q = pw \<or> q = pw\<lparr> pw_CommitRequest := None \<rparr>" for q
    using assms(1,3) writes_ok_snoc [of "lp_pendingWrites l" q "lp_pendingWritesBytes l"] that
    by (auto simp: core_inv_def window_write_def)
  show ?thesis
    using claims writes
    by (cases "ow_pendingCR win") (simp_all add: retain_window_def core_inv_def window_ok_def Let_def)
qed

lemma closed_window_none:
  assumes "lp_openWindow l = None"
  shows "closed_window env l = l"
  using assms by (simp add: finalizeOpenWindow_def finalizeOpenWindowWithMessage_def)

lemma closed_window_core:
  assumes "core_inv l"
  shows "core_inv (closed_window env l)"
proof (cases "lp_openWindow l")
  case None
  with assms show ?thesis by (simp add: closed_window_none)
next
  case (Some win)
  with assms have "window_wf win" by (simp add: core_inv_def window_ok_def)
  from finalizeOpenWindow_cases [OF Some this, of env] show ?thesis
    by cases (use assms Some in \<open>auto intro: dropOpenWindow_core retain_window_core\<close>)
qed

lemma retain_window_frame:
  "lp_openWindow (retain_window env cr pw l) = None" "lp_commitWindow (retain_window env cr pw l) = lp_commitWindow l"
  "lp_deferredHeals (retain_window env cr pw l) = lp_deferredHeals l"
  "lp_attachTimer (retain_window env cr pw l) = lp_attachTimer l"
  "lp_commitTimer (retain_window env cr pw l) = lp_commitTimer l"
  by (simp_all add: retain_window_def Let_def split: option.splits)

lemma dropOpenWindow_frame:
  "lp_openWindow (dropOpenWindow env cr cause l) = None" "lp_commitWindow (dropOpenWindow env cr cause l) = lp_commitWindow l"
  "lp_deferredHeals (dropOpenWindow env cr cause l) = lp_deferredHeals l"
  "lp_attachTimer (dropOpenWindow env cr cause l) = lp_attachTimer l"
  "lp_commitTimer (dropOpenWindow env cr cause l) = lp_commitTimer l"
  "lp_pendingWrites (dropOpenWindow env cr cause l) = lp_pendingWrites l"
  by (simp_all add: dropOpenWindow_def Let_def split: option.splits)

lemma resolve_worker: "lp_w l' = lp_w l \<Longrightarrow> same_worker (lp_w l) (lp_w (resolveCommitRequest env c r l'))"
  using resolveCommitRequest_frame(13) [of l' env c r] by simp

lemma retain_window_worker: "same_worker (lp_w l) (lp_w (retain_window env cr pw l))"
  by (auto simp: retain_window_def Let_def split: option.splits intro!: resolve_worker)

lemma dropOpenWindow_worker: "same_worker (lp_w l) (lp_w (dropOpenWindow env cr cause l))"
  by (auto simp: dropOpenWindow_def Let_def split: option.splits intro!: resolve_worker)

lemma closed_window_frame:
  assumes "core_inv l"
  shows "lp_openWindow (closed_window env l) = None" and "lp_commitWindow (closed_window env l) = lp_commitWindow l"
    and "lp_deferredHeals (closed_window env l) = lp_deferredHeals l"
    and "lp_attachTimer (closed_window env l) = lp_attachTimer l"
    and "same_worker (lp_w l) (lp_w (closed_window env l))"
proof -
  have "lp_openWindow (closed_window env l) = None \<and> lp_commitWindow (closed_window env l) = lp_commitWindow l
      \<and> lp_deferredHeals (closed_window env l) = lp_deferredHeals l
      \<and> lp_attachTimer (closed_window env l) = lp_attachTimer l
      \<and> same_worker (lp_w l) (lp_w (closed_window env l))"
  proof (cases "lp_openWindow l")
    case (Some win)
    with assms have "window_wf win" by (simp add: core_inv_def window_ok_def)
    from finalizeOpenWindow_cases [OF Some this, of env] show ?thesis
    proof cases
      case (1 cause bw w)
      then show ?thesis
        using same_worker_trans [OF _ dropOpenWindow_worker [of "closing l bw w" env "ow_pendingCR win" cause], of "lp_w l"]
        by (simp add: dropOpenWindow_frame)
    next
      case (2 pw bw w)
      then show ?thesis
        using same_worker_trans [OF _ retain_window_worker [of "closing l bw w" env "ow_pendingCR win" pw], of "lp_w l"]
        by (simp add: retain_window_frame)
    qed
  qed (simp add: closed_window_none)
  then show "lp_openWindow (closed_window env l) = None" and "lp_commitWindow (closed_window env l) = lp_commitWindow l"
    and "lp_deferredHeals (closed_window env l) = lp_deferredHeals l"
    and "lp_attachTimer (closed_window env l) = lp_attachTimer l"
    and "same_worker (lp_w l) (lp_w (closed_window env l))" by auto
qed

section \<open>Resyncs and atomic writes\<close>

text \<open>Appending a write that is not a commit window keeps the invariant.\<close>

lemma built_resync:
  assumes "buildResyncPendingWrite env req w = (Inr pw, w')"
  shows "pw_Kind pw = PendingWriteResync" and "0 \<le> pw_ByteSize pw" and "pw_CommitRequest pw = None"
  using assms
  by (auto simp: buildResyncPendingWrite_def empty_write_def estimateDesiredSize_nonneg elim!: bind_io_InrE
      split: if_splits)

lemma built_atomic:
  assumes "buildAtomicPendingWrite env request w = (Inr pw, w')"
  shows "pw_Kind pw = PendingWriteAtomic" and "0 \<le> pw_ByteSize pw" and "pw_CommitRequest pw = None"
  using assms
  by (auto simp: buildAtomicPendingWrite_def empty_write_def estimateEventsSize_nonneg elim!: bind_io_InrE
      split: if_splits prod.splits)

lemma core_inv_append:
  assumes "core_inv l" and "pw_Kind pw \<noteq> PendingWriteCommit" and "0 \<le> pw_ByteSize pw"
    and "same_worker (lp_w l) bw"
  shows "core_inv (l\<lparr> lp_w := bw, lp_world := w, lp_pendingWrites := lp_pendingWrites l @ [pw],
    lp_pendingWritesBytes := lp_pendingWritesBytes l + pw_ByteSize pw \<rparr>)"
  using assms same_workerD(1) [OF assms(4)]
  by (simp add: core_inv_def writes_ok_snoc one_author_def)

lemma core_inv_worker:
  assumes "core_inv l" and "same_worker (lp_w l) bw"
  shows "core_inv (l\<lparr> lp_w := bw, lp_world := w \<rparr>)"
  using assms same_workerD(1) [OF assms(2)] by (simp add: core_inv_def)

text \<open>What pushes, replies and appended writes leave alone.\<close>

definition quiet_frame :: "'w branchWorkerEventLoop \<Rightarrow> 'w branchWorkerEventLoop \<Rightarrow> bool" where
  "quiet_frame l l' =
     (lp_openWindow l' = lp_openWindow l \<and> lp_windowBytes l' = lp_windowBytes l
      \<and> lp_commitTimer l' = lp_commitTimer l \<and> lp_commitWindow l' = lp_commitWindow l
      \<and> lp_deferredHeals l' = lp_deferredHeals l \<and> lp_attachTimer l' = lp_attachTimer l
      \<and> same_worker (lp_w l) (lp_w l'))"

lemma quiet_frame_refl [simp]: "quiet_frame l l"
  by (simp add: quiet_frame_def)

lemma quiet_frame_trans: "quiet_frame a b \<Longrightarrow> quiet_frame b c \<Longrightarrow> quiet_frame a c"
  by (auto simp: quiet_frame_def intro: same_worker_trans)

lemma quiet_maybeSchedulePush: "quiet_frame l (maybeSchedulePush env l)"
  by (simp add: quiet_frame_def maybeSchedulePush_frame)

lemma quiet_pushPending: "quiet_frame l (pushPending env l)"
  by (simp add: quiet_frame_def pushPending_frame pushPending_worker)

lemma reply_core [simp]: "core_inv (reply req r l) = core_inv l"
  by (simp add: reply_def)

lemma quiet_reply: "quiet_frame l l' \<Longrightarrow> quiet_frame l (reply req r l')"
  by (simp add: quiet_frame_def reply_def)

lemma quiet_worker:
  "same_worker (lp_w l) bw \<Longrightarrow> quiet_frame l (l\<lparr> lp_w := bw, lp_world := w \<rparr>)"
  by (simp add: quiet_frame_def)

lemma quiet_append:
  "same_worker (lp_w l) bw
   \<Longrightarrow> quiet_frame l (l\<lparr> lp_w := bw, lp_world := w, lp_pendingWrites := ps, lp_pendingWritesBytes := n \<rparr>)"
  by (simp add: quiet_frame_def)

lemma finish_resync_ok:
  assumes "core_inv l"
  shows "core_inv (finish_resync env req closed l) \<and> quiet_frame l (finish_resync env req closed l)"
proof -
  obtain r w where b: "buildResyncPendingWrite env req (lp_world l) = (r, w)"
    by (cases "buildResyncPendingWrite env req (lp_world l)")
  show ?thesis
  proof (cases r)
    case (Inl e)
    then show ?thesis using assms b by (simp add: finish_resync_def reply_def quiet_frame_def)
  next
    case (Inr pw)
    let ?pw = "pw\<lparr> pw_Committed := Some False \<rparr>"
    obtain err batch bw w2 where c: "commitPendingWrites env [?pw] (lp_pendingWrites l \<noteq> []) (lp_w l) w = (err, batch, bw, w2)"
      by (metis prod_cases4)
    have kept: "same_worker (lp_w l) bw" using commitPendingWrites_worker [OF c] by simp
    obtain q where q: "batch = [q]" "same_write ?pw q" using c by (rule commit_one)
    have kind: "pw_Kind q \<noteq> PendingWriteCommit" "0 \<le> pw_ByteSize q"
      using q(2) built_resync [OF b [unfolded Inr]] by (auto simp: same_write_def)
    let ?same = "l\<lparr> lp_w := bw, lp_world := w2 \<rparr>"
    let ?more = "l\<lparr> lp_w := bw, lp_world := w2, lp_pendingWrites := lp_pendingWrites l @ [q],
      lp_pendingWritesBytes := lp_pendingWritesBytes l + pw_ByteSize q \<rparr>"
    have "core_inv ?same" "core_inv ?more"
      using core_inv_worker [OF assms kept] core_inv_append [OF assms kind kept] by auto
    moreover have "quiet_frame l ?same" "quiet_frame l ?more"
      using kept by (simp_all add: quiet_worker quiet_append)
    moreover have "quiet_frame l (maybeSchedulePush env ?same)" "quiet_frame l (maybeSchedulePush env ?more)"
      using calculation quiet_maybeSchedulePush quiet_frame_trans by blast+
    ultimately show ?thesis
      using b Inr c q(1)
      by (cases err) (auto simp: finish_resync_def Let_def quiet_reply maybeSchedulePush_core)
  qed
qed

lemma applyResync_eq:
  "applyResync env req l =
     (if rq_Heal req then finish_resync env req False l
      else finish_resync env req (fst (finalizeOpenWindow env l)) (closed_window env l))"
  by (simp add: applyResync_def split: prod.splits)

lemma applyResync_core:
  assumes "core_inv l"
  shows "core_inv (applyResync env req l)"
  using finish_resync_ok [OF assms, of env req False]
    finish_resync_ok [OF closed_window_core [OF assms, of env], of env req "fst (finalizeOpenWindow env l)"]
  by (simp add: applyResync_eq)

lemma applyResync_heal_frame:
  assumes "core_inv l" and "rq_Heal req"
  shows "quiet_frame l (applyResync env req l)"
  using finish_resync_ok [OF assms(1)] assms(2) by (simp add: applyResync_def)

lemma applyResync_frame:
  assumes "core_inv l" and "lp_openWindow l = None \<or> \<not> rq_Heal req"
  shows "lp_openWindow (applyResync env req l) = None" and "lp_commitWindow (applyResync env req l) = lp_commitWindow l"
    and "lp_deferredHeals (applyResync env req l) = lp_deferredHeals l"
    and "lp_attachTimer (applyResync env req l) = lp_attachTimer l"
    and "same_worker (lp_w l) (lp_w (applyResync env req l))"
proof -
  let ?c = "closed_window env l"
  have a: "quiet_frame l (finish_resync env req False l)" using finish_resync_ok [OF assms(1)] by simp
  have b: "quiet_frame ?c (finish_resync env req closed ?c)" for closed
    using finish_resync_ok [OF closed_window_core [OF assms(1)]] by simp
  note fr = closed_window_frame [OF assms(1), of env]
  show "lp_openWindow (applyResync env req l) = None" and "lp_commitWindow (applyResync env req l) = lp_commitWindow l"
    and "lp_deferredHeals (applyResync env req l) = lp_deferredHeals l"
    and "lp_attachTimer (applyResync env req l) = lp_attachTimer l"
    and "same_worker (lp_w l) (lp_w (applyResync env req l))"
    using assms(2) a b [of "fst (finalizeOpenWindow env l)"] fr unfolding applyResync_eq quiet_frame_def
    by (auto intro: same_worker_trans)
qed

text \<open>An operation that ends with no window open.\<close>

definition idle :: "'w branchWorkerEventLoop \<Rightarrow> 'w branchWorkerEventLoop \<Rightarrow> bool" where
  "idle l l' =
     (core_inv l' \<and> lp_openWindow l' = None \<and> lp_commitWindow l' = lp_commitWindow l \<and> same_worker (lp_w l) (lp_w l'))"

lemma idle_trans: "idle a b \<Longrightarrow> idle b c \<Longrightarrow> idle a c"
  by (auto simp: idle_def intro: same_worker_trans)

lemma idleD: "idle a b \<Longrightarrow> core_inv b" "idle a b \<Longrightarrow> lp_openWindow b = None"
  by (simp_all add: idle_def)

lemma idle_closed_window: "core_inv l \<Longrightarrow> idle l (closed_window env l)"
  by (simp add: idle_def closed_window_core closed_window_frame)

lemma idle_quiet: "idle a b \<Longrightarrow> quiet_frame b c \<Longrightarrow> core_inv c \<Longrightarrow> idle a c"
  by (auto simp: idle_def quiet_frame_def intro: same_worker_trans)

lemma idle_push: "idle a b \<Longrightarrow> idle a (maybeSchedulePush env b)"
  by (rule idle_quiet [OF _ quiet_maybeSchedulePush]) (simp_all add: idleD maybeSchedulePush_core)

lemma idle_applyResync: "core_inv l \<Longrightarrow> lp_openWindow l = None \<Longrightarrow> idle l (applyResync env req l)"
  by (simp add: idle_def applyResync_core applyResync_frame)

lemma idle_heals:
  assumes "core_inv l" and "lp_openWindow l = None"
  shows "idle l (fold (applyResync env) reqs l)"
  using assms
proof (induction reqs arbitrary: l)
  case (Cons req reqs)
  have "idle l (applyResync env req l)" using Cons.prems by (rule idle_applyResync)
  then have "idle (applyResync env req l) (fold (applyResync env) reqs (applyResync env req l))"
    by (intro Cons.IH idleD)
  with \<open>idle l (applyResync env req l)\<close> show ?case by (simp add: idle_trans [of l])
qed (simp add: idle_def)

lemma idle_applyDeferredHeals:
  assumes "core_inv l" and "lp_openWindow l = None"
  shows "idle l (applyDeferredHeals env l)"
  using idle_heals [of "l\<lparr> lp_deferredHeals := [] \<rparr>" env "lp_deferredHeals l"] assms
  by (auto simp: applyDeferredHeals_def idle_def)

lemma applyDeferredHeals_open: "lp_openWindow l \<noteq> None \<Longrightarrow> applyDeferredHeals env l = l"
  by (simp add: applyDeferredHeals_def)

lemma idle_tight: "idle a b \<Longrightarrow> core_inv b \<and> tight b"
  by (simp add: idle_def tight_def)

lemma idle_atomic:
  assumes "core_inv l"
  shows "idle l (handleAtomicRequest env request l)"
proof -
  let ?l = "applyDeferredHeals env (closed_window env l)"
  have i: "idle l ?l"
    using idle_closed_window [OF assms] idle_applyDeferredHeals idle_trans idleD by metis
  then have core: "core_inv ?l" by (simp add: idle_def)
  obtain r w where b: "buildAtomicPendingWrite env request (lp_world ?l) = (r, w)"
    by (cases "buildAtomicPendingWrite env request (lp_world ?l)")
  show ?thesis
  proof (cases r)
    case (Inl e)
    then show ?thesis using i b by (simp add: handleAtomicRequest_def idle_def Let_def)
  next
    case (Inr pw)
    obtain err batch bw w2 where c: "commitPendingWrites env [pw] (lp_pendingWrites ?l \<noteq> []) (lp_w ?l) w = (err, batch, bw, w2)"
      by (metis prod_cases4)
    have kept: "same_worker (lp_w ?l) bw" using commitPendingWrites_worker [OF c] by simp
    note pw = built_atomic [OF b [unfolded Inr]]
    show ?thesis
    proof (cases err)
      case None
      let ?more = "?l\<lparr> lp_w := bw, lp_world := w2, lp_pendingWrites := lp_pendingWrites ?l @ [pw],
        lp_pendingWritesBytes := lp_pendingWritesBytes ?l + pw_ByteSize pw \<rparr>"
      have "core_inv ?more" using core_inv_append [OF core _ pw(2) kept] pw(1) by simp
      with idle_quiet [OF i quiet_append [OF kept]] have "idle l ?more" .
      then have "idle l (maybeSchedulePush env ?more)" by (rule idle_push)
      with None b Inr c show ?thesis by (simp add: handleAtomicRequest_def Let_def)
    next
      case (Some e)
      have "\<exists>w3. reportPathRefusal env e n ns (?l\<lparr> lp_w := bw, lp_world := w2 \<rparr>) = ?l\<lparr> lp_w := bw, lp_world := w3 \<rparr>" for n ns
        by (cases e) (auto simp: reportPathRefusal_def)
      moreover have "idle l (?l\<lparr> lp_w := bw, lp_world := w3 \<rparr>)" for w3
        using i core_inv_worker [OF core kept] quiet_worker [OF kept] by (blast intro: idle_quiet)
      ultimately show ?thesis
        using Some b Inr c by (simp add: handleAtomicRequest_def Let_def split: prod.splits) (metis)
    qed
  qed
qed

section \<open>Live events\<close>

lemma make_room_cases:
  assumes "core_inv l"
  obtains (kept) "make_room env e l = l" and "lp_openWindow l = None \<or> canAppend (lp_openWindow l) e"
  | (closed) "idle l (make_room env e l)"
proof (cases "lp_openWindow l \<noteq> None \<and> \<not> canAppend (lp_openWindow l) e")
  case True
  have "idle l (maybeSchedulePush env (closed_window env l))"
    using idle_closed_window [OF assms] by (rule idle_push)
  then have "idle l (applyDeferredHeals env (maybeSchedulePush env (closed_window env l)))"
    using idle_applyDeferredHeals idle_trans idleD by metis
  with True show thesis by (intro closed) (simp add: make_room_def)
next
  case False
  then show thesis by (intro kept) (auto simp: make_room_def)
qed

lemma append_event_core:
  assumes "core_inv l" and "lp_openWindow l = None \<or> canAppend (lp_openWindow l) e"
  shows "core_inv (append_event env e l)"
proof (cases "lp_openWindow l")
  case None
  have "window_wf (add (newOpenWindow e p) e)" for p
    by (intro window_wf_add window_wf_new canAppend_new)
  with None assms(1) show ?thesis
    by (auto simp: append_event_def core_inv_def window_ok_def newOpenWindow_def claims_ok_new)
next
  case (Some win)
  with assms have "window_wf (add win e)" by (auto intro: window_wf_add simp: core_inv_def window_ok_def)
  with Some assms(1) show ?thesis
    by (auto simp: append_event_def core_inv_def window_ok_def claims_ok_add)
qed

lemma append_event_frame [simp]:
  "lp_commitWindow (append_event env e l) = lp_commitWindow l" "lp_w (append_event env e l) = lp_w l"
  "lp_openWindow (append_event env e l) \<noteq> None"
  by (simp_all add: append_event_def Let_def)

text \<open>The invariant between turns, and the parameters that never change.\<close>

definition worker_inv :: "'w branchWorkerEventLoop \<Rightarrow> bool" where
  "worker_inv l = (core_inv l \<and> tight l)"

definition steady :: "'w branchWorkerEventLoop \<Rightarrow> 'w branchWorkerEventLoop \<Rightarrow> bool" where
  "steady l l' = (worker_inv l' \<and> lp_commitWindow l' = lp_commitWindow l
     \<and> bw_contentWriter (lp_w l') = bw_contentWriter (lp_w l)
     \<and> bw_branchBufferMaxBytes (lp_w l') = bw_branchBufferMaxBytes (lp_w l) \<and> bw_Branch (lp_w l') = bw_Branch (lp_w l))"

lemma steady_refl: "worker_inv l \<Longrightarrow> steady l l"
  by (simp add: steady_def)

lemma steady_trans: "steady a b \<Longrightarrow> steady b c \<Longrightarrow> steady a c"
  by (simp add: steady_def)

lemma steadyD: "steady a b \<Longrightarrow> worker_inv b" "worker_inv b \<Longrightarrow> core_inv b"
  by (simp_all add: steady_def worker_inv_def)

lemma idle_steady: "idle a b \<Longrightarrow> steady a b"
  by (auto simp: idle_def steady_def worker_inv_def tight_def same_worker_def)

text \<open>A quiet operation that does not raise the retained bytes keeps the tight bound.\<close>

lemma quiet_steady:
  assumes "worker_inv l" and "quiet_frame l l'" and "core_inv l'"
    and "lp_pendingWritesBytes l' \<le> lp_pendingWritesBytes l"
  shows "steady l l'"
  using assms by (auto simp: worker_inv_def tight_def steady_def quiet_frame_def same_worker_def totalRetainedBytes_def)

lemma steady_push: "worker_inv l \<Longrightarrow> steady l (maybeSchedulePush env l)"
  by (rule quiet_steady)
    (simp_all add: quiet_maybeSchedulePush maybeSchedulePush_core maybeSchedulePush_bytes worker_inv_def)

lemma steady_pushPending: "worker_inv l \<Longrightarrow> steady l (pushPending env l)"
  by (rule quiet_steady) (simp_all add: quiet_pushPending pushPending_core pushPending_bytes worker_inv_def)

lemma steady_heals: "worker_inv l \<Longrightarrow> steady l (applyDeferredHeals env l)"
  using idle_steady [OF idle_applyDeferredHeals, of l env] steady_refl [of l] applyDeferredHeals_open [of l env]
  by (cases "lp_openWindow l") (auto dest: steadyD(2))

lemma handle_event_steady:
  assumes "worker_inv l"
  shows "steady l (handle_event env e l)"
proof (cases "writes_allowed env l (ev_GitTargetName e) (ev_GitTargetNamespace e)")
  case False
  then show ?thesis using assms by (simp add: handle_event_def steady_refl)
next
  case True
  let ?m = "make_room env e l" and ?a = "append_event env e (make_room env e l)"
  have core: "core_inv l" using assms by (rule steadyD)
  have room: "core_inv ?m \<and> (lp_openWindow ?m = None \<or> canAppend (lp_openWindow ?m) e)
      \<and> lp_commitWindow ?m = lp_commitWindow l \<and> same_worker (lp_w l) (lp_w ?m)"
    using core by (rule make_room_cases [of l env e]) (auto simp: core idle_def)
  have a: "core_inv ?a" using room by (intro append_event_core) auto
  have fields: "lp_commitWindow ?a = lp_commitWindow l" "same_worker (lp_w l) (lp_w ?a)" using room by auto
  have close: "steady l (maybeSchedulePush env (closed_window env ?a))"
  proof -
    have "idle ?a (maybeSchedulePush env (closed_window env ?a))" using idle_closed_window [OF a] by (rule idle_push)
    then show ?thesis using idle_steady fields by (fastforce simp: steady_def same_worker_def)
  qed
  have keep: "steady l (resetCommitTimer env ?a)"
    if "\<not> bw_branchBufferMaxBytes (lp_w ?a) \<le> totalRetainedBytes ?a" and "lp_commitWindow ?a \<noteq> 0"
    using a fields that
    by (auto simp: resetCommitTimer_def read_clock_def steady_def worker_inv_def core_inv_def tight_def
        totalRetainedBytes_def same_worker_def split: prod.splits)
  show ?thesis
    unfolding handle_event_def Let_def using True close keep by (simp split: if_splits)
qed

section \<open>CommitRequests\<close>

lemma worker_inv_fields:
  assumes "worker_inv l" and "same_worker (lp_w l) (lp_w l')" and "lp_openWindow l' = lp_openWindow l"
    and "lp_windowBytes l' = lp_windowBytes l" and "lp_pendingWrites l' = lp_pendingWrites l"
    and "lp_pendingWritesBytes l' = lp_pendingWritesBytes l" and "lp_commitTimer l' = lp_commitTimer l"
    and "lp_commitWindow l' = lp_commitWindow l" and "claims_ok (lp_openWindow l) (lp_pendingCRs l')"
  shows "steady l l'"
  using assms by (auto simp: steady_def worker_inv_def core_inv_def tight_def totalRetainedBytes_def same_worker_def)

lemma steady_resolve: "worker_inv l \<Longrightarrow> steady l (resolveCommitRequest env cr r l)"
  by (rule worker_inv_fields) (simp_all add: worker_inv_def core_inv_def claims_ok_del)

lemma claims_ok_put:
  assumes "claims_ok win crs" and "pcr_id pcr = cr" and "\<not> pcr_attached pcr"
  shows "claims_ok win (map_put cr pcr crs)"
  using assms by (auto simp: claims_ok_def set_map_put)

lemma handleAttach_steady:
  assumes "worker_inv l"
  shows "steady l (handleAttachCommitRequest env req l)"
proof -
  obtain t w where now: "we_now env (lp_world l) = (t, w)" by (cases "we_now env (lp_world l)")
  let ?p = "\<lparr> pcr_id = attach_id req, pcr_author = ac_Author req, pcr_attribution = ac_Attribution req,
    pcr_gitTargetName = ac_GitTargetName req, pcr_gitTargetNamespace = ac_GitTargetNamespace req,
    pcr_message = ac_Message req, pcr_finalizeAt = t + ac_CloseDelaySeconds req * Second, pcr_attached = False \<rparr>"
  have "claims_ok (lp_openWindow l) (map_put (attach_id req) ?p (lp_pendingCRs l))"
    using assms by (intro claims_ok_put) (simp_all add: worker_inv_def core_inv_def)
  then have "steady l (l\<lparr> lp_world := w, lp_pendingCRs := map_put (attach_id req) ?p (lp_pendingCRs l) \<rparr>)"
    by (intro worker_inv_fields [OF assms]) simp_all
  then show ?thesis
    using steady_refl [OF assms] by (simp add: handleAttachCommitRequest_def read_clock_def now Let_def)
qed

lemma oldest_waiting_some:
  assumes "oldest_waiting win old crs = Some pcr"
  shows "old = Some pcr \<or> (\<exists>cr. (cr, pcr) \<in> set crs) \<and> \<not> pcr_attached pcr \<and> matchesWindow pcr win"
  using assms
proof (induction win old crs rule: oldest_waiting.induct)
  case (2 win oldest cr p crs)
  then show ?case by (auto split: if_splits option.splits)
qed simp

text \<open>Only an unclaimed window is attached, to a waiting request of its own author and target.\<close>

lemma attach_claims:
  assumes "claims_ok (Some win) crs" and "ow_pendingCR win = None"
    and "oldest_waiting win None crs = Some pcr"
  shows "claims_ok (Some (win\<lparr> ow_pendingMessage := pcr_message pcr, ow_pendingCR := Some (pcr_id pcr) \<rparr>))
     (map_put (pcr_id pcr) (pcr\<lparr> pcr_attached := True \<rparr>) crs)"
proof -
  from oldest_waiting_some [OF assms(3)] have m: "matchesWindow pcr win" by simp
  have none: "\<not> pcr_attached p" if "(c, p) \<in> set crs" for c p
    using assms(1,2) that by (auto simp: claims_ok_def carries_def)
  have ids: "pcr_id p = c" if "(c, p) \<in> set crs" for c p
    using assms(1) that by (auto simp: claims_ok_def)
  show ?thesis
    using m none ids claims_ok_wf [OF assms(1)]
    by (auto simp: claims_ok_def set_map_put carries_def matchesWindow_def)
qed

lemma window_wf_attach [simp]:
  "window_wf (win\<lparr> ow_pendingMessage := m, ow_pendingCR := c \<rparr>) = window_wf win"
  by (simp add: window_wf_def canAppend_def)

lemma attachWaiting_steady:
  assumes "worker_inv l"
  shows "steady l (attachWaitingCommitRequests l)"
proof (cases "lp_openWindow l")
  case None
  then show ?thesis using steady_refl [OF assms] by (simp add: attachWaitingCommitRequests_def)
next
  case (Some win)
  show ?thesis
  proof (cases "ow_pendingCR win = None \<and> oldest_waiting win None (lp_pendingCRs l) \<noteq> None")
    case True
    then obtain pcr where p: "oldest_waiting win None (lp_pendingCRs l) = Some pcr" by auto
    have "claims_ok (Some win) (lp_pendingCRs l)" using assms Some by (simp add: worker_inv_def core_inv_def)
    from attach_claims [OF this _ p] show ?thesis
      using assms Some True p
      by (auto simp: attachWaitingCommitRequests_def attachToOpenWindow_def steady_def worker_inv_def core_inv_def
          window_ok_def tight_def totalRetainedBytes_def)
  next
    case False
    then show ?thesis using Some steady_refl [OF assms] by (auto simp: attachWaitingCommitRequests_def split: option.splits)
  qed
qed

lemma process_due_steady:
  assumes "worker_inv l"
  shows "steady l (process_due env cr l)"
proof -
  let ?c = "maybeSchedulePush env (closed_window env l)"
  have "idle l ?c" using idle_push [OF idle_closed_window [OF steadyD(2) [OF assms]]] .
  then have c: "steady l ?c" by (rule idle_steady)
  have "steady ?c (resolveCommitRequest env cr r ?c)" for r using steadyD(1) [OF c] by (rule steady_resolve)
  with c have "steady l (resolveCommitRequest env cr r ?c)" for r using steady_trans by blast
  with c steady_refl [OF assms] steady_resolve [OF assms] show ?thesis
    by (simp add: process_due_def Let_def)
qed

lemma fold_steady:
  assumes "\<And>x l. worker_inv l \<Longrightarrow> steady l (f x l)" and "worker_inv l"
  shows "steady l (fold f xs l)"
  using assms(2)
proof (induction xs arbitrary: l)
  case (Cons x xs)
  have "steady l (f x l)" using assms(1) Cons.prems .
  with Cons.IH steady_trans steadyD(1) show ?case unfolding fold_simps by blast
qed (simp add: steady_refl)

lemma steady_world: "worker_inv l \<Longrightarrow> steady l (l\<lparr> lp_world := w \<rparr>)"
  by (simp add: steady_def worker_inv_def tight_def totalRetainedBytes_def)

lemma serviceCommitRequests_steady:
  assumes "worker_inv l"
  shows "steady l (serviceCommitRequests env l)"
proof -
  let ?a = "attachWaitingCommitRequests l"
  obtain t w where now: "we_now env (lp_world ?a) = (t, w)" by (cases "we_now env (lp_world ?a)")
  have a: "steady l ?a" using assms by (rule attachWaiting_steady)
  have b: "steady ?a (?a\<lparr> lp_world := w \<rparr>)" using steadyD(1) [OF a] by (rule steady_world)
  let ?p = "processDueCommitRequests env ?a"
  have "steady (?a\<lparr> lp_world := w \<rparr>) ?p"
    using fold_steady [OF process_due_steady steadyD(1) [OF b]]
    by (simp add: processDueCommitRequests_def read_clock_def now)
  with a b have p: "steady l ?p" using steady_trans by blast
  have "steady ?p (rearmAttachTimer env ?p)"
    using steadyD(1) [OF p]
    by (simp add: rearmAttachTimer_def stopAttachTimer_def read_clock_def Let_def steady_def worker_inv_def
        core_inv_def tight_def totalRetainedBytes_def split: prod.splits)
  with p have "steady l (rearmAttachTimer env ?p)" using steady_trans by blast
  moreover have "steady l (stopAttachTimer l)"
    using assms by (simp add: stopAttachTimer_def steady_def worker_inv_def tight_def totalRetainedBytes_def)
  ultimately show ?thesis by (simp add: serviceCommitRequests_def)
qed

section \<open>Turns and runs\<close>

lemma handleResync_steady:
  assumes "worker_inv l"
  shows "steady l (handleResyncRequest gs env req l)"
proof (cases "rq_Heal req \<and> lp_openWindow l \<noteq> None")
  case True
  then show ?thesis
    using assms by (simp add: handleResyncRequest_def stashDeferredHeal_def steady_def worker_inv_def core_inv_def
        tight_def totalRetainedBytes_def split: prod.splits)
next
  case False
  then have "idle l (applyResync env req l)"
    using steadyD(2) [OF assms] by (auto simp: idle_def applyResync_core applyResync_frame)
  with False show ?thesis by (auto simp: handleResyncRequest_def idle_steady)
qed

lemma handleQueueItem_steady:
  assumes "worker_inv l"
  shows "steady l (handleQueueItem gs env item l)"
proof (cases item)
  case (ItemRequest request)
  then show ?thesis
    using assms steady_refl [OF assms] idle_steady [OF idle_atomic [OF steadyD(2) [OF assms]]]
      fold_steady [of "handle_event env" l "wr_Events request", OF handle_event_steady assms]
    by (simp add: handleQueueItem_def split: prod.splits)
qed (simp_all add: handleQueueItem_def handleAttach_steady handleResync_steady assms)

lemma wake_up_steady:
  assumes "worker_inv l" and "enabled wk l"
  shows "worker_inv (wake_up gs env wk l)"
proof (cases wk)
  case WakeItem
  then obtain item items where q: "bw_eventQueue (lp_w l) = item # items"
    using assms(2) by (cases "bw_eventQueue (lp_w l)") auto
  let ?l = "l\<lparr> lp_w := (lp_w l)\<lparr> bw_eventQueue := items \<rparr> \<rparr>"
  have "worker_inv ?l" using assms(1) by (simp add: worker_inv_def core_inv_def tight_def totalRetainedBytes_def)
  then have "worker_inv (handleQueueItem gs env item ?l)" using handleQueueItem_steady steadyD(1) by blast
  with WakeItem q show ?thesis
    by (simp add: add_inflight_def worker_inv_def core_inv_def tight_def totalRetainedBytes_def)
next
  case WakeCommit
  have "core_inv (l\<lparr> lp_commitTimer := None \<rparr>)" using assms(1) by (simp add: worker_inv_def)
  from steadyD(1) [OF idle_steady [OF idle_push [OF idle_closed_window [OF this]]]] WakeCommit show ?thesis
    by simp
next
  case WakePush
  have "worker_inv (l\<lparr> lp_pushTimer := None \<rparr>)"
    using assms(1) by (simp add: worker_inv_def tight_def totalRetainedBytes_def)
  from steadyD(1) [OF steady_pushPending [OF this]] WakePush show ?thesis by simp
next
  case WakeAttach
  then show ?thesis using assms(1) by (simp add: worker_inv_def tight_def totalRetainedBytes_def)
qed

lemma loop_turn_inv:
  assumes "worker_inv l" and "enabled wk l"
  shows "worker_inv (loop_turn gs env wk l)"
proof -
  have "worker_inv (applyDeferredHeals env (serviceCommitRequests env (wake_up gs env wk l)))"
    using wake_up_steady [OF assms] serviceCommitRequests_steady steady_heals steadyD(1) by blast
  then show ?thesis
    by (simp add: loop_turn_def syncQueueDepthMetric_def worker_inv_def core_inv_def tight_def totalRetainedBytes_def)
qed

lemma worker_step_inv: "worker_inv l \<Longrightarrow> worker_inv (worker_step gs env op l)"
proof (cases op)
  case (OpEnqueue item)
  then show "worker_inv l \<Longrightarrow> ?thesis"
    by (cases item) (auto simp: enqueue_item_def EnqueueResync_def worker_inv_def core_inv_def tight_def
        totalRetainedBytes_def)
next
  case (OpTurn wk)
  then show "worker_inv l \<Longrightarrow> ?thesis" by (simp add: loop_turn_inv)
qed (simp add: worker_inv_def tight_def totalRetainedBytes_def)

lemma worker_inv_start: "worker_inv (newBranchWorkerEventLoop bw cw w)"
  by (simp add: newBranchWorkerEventLoop_def worker_inv_def core_inv_def tight_def window_ok_def claims_ok_def)

interpretation wk: state_machine "\<lambda>l op. worker_step gs env op l" worker_inv "newBranchWorkerEventLoop bw cw w"
  for gs env bw cw w
  by unfold_locales (simp_all add: worker_inv_start worker_step_inv)

definition worker_run ::
  "(GroupVersionResource \<Rightarrow> string) \<Rightarrow> 'w worker_env \<Rightarrow> BranchWorker \<Rightarrow> duration \<Rightarrow> 'w \<Rightarrow> 'w worker_op list
     \<Rightarrow> 'w branchWorkerEventLoop" where
  "worker_run gs env bw cw w ops = foldl (\<lambda>l op. worker_step gs env op l) (newBranchWorkerEventLoop bw cw w) ops"

lemma worker_run_inv: "worker_inv (worker_run gs env bw cw w ops)"
  unfolding worker_run_def by (rule wk.inv_run)

end
