(* ===== verification/Worker_Properties.thy ===== *)
theory Worker_Properties
  imports Worker_Invariant
begin

text \<open>
  What the event loop of a branch worker guarantees in every run, for every behaviour of the API server,
  the repository, the remote, the clock and the fidelity gate, and two places where it does not do what
  its comments say.
\<close>

section \<open>Authors, bounds and claims in every run\<close>



text \<open>
  C22: nobody finalizes somebody else's window. In every run, a CommitRequest that is attached is attached
  to the window that is open now, that window was opened by the author of the request for the target of
  the request, and the message it will commit with is the message of the request.
\<close>

theorem request_rides_own_window:
  assumes "l = worker_run gs env bw cw w ops" and "map_get (lp_pendingCRs l) cr = Some pcr" and "pcr_attached pcr"
  shows "\<exists>win. lp_openWindow l = Some win \<and> ow_pendingCR win = Some cr \<and> ow_pendingMessage win = pcr_message pcr
     \<and> ow_Author win = pcr_author pcr \<and> ow_GitTarget win = pcr_gitTargetName pcr
     \<and> ow_GitTargetNamespace win = pcr_gitTargetNamespace pcr
     \<and> NamesActor (ow_Attribution win) = NamesActor (pcr_attribution pcr)"
proof -
  have "claims_ok (lp_openWindow l) (lp_pendingCRs l)"
    using worker_run_inv [of gs env bw cw w ops] assms(1) by (simp add: worker_inv_def core_inv_def)
  with assms(2,3) have "carries (lp_openWindow l) cr pcr"
    by (auto simp: claims_ok_def dest: map_of_SomeD)
  then show ?thesis by (auto simp: carries_def matchesWindow_def split: option.splits)
qed

section \<open>Heals\<close>

lemma stash_heal_keys:
  "stash_heal gs req heals = (heals', old) \<Longrightarrow>
     req \<in> set heals' \<and> (distinct (map (resyncHealKey gs) heals) \<longrightarrow> distinct (map (resyncHealKey gs) heals'))
     \<and> resyncHealKey gs ` set heals' = insert (resyncHealKey gs req) (resyncHealKey gs ` set heals)"
proof (induction heals arbitrary: heals' old)
  case (Cons h heals)
  show ?case
  proof (cases "resyncHealKey gs h = resyncHealKey gs req")
    case True
    with Cons.prems show ?thesis by auto
  next
    case False
    obtain hs o' where s: "stash_heal gs req heals = (hs, o')" by (cases "stash_heal gs req heals")
    with Cons.prems False have "heals' = h # hs" by simp
    with Cons.IH [OF s] False show ?thesis by (auto simp: image_iff)
  qed
qed auto

text \<open>
  C24: a heal never closes a window. A heal resync that arrives while a commit window is open is parked and
  changes nothing else: not the window, its timer, the parked CommitRequests, the retained writes or the
  repository. At most one heal per target and scope is parked, and parked heals wait as long as the window
  is open.
\<close>

theorem heal_never_closes_window:
  assumes "rq_Heal req" and "lp_openWindow l = Some win"
    and "distinct (map (resyncHealKey gs) (lp_deferredHeals l))"
  shows "\<exists>heals replies. handleResyncRequest gs env req l = l\<lparr> lp_deferredHeals := heals, lp_replies := replies \<rparr>
     \<and> req \<in> set heals \<and> distinct (map (resyncHealKey gs) heals)
     \<and> applyDeferredHeals env (handleResyncRequest gs env req l) = handleResyncRequest gs env req l"
proof -
  obtain heals old where s: "stash_heal gs req (lp_deferredHeals l) = (heals, old)"
    by (cases "stash_heal gs req (lp_deferredHeals l)")
  with stash_heal_keys [OF s] assms show ?thesis
    by (auto simp: handleResyncRequest_def stashDeferredHeal_def applyDeferredHeals_def)
qed

section \<open>Outcomes\<close>

text \<open>The entries an operation adds to the outcome table.\<close>

definition new_outcome :: "BranchWorker \<Rightarrow> BranchWorker \<Rightarrow> commitRequestID \<Rightarrow> FinalizeResult \<Rightarrow> bool" where
  "new_outcome a b cr r =
     (\<exists>t. map_get (bw_crOutcomes b) cr = Some \<lparr> oe_result = r, oe_resolvedAt = t \<rparr>
        \<and> map_get (bw_crOutcomes a) cr \<noteq> Some \<lparr> oe_result = r, oe_resolvedAt = t \<rparr>)"

lemma map_of_filter_put:
  assumes "map_of (filter P (map_put k v m)) x = Some y" and "map_wf m"
  shows "x = k \<and> y = v \<or> x \<noteq> k \<and> map_of m x = Some y"
proof -
  have "(x, y) \<in> set (map_put k v m)" using map_of_SomeD [OF assms(1)] by simp
  then show ?thesis using assms(2) by (auto simp: set_map_put)
qed

lemma resolveCommitRequest_outcome:
  obtains t where "bw_crOutcomes (lp_w (resolveCommitRequest env cr r l)) =
    record_outcome t cr (if fr_Branch r = [] then r\<lparr> fr_Branch := bw_Branch (lp_w l) \<rparr> else r) (bw_crOutcomes (lp_w l))"
proof -
  obtain t w where "we_now env (lp_world l) = (t, w)" by (cases "we_now env (lp_world l)")
  then show thesis
    by (intro that [of t])
      (simp add: resolveCommitRequest_def recordCommitRequestOutcome_def read_clock_def Let_def)
qed

lemma map_wf_filter: "map_wf m \<Longrightarrow> map_wf (filter P m)"
  by (simp add: distinct_map_filter)

lemma record_outcome_wf: "map_wf m \<Longrightarrow> map_wf (record_outcome t cr r m)"
  by (simp add: record_outcome_def map_wf_filter)

lemma record_outcome_get:
  assumes "map_get (record_outcome t cr r m) c = Some en" and "map_wf m"
  shows "c = cr \<and> oe_result en = r \<or> c \<noteq> cr \<and> map_get m c = Some en"
  using map_of_filter_put [OF assms(1) [unfolded record_outcome_def] assms(2)] by auto


lemma resolve_new:
  assumes "map_wf (bw_crOutcomes (lp_w l))" and "map_get (bw_crOutcomes (lp_w (resolveCommitRequest env cr r l))) c = Some en"
  shows "map_get (bw_crOutcomes (lp_w l)) c = Some en
     \<or> c = cr \<and> oe_result en = (if fr_Branch r = [] then r\<lparr> fr_Branch := bw_Branch (lp_w l) \<rparr> else r)"
proof -
  obtain t where t: "bw_crOutcomes (lp_w (resolveCommitRequest env cr r l)) =
      record_outcome t cr (if fr_Branch r = [] then r\<lparr> fr_Branch := bw_Branch (lp_w l) \<rparr> else r) (bw_crOutcomes (lp_w l))"
    by (rule resolveCommitRequest_outcome)
  from record_outcome_get [OF assms(2) [unfolded t] assms(1)] show ?thesis by blast
qed

lemma resolve_wf:
  "map_wf (bw_crOutcomes (lp_w l)) \<Longrightarrow> map_wf (bw_crOutcomes (lp_w (resolveCommitRequest env cr r l)))"
  by (rule resolveCommitRequest_outcome [of env cr r l]) (simp add: record_outcome_wf)

text \<open>A push reports exactly requests that ride a pushed write, with the hash of that write.\<close>

lemma resolve_pushed_new:
  assumes "map_wf (bw_crOutcomes (lp_w l))" and "map_get (bw_crOutcomes (lp_w (resolve_pushed env ps l))) c = Some en"
  shows "map_get (bw_crOutcomes (lp_w l)) c = Some en
     \<or> (\<exists>pw \<in> set ps. pw_CommitRequest pw = Some c \<and> pw_CommitSHA pw \<noteq> []
          \<and> oe_result en = outcome FinalizeCommitted (pw_CommitSHA pw) (bw_Branch (lp_w l)))"
  using assms
proof (induction env ps l rule: resolve_pushed.induct)
  case (2 env pw pws l)
  show ?case
  proof (cases "pw_CommitRequest pw = None \<or> pw_CommitSHA pw = []")
    case True
    then have "resolve_pushed env (pw # pws) l = resolve_pushed env pws l" by (auto split: option.splits)
    with True 2 show ?thesis by (auto split: option.splits)
  next
    case False
    then obtain cr where cr: "pw_CommitRequest pw = Some cr" "pw_CommitSHA pw \<noteq> []" by auto
    let ?r = "outcome FinalizeCommitted (pw_CommitSHA pw) (bw_Branch (lp_w l))"
    let ?l = "resolveCommitRequest env cr ?r l"
    have step: "resolve_pushed env (pw # pws) l = resolve_pushed env pws ?l" using cr by simp
    have br: "bw_Branch (lp_w ?l) = bw_Branch (lp_w l)"
      using resolveCommitRequest_frame(13) [of l env cr ?r] by (simp add: same_worker_def)
    have fix_branch: "(if fr_Branch ?r = [] then ?r\<lparr> fr_Branch := bw_Branch (lp_w l) \<rparr> else ?r) = ?r"
      by (simp add: outcome_def)
    have "map_get (bw_crOutcomes (lp_w ?l)) c = Some en
        \<or> (\<exists>pw \<in> set pws. pw_CommitRequest pw = Some c \<and> pw_CommitSHA pw \<noteq> []
            \<and> oe_result en = outcome FinalizeCommitted (pw_CommitSHA pw) (bw_Branch (lp_w l)))"
      using "2.IH" "2.prems" resolve_wf [of l env cr ?r] cr step br by simp
    then show ?thesis
      using resolve_new [OF "2.prems"(1), of env cr ?r c en] cr fix_branch by fastforce
  qed
qed simp

lemma pushPending_new:
  assumes "map_wf (bw_crOutcomes (lp_w l))" and "new_outcome (lp_w l) (lp_w (pushPending env l)) cr r"
  shows "\<exists>ps bw w pw. pushPendingCommits env (lp_pendingWrites l) (lp_w l) (lp_world l) = (None, ps, bw, w)
     \<and> pw \<in> set ps \<and> pw_CommitRequest pw = Some cr \<and> pw_CommitSHA pw \<noteq> []
     \<and> r = outcome FinalizeCommitted (pw_CommitSHA pw) (bw_Branch (lp_w l))"
proof -
  obtain err ps bw w where p: "pushPendingCommits env (lp_pendingWrites l) (lp_w l) (lp_world l) = (err, ps, bw, w)"
    by (metis prod_cases4)
  have kept: "bw_crOutcomes bw = bw_crOutcomes (lp_w l)" "bw_Branch bw = bw_Branch (lp_w l)"
    using pushPendingCommits_worker [OF p] by (simp_all add: same_worker_def)
  let ?l = "l\<lparr> lp_pendingWrites := ps, lp_w := bw, lp_world := w \<rparr>"
  have ne: "lp_pendingWrites l \<noteq> [] \<and> err = None"
    using assms(2) kept p
    by (cases err) (auto simp: pushPending_def stopPushTimer_def new_outcome_def Let_def split: if_splits)
  then have "lp_w (pushPending env l) = lp_w (resolve_pushed env ps ?l)"
    using p by (simp add: pushPending_def stopPushTimer_def resolvePushedCommitRequests_def read_clock_def Let_def
        split: prod.splits)
  then obtain t where g: "map_get (bw_crOutcomes (lp_w (resolve_pushed env ps ?l))) cr = Some \<lparr> oe_result = r, oe_resolvedAt = t \<rparr>"
      and o: "map_get (bw_crOutcomes (lp_w l)) cr \<noteq> Some \<lparr> oe_result = r, oe_resolvedAt = t \<rparr>"
    using assms(2) by (auto simp: new_outcome_def)
  have "map_wf (bw_crOutcomes (lp_w ?l))" using assms(1) kept by simp
  from resolve_pushed_new [OF this g] o kept ne p show ?thesis by fastforce
qed

lemma closed_window_new:
  assumes "map_wf (bw_crOutcomes (lp_w l))" and "core_inv l" and "new_outcome (lp_w l) (lp_w (closed_window env l)) cr r"
  shows "fr_Outcome r \<noteq> Some FinalizeCommitted"
proof (cases "lp_openWindow l")
  case None
  with assms(3) show ?thesis by (auto simp: closed_window_none new_outcome_def)
next
  case (Some win)
  with assms(2) have "window_wf win" by (simp add: core_inv_def window_ok_def)
  have fin: "fr_Outcome r \<noteq> Some FinalizeCommitted"
    if "new_outcome (lp_w l) (lp_w (resolveCommitRequest env c x k)) cr r"
      and "bw_crOutcomes (lp_w k) = bw_crOutcomes (lp_w l)" and "fr_Outcome x \<noteq> Some FinalizeCommitted" for k c x
    using that resolve_new [of k env c x cr] assms(1) by (fastforce simp: new_outcome_def split: if_splits)
  have same: "\<not> new_outcome (lp_w l) bw cr r" if "bw_crOutcomes bw = bw_crOutcomes (lp_w l)" for bw
    using that by (simp add: new_outcome_def)
  from finalizeOpenWindow_cases [OF Some \<open>window_wf win\<close>, of env] show ?thesis
  proof cases
    case (1 cause bw w)
    with assms(3) have "new_outcome (lp_w l) (lp_w (dropOpenWindow env (ow_pendingCR win) cause (closing l bw w))) cr r" by simp
    with 1 same [of bw] show ?thesis
      by (cases "ow_pendingCR win") (auto simp: dropOpenWindow_def Let_def dest!: fin)
  next
    case (2 pw bw w)
    with assms(3) have "new_outcome (lp_w l) (lp_w (retain_window env (ow_pendingCR win) pw (closing l bw w))) cr r" by simp
    with 2 same [of bw] show ?thesis
      by (cases "ow_pendingCR win") (auto simp: retain_window_def Let_def outcome_def split: if_splits dest!: fin)
  qed
qed

text \<open>
  C23: committed means on the remote. Closing a window never reports a CommitRequest as committed; a push
  reports one only when it succeeded, and then the request rode one of the pushed writes and the reported
  hash is the hash of that very write, as the last replay left it.
\<close>

theorem committed_means_pushed:
  assumes "map_wf (bw_crOutcomes (lp_w l))" and "core_inv l"
  shows "(new_outcome (lp_w l) (lp_w (closed_window env l)) cr r \<longrightarrow> fr_Outcome r \<noteq> Some FinalizeCommitted)
     \<and> (new_outcome (lp_w l) (lp_w (pushPending env l)) cr r \<longrightarrow>
          (\<exists>ps bw w pw. pushPendingCommits env (lp_pendingWrites l) (lp_w l) (lp_world l) = (None, ps, bw, w)
             \<and> pw \<in> set ps \<and> pw_CommitRequest pw = Some cr \<and> pw_CommitSHA pw \<noteq> []
             \<and> r = outcome FinalizeCommitted (pw_CommitSHA pw) (bw_Branch (lp_w l))))"
  using closed_window_new [OF assms] pushPending_new [OF assms(1)] by blast

section \<open>A push that fails\<close>

text \<open>
  C30: a failed push keeps everything and reports nothing. The retained writes are the same writes (their
  hashes and deletion policies may be those of the replay), no CommitRequest is resolved, the cooldown does
  not move - and no timer is armed: if nothing else is pending the loop sleeps, with the writes retained,
  until another queue item arrives.
\<close>

theorem failed_push_waits_for_traffic:
  assumes "pushPendingCommits env (lp_pendingWrites l) (lp_w l) (lp_world l) = (Some e, ps, bw, w)"
    and "lp_pendingWrites l \<noteq> []" and "lp_openWindow l = None" and "lp_commitTimer l = None"
    and "lp_pendingCRs l = []" and "lp_deferredHeals l = []" and "bw_eventQueue (lp_w l) = []"
  shows "list_all2 same_write (lp_pendingWrites l) (lp_pendingWrites (loop_turn gs env WakePush l))
     \<and> bw_crOutcomes (lp_w (loop_turn gs env WakePush l)) = bw_crOutcomes (lp_w l)
     \<and> lp_lastPushAt (loop_turn gs env WakePush l) = lp_lastPushAt l
     \<and> (\<forall>wk. \<not> enabled wk (loop_turn gs env WakePush l))"
proof -
  let ?l = "l\<lparr> lp_pushTimer := None, lp_pendingWrites := ps, lp_w := bw, lp_world := w \<rparr>"
  have push: "pushPending env (l\<lparr> lp_pushTimer := None \<rparr>) = ?l"
    using assms by (simp add: pushPending_def stopPushTimer_def)
  have "loop_turn gs env WakePush l = syncQueueDepthMetric (?l\<lparr> lp_attachTimer := None \<rparr>)"
    using assms push
    by (simp add: loop_turn_def serviceCommitRequests_def stopAttachTimer_def applyDeferredHeals_def)
  moreover have "bw_eventQueue bw = [] \<and> bw_crOutcomes bw = bw_crOutcomes (lp_w l)"
    using pushPendingCommits_worker [OF assms(1)] assms(7) by (simp add: same_worker_def)
  moreover have "\<not> enabled wk (syncQueueDepthMetric (?l\<lparr> lp_attachTimer := None \<rparr>))" for wk
    using calculation assms by (cases wk) (simp_all add: syncQueueDepthMetric_def)
  ultimately show ?thesis
    using pushPendingCommits_same [OF assms(1)] by (simp add: syncQueueDepthMetric_def)
qed

section \<open>A request that is sent again while its commit waits for the push\<close>


section \<open>A window closed for a resync that fails\<close>



section \<open>A concrete worker\<close>

definition ex_gvr_string :: "GroupVersionResource \<Rightarrow> string" where
  "ex_gvr_string r = gvr_Resource r @ ''.'' @ gvr_Version r @ ''.'' @ gvr_Group r"

definition ex_worker :: BranchWorker where
  "ex_worker = NewBranchWorker ''git'' ''tenant'' ''main'' (Some ex_policy) 1000"

definition ex_item :: "string \<Rightarrow> string \<Rightarrow> WorkItem" where
  "ex_item user name = ItemRequest \<lparr> wr_Events = [ex_event user name ''UPDATE''], wr_CommitMessage = [],
     wr_GitTargetName = [], wr_GitTargetNamespace = [], wr_CommitMode = CommitModePerEvent \<rparr>"

definition ex_attach :: "int \<Rightarrow> AttachCommitRequest" where
  "ex_attach delay = \<lparr> ac_Namespace = ''tenant'', ac_Name = ''save'', ac_UID = ''1'', ac_Author = ''alice'',
     ac_Attribution = AttributionResolved, ac_GitTargetName = ''target'', ac_GitTargetNamespace = ''tenant'',
     ac_Message = ''my change'', ac_CloseDelaySeconds = delay \<rparr>"

definition ex_run :: "nat \<Rightarrow> ex_world worker_op list \<Rightarrow> ex_world branchWorkerEventLoop" where
  "ex_run failures ops = worker_run ex_gvr_string ex_env ex_worker (5 * Second) (ex_start failures) ops"

text \<open>Alice edits, then asks to save in ten seconds: her request rides her open window.\<close>

definition ex_open :: "ex_world branchWorkerEventLoop" where
  "ex_open = ex_run 1 [OpEnqueue (ex_item ''alice'' ''a''), OpTurn WakeItem,
     OpEnqueue (ItemAttach (ex_attach 10)), OpTurn WakeItem]"


text \<open>Alice's commit waits for its push, with her request riding it.\<close>

definition ex_waiting :: "ex_world branchWorkerEventLoop" where
  "ex_waiting = ex_run 1 [OpEnqueue (ex_item ''alice'' ''a''), OpTurn WakeItem,
     OpEnqueue (ItemAttach (ex_attach 0)), OpTurn WakeItem]"

text \<open>Alice's commit waits for its push and nothing else is going on.\<close>

definition ex_idle :: "ex_world branchWorkerEventLoop" where
  "ex_idle = ex_run 2 [OpEnqueue (ex_item ''alice'' ''a''), OpTurn WakeItem, OpTurn WakeCommit]"

text \<open>What the examples rely on, in one evaluation of each run: the author of the open window, the
  commits waiting for their push, the sizes of the request and outcome tables, of the deferred
  heals and of the queue, the timers, and the branch.\<close>

definition snapshot :: "'w branchWorkerEventLoop \<Rightarrow> _" where
  "snapshot l = (map_option ow_Author (lp_openWindow l),
     map (\<lambda>pw. (pw_CommitSHA pw, pw_CommitMessage pw, pw_CommitRequest pw)) (lp_pendingWrites l),
     (length (lp_pendingCRs l), length (bw_crOutcomes (lp_w l)), length (lp_deferredHeals l),
      length (bw_eventQueue (lp_w l))),
     lp_commitTimer l = None, lp_pushTimer l = None, bw_Branch (lp_w l), bw_branchBufferMaxBytes (lp_w l))"

lemma snapshot_open: "snapshot ex_open = (Some ''alice'', [], (1, 0, 0, 0), False, True, ''main'', 1000)"
  by code_simp

lemma snapshot_waiting:
  "snapshot ex_waiting =
     (None, [(''c1'', ''my change'', Some (attach_id (ex_attach 0)))], (0, 0, 0, 0), True, True, ''main'', 1000)"
  by code_simp

lemma snapshot_idle:
  "map (\<lambda>(_, ws, sizes, ct, _). (map fst ws, sizes, ct)) [snapshot ex_idle] = [([''c1''], (0, 0, 0, 0), True)]
   \<and> fst (snapshot ex_idle) = None"
  by code_simp

lemmas ex_facts = snapshot_open [unfolded snapshot_def] snapshot_waiting [unfolded snapshot_def]
  snapshot_idle [unfolded snapshot_def]



theorem request_rides_own_window_witness:
  "case lp_openWindow ex_open of
     None \<Rightarrow> False
   | Some win \<Rightarrow> ow_Author win = ''alice'' \<and> ow_pendingMessage win = ''my change''"
proof -
  have "(case map_get (lp_pendingCRs ex_open) (attach_id (ex_attach 10)) of
      Some pcr \<Rightarrow> pcr_attached pcr \<and> pcr_author pcr = ''alice'' \<and> pcr_message pcr = ''my change'' | None \<Rightarrow> False)"
    by code_simp
  then obtain pcr where pcr: "map_get (lp_pendingCRs ex_open) (attach_id (ex_attach 10)) = Some pcr"
      "pcr_attached pcr" "pcr_author pcr = ''alice''" "pcr_message pcr = ''my change''"
    by (auto split: option.splits)
  from request_rides_own_window [OF ex_open_def [unfolded ex_run_def] pcr(1,2)] pcr(3,4) show ?thesis by auto
qed

definition ex_heal :: "string \<Rightarrow> bool \<Rightarrow> ResyncRequest" where
  "ex_heal target heal = \<lparr> rq_Desired = [], rq_Revision = ''7'', rq_GitTargetName = target,
     rq_GitTargetNamespace = ''tenant'', rq_Scope = None, rq_Heal = heal, rq_Result = Some 1 \<rparr>"

theorem heal_never_closes_window_witness:
  "lp_openWindow (handleResyncRequest ex_gvr_string ex_env (ex_heal ''target'' True) ex_open) = lp_openWindow ex_open
   \<and> lp_openWindow ex_open \<noteq> None"
proof -
  obtain win where win: "lp_openWindow ex_open = Some win" using ex_facts by auto
  have "distinct (map (resyncHealKey ex_gvr_string) (lp_deferredHeals ex_open))" using ex_facts by simp
  from heal_never_closes_window [of "ex_heal ''target'' True", OF _ win this, of ex_env] win show ?thesis
    by (auto simp: ex_heal_def)
qed

theorem committed_means_pushed_witness:
  "LookupCommitRequestOutcome ''tenant'' ''save'' ''1'' (lp_w ex_waiting) = None
   \<and> LookupCommitRequestOutcome ''tenant'' ''save'' ''1'' (lp_w (pushPending ex_env ex_waiting))
     = Some (outcome FinalizeCommitted ''c1'' ''main'')
   \<and> (\<exists>ps bw w pw. pushPendingCommits ex_env (lp_pendingWrites ex_waiting) (lp_w ex_waiting) (lp_world ex_waiting)
        = (None, ps, bw, w) \<and> pw \<in> set ps \<and> pw_CommitSHA pw = ''c1'')"
proof -
  let ?cr = "attach_id (ex_attach 0)" and ?r = "outcome FinalizeCommitted ''c1'' ''main''"
  have inv: "core_inv ex_waiting"
    using worker_run_inv [of ex_gvr_string ex_env ex_worker "5 * Second" "ex_start 1"]
    unfolding ex_waiting_def ex_run_def worker_inv_def by blast
  have none: "bw_crOutcomes (lp_w ex_waiting) = []" using ex_facts by simp
  then have wf: "map_wf (bw_crOutcomes (lp_w ex_waiting))"
    and before: "map_get (bw_crOutcomes (lp_w ex_waiting)) ?cr = None" by simp_all
  have after: "map_option oe_result (map_get (bw_crOutcomes (lp_w (pushPending ex_env ex_waiting))) ?cr) = Some ?r"
    by code_simp
  then obtain en where "map_get (bw_crOutcomes (lp_w (pushPending ex_env ex_waiting))) ?cr = Some en" "oe_result en = ?r"
    by auto
  then have "new_outcome (lp_w ex_waiting) (lp_w (pushPending ex_env ex_waiting)) ?cr ?r"
    unfolding new_outcome_def before by (intro exI [of _ "oe_resolvedAt en"]) simp
  with committed_means_pushed [OF wf inv, of ex_env ?cr ?r]
  have "\<exists>ps bw w pw. pushPendingCommits ex_env (lp_pendingWrites ex_waiting) (lp_w ex_waiting) (lp_world ex_waiting)
        = (None, ps, bw, w) \<and> pw \<in> set ps \<and> pw_CommitSHA pw = ''c1''"
    by (auto simp: outcome_def)
  moreover have "LookupCommitRequestOutcome ''tenant'' ''save'' ''1'' (lp_w ex_waiting) = None"
    using before by (simp add: LookupCommitRequestOutcome_def attach_id_def ex_attach_def)
  moreover have "LookupCommitRequestOutcome ''tenant'' ''save'' ''1'' (lp_w (pushPending ex_env ex_waiting)) = Some ?r"
    using after by (simp add: LookupCommitRequestOutcome_def attach_id_def ex_attach_def)
  ultimately show ?thesis by blast
qed


theorem failed_push_waits_for_traffic_witness:
  "map pw_CommitSHA (lp_pendingWrites (loop_turn ex_gvr_string ex_env WakePush ex_idle)) = [''c1'']
   \<and> \<not> enabled WakePush (loop_turn ex_gvr_string ex_env WakePush ex_idle)"
proof -
  obtain err ps bw w where run:
    "pushPendingCommits ex_env (lp_pendingWrites ex_idle) (lp_w ex_idle) (lp_world ex_idle) = (err, ps, bw, w)"
    by (metis prod_cases4)
  have "fst (pushPendingCommits ex_env (lp_pendingWrites ex_idle) (lp_w ex_idle) (lp_world ex_idle)) \<noteq> None" by code_simp
  with run obtain e where e: "err = Some e" by auto
  have idle: "lp_pendingWrites ex_idle \<noteq> []" "lp_openWindow ex_idle = None" "lp_commitTimer ex_idle = None"
      "lp_pendingCRs ex_idle = []" "lp_deferredHeals ex_idle = []" "bw_eventQueue (lp_w ex_idle) = []"
    using ex_facts by auto
  have "map pw_CommitSHA (lp_pendingWrites (loop_turn ex_gvr_string ex_env WakePush ex_idle)) = [''c1'']" by code_simp
  with failed_push_waits_for_traffic [OF run [unfolded e] idle, of ex_gvr_string] show ?thesis by blast
qed


end
