(* ===== verification/Fact_Store.thy ===== *)
theory Fact_Store
  imports Api_Types
begin

text \<open>
  Attribution facts and the structures that hold them (\<open>internal/queue\<close>: \<open>author_fact.go\<close> and
  \<open>fact_index_store.go\<close>): who wrote or deleted an object, filed so that a watch event can be joined to
  the strongest evidence at hand.

  A fact is filed under every structure it can serve, each entry with its own sequence number and a
  reference in the eviction order. Sequence numbers are natural numbers (the code's \<open>uint64\<close> would need
  \<open>2 ^ 64\<close> facts to wrap). The readings of the clock are arguments. \<open>labels.Parse\<close> of the Kubernetes
  libraries and \<open>time.Parse\<close> are the arguments \<open>parse_selector\<close> and \<open>parse_time\<close>. Metrics and array
  capacities are left out.

  Every entry has a canonical reference; \<open>scope_inv\<close> says that the counter counts the entries and that
  the eviction order lists every one of them, and the lemmas show that filing, evicting and sweeping
  keep it.
\<close>

section \<open>Facts\<close>

datatype AttributionResult =
    AttributionDeleteSticky
  | AttributionExact
  | AttributionLatest
  | AttributionResourceVersion
  | AttributionDeleteCollectionBodyUID
  | AttributionName
  | AttributionDeleteCollectionScope
  | AttributionAbsent

record AuthorFact =
  af_Namespace :: string
  af_UID :: string
  af_Name :: string
  af_Author :: string
  af_DisplayName :: string
  af_Email :: string
  af_Verb :: string
  af_AuditID :: string
  af_ResourceVersion :: string
  af_StageTimestamp :: string
  af_LabelSelector :: string
  af_UIDs :: "string list"

definition no_fact :: AuthorFact where
  "no_fact = \<lparr> af_Namespace = [], af_UID = [], af_Name = [], af_Author = [], af_DisplayName = [], af_Email = [],
     af_Verb = [], af_AuditID = [], af_ResourceVersion = [], af_StageTimestamp = [], af_LabelSelector = [],
     af_UIDs = [] \<rparr>"

record AuthorResolution =
  ar_Fact :: AuthorFact
  ar_Result :: AttributionResult

definition absent :: AuthorResolution where
  "absent = \<lparr> ar_Fact = no_fact, ar_Result = AttributionAbsent \<rparr>"

datatype ActorKind = ActorKindUser | ActorKindServiceAccount | ActorKindNone

definition serviceAccountUserPrefix :: string where
  "serviceAccountUserPrefix = ''system:serviceaccount:''"

definition fact_ActorKind :: "AuthorFact \<Rightarrow> ActorKind" where
  "fact_ActorKind f =
     (if af_Author f = [] then ActorKindNone
      else if HasPrefix (af_Author f) serviceAccountUserPrefix then ActorKindServiceAccount
      else ActorKindUser)"

definition resolution_ActorKind :: "AuthorResolution \<Rightarrow> ActorKind" where
  "resolution_ActorKind r =
     (if ar_Result r = AttributionAbsent then ActorKindNone else fact_ActorKind (ar_Fact r))"

definition deleteCollectionVerb :: string where
  "deleteCollectionVerb = ''deletecollection''"

definition isRemovalVerb :: "string \<Rightarrow> bool" where
  "isRemovalVerb verb = (EqualFold verb ''delete'' \<or> EqualFold verb deleteCollectionVerb)"

section \<open>Stored entries\<close>

datatype factKind =
    factKindExact | factKindLatest | factKindRemoval | factKindRV | factKindName | factKindCollection

record factScope =
  fsc_route :: string
  fsc_groupResource :: string

type_synonym exactFactKey = "string \<times> string"
type_synonym nameFactKey = "string \<times> string"

record indexedFact =
  ixf_fact :: AuthorFact
  ixf_at :: gotime
  ixf_seq :: nat

text \<open>A set of uids is a list; \<open>None\<close> is the nil map.\<close>

record indexedCollection =
  ixc_fact :: AuthorFact
  ixc_at :: gotime
  ixc_seq :: nat
  ixc_stage :: gotime
  ixc_selector :: "(labels \<Rightarrow> bool) option"
  ixc_invalidSelector :: bool
  ixc_uids :: "string list option"

definition parseStageTimestamp :: "(string \<Rightarrow> gotime option) \<Rightarrow> string \<Rightarrow> gotime" where
  "parseStageTimestamp parse_time stamp =
     (if stamp = [] then 0 else case parse_time stamp of None \<Rightarrow> 0 | Some at \<Rightarrow> at)"

definition newIndexedCollection ::
  "(string \<Rightarrow> gotime option) \<Rightarrow> (string \<Rightarrow> (labels \<Rightarrow> bool) option) \<Rightarrow> AuthorFact \<Rightarrow> gotime \<Rightarrow> nat
    \<Rightarrow> indexedCollection" where
  "newIndexedCollection parse_time parse_selector f now seq =
     \<lparr> ixc_fact = f, ixc_at = now, ixc_seq = seq,
       ixc_stage = parseStageTimestamp parse_time (af_StageTimestamp f),
       ixc_selector = (if af_LabelSelector f = [] then None else parse_selector (af_LabelSelector f)),
       ixc_invalidSelector = (af_LabelSelector f \<noteq> [] \<and> parse_selector (af_LabelSelector f) = None),
       ixc_uids = (if af_UIDs f = [] then None else Some (af_UIDs f)) \<rparr>"

record factRef =
  fref_kind :: factKind
  fref_uid :: string
  fref_rv :: string
  fref_namespace :: string
  fref_name :: string
  fref_seq :: nat

definition exact_ref :: "string \<Rightarrow> string \<Rightarrow> nat \<Rightarrow> factRef" where
  "exact_ref uid rv seq = \<lparr> fref_kind = factKindExact, fref_uid = uid, fref_rv = rv, fref_namespace = [],
     fref_name = [], fref_seq = seq \<rparr>"

definition latest_ref :: "string \<Rightarrow> nat \<Rightarrow> factRef" where
  "latest_ref uid seq = \<lparr> fref_kind = factKindLatest, fref_uid = uid, fref_rv = [], fref_namespace = [],
     fref_name = [], fref_seq = seq \<rparr>"

definition removal_ref :: "string \<Rightarrow> nat \<Rightarrow> factRef" where
  "removal_ref uid seq = \<lparr> fref_kind = factKindRemoval, fref_uid = uid, fref_rv = [], fref_namespace = [],
     fref_name = [], fref_seq = seq \<rparr>"

definition rv_ref :: "string \<Rightarrow> nat \<Rightarrow> factRef" where
  "rv_ref rv seq = \<lparr> fref_kind = factKindRV, fref_uid = [], fref_rv = rv, fref_namespace = [],
     fref_name = [], fref_seq = seq \<rparr>"

definition name_ref :: "string \<Rightarrow> string \<Rightarrow> nat \<Rightarrow> factRef" where
  "name_ref namespace name seq = \<lparr> fref_kind = factKindName, fref_uid = [], fref_rv = [],
     fref_namespace = namespace, fref_name = name, fref_seq = seq \<rparr>"

definition collection_ref :: "nat \<Rightarrow> factRef" where
  "collection_ref seq = \<lparr> fref_kind = factKindCollection, fref_uid = [], fref_rv = [], fref_namespace = [],
     fref_name = [], fref_seq = seq \<rparr>"

record scopeFacts =
  sf_exact :: "(exactFactKey, indexedFact) gomap"
  sf_latest :: "(string, indexedFact) gomap"
  sf_removals :: "(string, indexedFact) gomap"
  sf_rvOnly :: "(string, indexedFact) gomap"
  sf_byName :: "(nameFactKey, indexedFact) gomap"
  sf_collections :: "indexedCollection list"
  sf_order :: "factRef list"
  sf_count :: int

definition newScopeFacts :: scopeFacts where
  "newScopeFacts = \<lparr> sf_exact = [], sf_latest = [], sf_removals = [], sf_rvOnly = [], sf_byName = [],
     sf_collections = [], sf_order = [], sf_count = 0 \<rparr>"

subsection \<open>Filing\<close>

definition bump :: "('k, 'v) gomap \<Rightarrow> 'k \<Rightarrow> int" where
  "bump m k = (if map_get m k = None then 1 else 0)"

definition putExact :: "string \<Rightarrow> string \<Rightarrow> indexedFact \<Rightarrow> scopeFacts \<Rightarrow> scopeFacts" where
  "putExact uid rv entry s = s\<lparr>
     sf_count := sf_count s + bump (sf_exact s) (uid, rv),
     sf_exact := map_put (uid, rv) entry (sf_exact s),
     sf_order := sf_order s @ [exact_ref uid rv (ixf_seq entry)] \<rparr>"

definition putLatest :: "string \<Rightarrow> indexedFact \<Rightarrow> scopeFacts \<Rightarrow> scopeFacts" where
  "putLatest uid entry s = s\<lparr>
     sf_count := sf_count s + bump (sf_latest s) uid,
     sf_latest := map_put uid entry (sf_latest s),
     sf_order := sf_order s @ [latest_ref uid (ixf_seq entry)] \<rparr>"

definition putRemoval :: "string \<Rightarrow> indexedFact \<Rightarrow> scopeFacts \<Rightarrow> scopeFacts" where
  "putRemoval uid entry s = s\<lparr>
     sf_count := sf_count s + bump (sf_removals s) uid,
     sf_removals := map_put uid entry (sf_removals s),
     sf_order := sf_order s @ [removal_ref uid (ixf_seq entry)] \<rparr>"

definition putRV :: "string \<Rightarrow> indexedFact \<Rightarrow> scopeFacts \<Rightarrow> scopeFacts" where
  "putRV rv entry s = s\<lparr>
     sf_count := sf_count s + bump (sf_rvOnly s) rv,
     sf_rvOnly := map_put rv entry (sf_rvOnly s),
     sf_order := sf_order s @ [rv_ref rv (ixf_seq entry)] \<rparr>"

definition putName :: "string \<Rightarrow> string \<Rightarrow> indexedFact \<Rightarrow> scopeFacts \<Rightarrow> scopeFacts" where
  "putName namespace name entry s = s\<lparr>
     sf_count := sf_count s + bump (sf_byName s) (namespace, name),
     sf_byName := map_put (namespace, name) entry (sf_byName s),
     sf_order := sf_order s @ [name_ref namespace name (ixf_seq entry)] \<rparr>"

definition putCollection :: "indexedCollection \<Rightarrow> scopeFacts \<Rightarrow> scopeFacts" where
  "putCollection entry s = s\<lparr>
     sf_collections := sf_collections s @ [entry],
     sf_order := sf_order s @ [collection_ref (ixc_seq entry)],
     sf_count := sf_count s + 1 \<rparr>"

subsection \<open>Reading\<close>

record FactQuery =
  fq_AuditRoute :: string
  fq_Group :: string
  fq_Resource :: string
  fq_UID :: string
  fq_ResourceVersion :: string
  fq_Namespace :: string
  fq_Labels :: labels
  fq_Name :: string
  fq_ExactCapable :: bool

definition liveFact :: "indexedFact option \<Rightarrow> gotime \<Rightarrow> AuthorFact option" where
  "liveFact entry cutoff =
     (case entry of None \<Rightarrow> None | Some e \<Rightarrow> if ixf_at e < cutoff then None else Some (ixf_fact e))"

definition lookupExact :: "string \<Rightarrow> string \<Rightarrow> gotime \<Rightarrow> scopeFacts \<Rightarrow> AuthorFact option" where
  "lookupExact uid rv cutoff s = liveFact (map_get (sf_exact s) (uid, rv)) cutoff"

definition lookupLatest :: "string \<Rightarrow> gotime \<Rightarrow> scopeFacts \<Rightarrow> AuthorFact option" where
  "lookupLatest uid cutoff s = liveFact (map_get (sf_latest s) uid) cutoff"

definition lookupRemovalPointer :: "string \<Rightarrow> scopeFacts \<Rightarrow> AuthorFact option" where
  "lookupRemovalPointer uid s = map_option ixf_fact (map_get (sf_removals s) uid)"

definition lookupRV :: "string \<Rightarrow> gotime \<Rightarrow> scopeFacts \<Rightarrow> AuthorFact option" where
  "lookupRV rv cutoff s = liveFact (map_get (sf_rvOnly s) rv) cutoff"

definition lookupName :: "string \<Rightarrow> string \<Rightarrow> gotime \<Rightarrow> scopeFacts \<Rightarrow> AuthorFact option" where
  "lookupName namespace name cutoff s = liveFact (map_get (sf_byName s) (namespace, name)) cutoff"

definition covers :: "indexedCollection \<Rightarrow> FactQuery \<Rightarrow> gotime \<Rightarrow> bool" where
  "covers c q cutoff = (\<not> ixc_at c < cutoff \<and> af_Namespace (ixc_fact c) = fq_Namespace q)"

definition inWindow :: "indexedCollection \<Rightarrow> gotime \<Rightarrow> duration \<Rightarrow> bool" where
  "inWindow c now window =
     (let at = (if time_IsZero (ixc_stage c) then ixc_at c else ixc_stage c) in \<not> now > at + window)"

definition selects :: "indexedCollection \<Rightarrow> labels \<Rightarrow> bool" where
  "selects c objectLabels =
     (if ixc_invalidSelector c then False
      else case ixc_selector c of None \<Rightarrow> True | Some sel \<Rightarrow> sel objectLabels)"

text \<open>Both searches run from the newest collection to the oldest.\<close>

definition matchCollectionUID :: "FactQuery \<Rightarrow> gotime \<Rightarrow> scopeFacts \<Rightarrow> AuthorFact option" where
  "matchCollectionUID q cutoff s =
     map_option ixc_fact
       (find (\<lambda>c. covers c q cutoff \<and> (case ixc_uids c of None \<Rightarrow> False | Some us \<Rightarrow> fq_UID q \<in> set us))
         (rev (sf_collections s)))"

definition matchCollectionScope :: "FactQuery \<Rightarrow> gotime \<Rightarrow> gotime \<Rightarrow> duration \<Rightarrow> scopeFacts \<Rightarrow> AuthorFact option" where
  "matchCollectionScope q now cutoff window s =
     map_option ixc_fact
       (find (\<lambda>c. covers c q cutoff \<and> inWindow c now window \<and> selects c (fq_Labels q))
         (rev (sf_collections s)))"

subsection \<open>Eviction and sweeping\<close>

definition removeKeyed :: "('k, indexedFact) gomap \<Rightarrow> 'k \<Rightarrow> nat \<Rightarrow> (('k, indexedFact) gomap) option" where
  "removeKeyed m key seq =
     (case map_get m key of
        None \<Rightarrow> None
      | Some entry \<Rightarrow> if ixf_seq entry = seq then Some (map_del key m) else None)"

fun removeCollection :: "nat \<Rightarrow> indexedCollection list \<Rightarrow> indexedCollection list option" where
  "removeCollection seq [] = None"
| "removeCollection seq (c # cs) =
     (if ixc_seq c = seq then Some cs else map_option ((#) c) (removeCollection seq cs))"

text \<open>\<open>remove\<close>: \<open>None\<close> where the code answers false, the scope without the entry where it answers true.\<close>

definition sf_remove :: "factRef \<Rightarrow> scopeFacts \<Rightarrow> scopeFacts option" where
  "sf_remove ref s =
     (case fref_kind ref of
        factKindExact \<Rightarrow>
          map_option (\<lambda>m. s\<lparr> sf_exact := m \<rparr>) (removeKeyed (sf_exact s) (fref_uid ref, fref_rv ref) (fref_seq ref))
      | factKindLatest \<Rightarrow>
          map_option (\<lambda>m. s\<lparr> sf_latest := m \<rparr>) (removeKeyed (sf_latest s) (fref_uid ref) (fref_seq ref))
      | factKindRemoval \<Rightarrow>
          map_option (\<lambda>m. s\<lparr> sf_removals := m \<rparr>) (removeKeyed (sf_removals s) (fref_uid ref) (fref_seq ref))
      | factKindRV \<Rightarrow>
          map_option (\<lambda>m. s\<lparr> sf_rvOnly := m \<rparr>) (removeKeyed (sf_rvOnly s) (fref_rv ref) (fref_seq ref))
      | factKindName \<Rightarrow>
          map_option (\<lambda>m. s\<lparr> sf_byName := m \<rparr>)
            (removeKeyed (sf_byName s) (fref_namespace ref, fref_name ref) (fref_seq ref))
      | factKindCollection \<Rightarrow>
          map_option (\<lambda>cs. s\<lparr> sf_collections := cs \<rparr>) (removeCollection (fref_seq ref) (sf_collections s)))"

fun evict_refs :: "factRef list \<Rightarrow> scopeFacts \<Rightarrow> bool \<times> scopeFacts" where
  "evict_refs [] s = (False, s\<lparr> sf_order := [] \<rparr>)"
| "evict_refs (ref # refs) s =
     (case sf_remove ref (s\<lparr> sf_order := refs \<rparr>) of
        None \<Rightarrow> evict_refs refs s
      | Some s' \<Rightarrow> (True, s'\<lparr> sf_count := sf_count s' - 1 \<rparr>))"

definition evictOldest :: "scopeFacts \<Rightarrow> bool \<times> scopeFacts" where
  "evictOldest s = evict_refs (sf_order s) s"

definition liveKeyed :: "('k, indexedFact) gomap \<Rightarrow> 'k \<Rightarrow> nat \<Rightarrow> bool" where
  "liveKeyed m key seq = (case map_get m key of None \<Rightarrow> False | Some entry \<Rightarrow> ixf_seq entry = seq)"

definition ref_live :: "scopeFacts \<Rightarrow> factRef \<Rightarrow> bool" where
  "ref_live s ref =
     (case fref_kind ref of
        factKindExact \<Rightarrow> liveKeyed (sf_exact s) (fref_uid ref, fref_rv ref) (fref_seq ref)
      | factKindLatest \<Rightarrow> liveKeyed (sf_latest s) (fref_uid ref) (fref_seq ref)
      | factKindRemoval \<Rightarrow> liveKeyed (sf_removals s) (fref_uid ref) (fref_seq ref)
      | factKindRV \<Rightarrow> liveKeyed (sf_rvOnly s) (fref_rv ref) (fref_seq ref)
      | factKindName \<Rightarrow> liveKeyed (sf_byName s) (fref_namespace ref, fref_name ref) (fref_seq ref)
      | factKindCollection \<Rightarrow> list_ex (\<lambda>c. ixc_seq c = fref_seq ref) (sf_collections s))"

text \<open>The capacity of the array that holds the order is not part of the model.\<close>

definition compact :: "scopeFacts \<Rightarrow> scopeFacts" where
  "compact s = s\<lparr> sf_order := filter (ref_live s) (sf_order s) \<rparr>"

definition fresh :: "gotime \<Rightarrow> 'k \<times> indexedFact \<Rightarrow> bool" where
  "fresh cutoff p = (\<not> ixf_at (snd p) < cutoff)"

definition scope_sweep :: "gotime \<Rightarrow> scopeFacts \<Rightarrow> int \<times> scopeFacts" where
  "scope_sweep cutoff s =
     (let s' = s\<lparr> sf_exact := filter (fresh cutoff) (sf_exact s),
                 sf_latest := filter (fresh cutoff) (sf_latest s),
                 sf_rvOnly := filter (fresh cutoff) (sf_rvOnly s),
                 sf_byName := filter (fresh cutoff) (sf_byName s),
                 sf_collections := filter (\<lambda>c. \<not> ixc_at c < cutoff) (sf_collections s) \<rparr>;
          removed = int (length (sf_exact s)) - int (length (sf_exact s'))
                  + (int (length (sf_latest s)) - int (length (sf_latest s')))
                  + (int (length (sf_rvOnly s)) - int (length (sf_rvOnly s')))
                  + (int (length (sf_byName s)) - int (length (sf_byName s')))
                  + (int (length (sf_collections s)) - int (length (sf_collections s')))
      in (removed, compact (s'\<lparr> sf_count := sf_count s - removed \<rparr>)))"

definition scope_empty :: "scopeFacts \<Rightarrow> bool" where
  "scope_empty s = (sf_count s = 0)"

section \<open>The entries of a scope\<close>

definition entries :: "scopeFacts \<Rightarrow> factRef list" where
  "entries s =
     map (\<lambda>(k, e). exact_ref (fst k) (snd k) (ixf_seq e)) (sf_exact s)
     @ map (\<lambda>(k, e). latest_ref k (ixf_seq e)) (sf_latest s)
     @ map (\<lambda>(k, e). removal_ref k (ixf_seq e)) (sf_removals s)
     @ map (\<lambda>(k, e). rv_ref k (ixf_seq e)) (sf_rvOnly s)
     @ map (\<lambda>(k, e). name_ref (fst k) (snd k) (ixf_seq e)) (sf_byName s)
     @ map (\<lambda>c. collection_ref (ixc_seq c)) (sf_collections s)"

definition scope_wf :: "scopeFacts \<Rightarrow> bool" where
  "scope_wf s \<longleftrightarrow> map_wf (sf_exact s) \<and> map_wf (sf_latest s) \<and> map_wf (sf_removals s) \<and> map_wf (sf_rvOnly s)
     \<and> map_wf (sf_byName s) \<and> distinct (map ixc_seq (sf_collections s))"

definition canonical :: "factRef \<Rightarrow> bool" where
  "canonical r =
     (case fref_kind r of
        factKindExact \<Rightarrow> r = exact_ref (fref_uid r) (fref_rv r) (fref_seq r)
      | factKindLatest \<Rightarrow> r = latest_ref (fref_uid r) (fref_seq r)
      | factKindRemoval \<Rightarrow> r = removal_ref (fref_uid r) (fref_seq r)
      | factKindRV \<Rightarrow> r = rv_ref (fref_rv r) (fref_seq r)
      | factKindName \<Rightarrow> r = name_ref (fref_namespace r) (fref_name r) (fref_seq r)
      | factKindCollection \<Rightarrow> r = collection_ref (fref_seq r))"

lemmas ref_defs = exact_ref_def latest_ref_def removal_ref_def rv_ref_def name_ref_def collection_ref_def

lemma canonical_cases:
  assumes "canonical r"
  obtains uid rv n where "r = exact_ref uid rv n" | uid n where "r = latest_ref uid n"
    | uid n where "r = removal_ref uid n" | rv n where "r = rv_ref rv n"
    | namespace name n where "r = name_ref namespace name n" | n where "r = collection_ref n"
  using assms unfolding canonical_def by (cases "fref_kind r") auto

lemma canonical_refs [simp]:
  "canonical (exact_ref uid rv n)" "canonical (latest_ref uid n)" "canonical (removal_ref uid n)"
  "canonical (rv_ref rv n)" "canonical (name_ref namespace name n)" "canonical (collection_ref n)"
  by (simp_all add: canonical_def ref_defs)

lemma ref_fields [simp]:
  "fref_kind (exact_ref uid rv n) = factKindExact" "fref_uid (exact_ref uid rv n) = uid"
  "fref_rv (exact_ref uid rv n) = rv" "fref_seq (exact_ref uid rv n) = n"
  "fref_kind (latest_ref uid n) = factKindLatest" "fref_uid (latest_ref uid n) = uid"
  "fref_seq (latest_ref uid n) = n"
  "fref_kind (removal_ref uid n) = factKindRemoval" "fref_uid (removal_ref uid n) = uid"
  "fref_seq (removal_ref uid n) = n"
  "fref_kind (rv_ref rv n) = factKindRV" "fref_rv (rv_ref rv n) = rv" "fref_seq (rv_ref rv n) = n"
  "fref_kind (name_ref namespace name n) = factKindName" "fref_namespace (name_ref namespace name n) = namespace"
  "fref_name (name_ref namespace name n) = name" "fref_seq (name_ref namespace name n) = n"
  "fref_kind (collection_ref n) = factKindCollection" "fref_seq (collection_ref n) = n"
  by (simp_all add: ref_defs)

lemma ref_inject [simp]:
  "exact_ref u r n = exact_ref u' r' n' \<longleftrightarrow> u = u' \<and> r = r' \<and> n = n'"
  "latest_ref u n = latest_ref u' n' \<longleftrightarrow> u = u' \<and> n = n'"
  "removal_ref u n = removal_ref u' n' \<longleftrightarrow> u = u' \<and> n = n'"
  "rv_ref r n = rv_ref r' n' \<longleftrightarrow> r = r' \<and> n = n'"
  "name_ref a b n = name_ref a' b' n' \<longleftrightarrow> a = a' \<and> b = b' \<and> n = n'"
  "collection_ref n = collection_ref n' \<longleftrightarrow> n = n'"
  by (simp_all add: ref_defs)

lemma ref_kinds [simp]:
  "exact_ref u r n \<noteq> latest_ref u' n'" "exact_ref u r n \<noteq> removal_ref u' n'"
  "exact_ref u r n \<noteq> rv_ref r' n'" "exact_ref u r n \<noteq> name_ref a' b' n'"
  "exact_ref u r n \<noteq> collection_ref n'" "latest_ref u n \<noteq> exact_ref u' r' n'"
  "latest_ref u n \<noteq> removal_ref u' n'" "latest_ref u n \<noteq> rv_ref r' n'"
  "latest_ref u n \<noteq> name_ref a' b' n'" "latest_ref u n \<noteq> collection_ref n'"
  "removal_ref u n \<noteq> exact_ref u' r' n'" "removal_ref u n \<noteq> latest_ref u' n'"
  "removal_ref u n \<noteq> rv_ref r' n'" "removal_ref u n \<noteq> name_ref a' b' n'"
  "removal_ref u n \<noteq> collection_ref n'" "rv_ref r n \<noteq> exact_ref u' r' n'"
  "rv_ref r n \<noteq> latest_ref u' n'" "rv_ref r n \<noteq> removal_ref u' n'"
  "rv_ref r n \<noteq> name_ref a' b' n'" "rv_ref r n \<noteq> collection_ref n'"
  "name_ref a b n \<noteq> exact_ref u' r' n'" "name_ref a b n \<noteq> latest_ref u' n'"
  "name_ref a b n \<noteq> removal_ref u' n'" "name_ref a b n \<noteq> rv_ref r' n'"
  "name_ref a b n \<noteq> collection_ref n'" "collection_ref n \<noteq> exact_ref u' r' n'"
  "collection_ref n \<noteq> latest_ref u' n'" "collection_ref n \<noteq> removal_ref u' n'"
  "collection_ref n \<noteq> rv_ref r' n'" "collection_ref n \<noteq> name_ref a' b' n'"
  by (simp_all add: ref_defs)

lemma map_of_seq:
  assumes "map_wf m"
  shows "map_option ixf_seq (map_get m k) = Some n \<longleftrightarrow> (\<exists>e. (k, e) \<in> set m \<and> ixf_seq e = n)"
  using map_of_eq_Some_iff [OF assms] by auto

lemma entries_canonical: "r \<in> set (entries s) \<Longrightarrow> canonical r"
  by (auto simp: entries_def)

lemma liveKeyed_iff: "liveKeyed m k n \<longleftrightarrow> map_option ixf_seq (map_get m k) = Some n"
  by (auto simp: liveKeyed_def split: option.splits)

lemma live_simps:
  "ref_live s (exact_ref uid rv n) \<longleftrightarrow> map_option ixf_seq (map_get (sf_exact s) (uid, rv)) = Some n"
  "ref_live s (latest_ref uid n) \<longleftrightarrow> map_option ixf_seq (map_get (sf_latest s) uid) = Some n"
  "ref_live s (removal_ref uid n) \<longleftrightarrow> map_option ixf_seq (map_get (sf_removals s) uid) = Some n"
  "ref_live s (rv_ref rv n) \<longleftrightarrow> map_option ixf_seq (map_get (sf_rvOnly s) rv) = Some n"
  "ref_live s (name_ref a b n) \<longleftrightarrow> map_option ixf_seq (map_get (sf_byName s) (a, b)) = Some n"
  "ref_live s (collection_ref n) \<longleftrightarrow> n \<in> ixc_seq ` set (sf_collections s)"
  by (auto simp: ref_live_def liveKeyed_iff list_ex_iff)

text \<open>A reference is live exactly when it names an entry.\<close>

lemma entries_live:
  assumes "scope_wf s"
  shows "set (entries s) = {r. canonical r \<and> ref_live s r}"
proof -
  have "r \<in> set (entries s) \<longleftrightarrow> ref_live s r" if "canonical r" for r
    using that assms
    by (cases rule: canonical_cases)
      (auto simp: entries_def live_simps scope_wf_def map_of_seq image_iff split_beta; force)+
  then show ?thesis using entries_canonical by blast
qed

lemma distinct_keyed:
  assumes "map_wf m" and "\<And>k k' n n'. f k n = f k' n' \<Longrightarrow> k = k'"
  shows "distinct (map (\<lambda>(k, e). f k (ixf_seq e)) m)"
  using assms(1) by (induction m) (auto dest: assms(2) simp: rev_image_eqI)

lemma distinct_entries:
  assumes "scope_wf s"
  shows "distinct (entries s)"
proof -
  have "distinct (map (\<lambda>(k, e). exact_ref (fst k) (snd k) (ixf_seq e)) (sf_exact s))"
    and "distinct (map (\<lambda>(k, e). latest_ref k (ixf_seq e)) (sf_latest s))"
    and "distinct (map (\<lambda>(k, e). removal_ref k (ixf_seq e)) (sf_removals s))"
    and "distinct (map (\<lambda>(k, e). rv_ref k (ixf_seq e)) (sf_rvOnly s))"
    and "distinct (map (\<lambda>(k, e). name_ref (fst k) (snd k) (ixf_seq e)) (sf_byName s))"
    using assms unfolding scope_wf_def
    by (intro distinct_keyed [where f = "\<lambda>k. exact_ref (fst k) (snd k)"] distinct_keyed [where f = latest_ref]
        distinct_keyed [where f = removal_ref] distinct_keyed [where f = rv_ref]
        distinct_keyed [where f = "\<lambda>k. name_ref (fst k) (snd k)"]; auto simp: prod_eq_iff)+
  moreover have "distinct (map (\<lambda>c. collection_ref (ixc_seq c)) (sf_collections s))"
    using assms by (simp add: scope_wf_def distinct_map inj_on_def)
  ultimately show ?thesis unfolding entries_def distinct_append by (auto simp: ref_defs)
qed

lemma removeKeyed_Some:
  "removeKeyed m k n = Some m' \<longleftrightarrow> map_option ixf_seq (map_get m k) = Some n \<and> m' = map_del k m"
  by (auto simp: removeKeyed_def split: option.splits if_splits)

lemma removeKeyed_None:
  "removeKeyed m k n = None \<longleftrightarrow> map_option ixf_seq (map_get m k) \<noteq> Some n"
  by (auto simp: removeKeyed_def split: option.splits)

lemma removeCollection_None: "removeCollection n cs = None \<longleftrightarrow> n \<notin> ixc_seq ` set cs"
  by (induction cs) auto

lemma removeCollection_Some:
  "distinct (map ixc_seq cs) \<Longrightarrow> removeCollection n cs = Some cs' \<Longrightarrow>
     cs' = filter (\<lambda>c. ixc_seq c \<noteq> n) cs \<and> n \<in> ixc_seq ` set cs"
proof (induction cs arbitrary: cs')
  case (Cons c cs)
  show ?case
  proof (cases "ixc_seq c = n")
    case True
    with Cons.prems have "filter (\<lambda>c. ixc_seq c \<noteq> n) cs = cs" by (auto simp: filter_id_conv rev_image_eqI)
    with True Cons.prems show ?thesis by auto
  next
    case False
    with Cons show ?thesis by auto
  qed
qed simp

text \<open>Removing a reference removes exactly the entry it names, if that is still there.\<close>

lemma sf_remove_None: "canonical r \<Longrightarrow> sf_remove r s = None \<longleftrightarrow> \<not> ref_live s r"
  by (erule canonical_cases)
    (simp_all add: sf_remove_def live_simps removeKeyed_None removeCollection_None)

lemma sf_remove_frame:
  assumes "sf_remove r s = Some s'"
  shows "sf_order s' = sf_order s" and "sf_count s' = sf_count s"
  using assms by (auto simp: sf_remove_def split: factKind.splits)

lemma sf_remove_wf:
  assumes "scope_wf s" and "sf_remove r s = Some s'"
  shows "scope_wf s'"
proof -
  have "distinct (map ixc_seq cs')" if "removeCollection n (sf_collections s) = Some cs'" for n cs'
    using removeCollection_Some [OF _ that] assms(1) by (auto simp: scope_wf_def distinct_map_filter)
  with assms show ?thesis
    by (auto simp: sf_remove_def scope_wf_def removeKeyed_Some split: factKind.splits)
qed

lemma sf_remove_live:
  assumes "scope_wf s" and "canonical r" and "sf_remove r s = Some s'" and "canonical x"
  shows "ref_live s' x \<longleftrightarrow> ref_live s x \<and> x \<noteq> r"
  using assms(2)
proof (cases rule: canonical_cases)
  case (6 n)
  then obtain cs where cs: "removeCollection n (sf_collections s) = Some cs" "s' = s\<lparr> sf_collections := cs \<rparr>"
    using assms(3) by (auto simp: sf_remove_def)
  with assms(1) have "cs = filter (\<lambda>c. ixc_seq c \<noteq> n) (sf_collections s)"
    by (auto simp: scope_wf_def dest: removeCollection_Some)
  then have "ixc_seq ` set cs = ixc_seq ` set (sf_collections s) - {n}" by auto
  with assms(4) show ?thesis unfolding 6 cs(2) by (cases rule: canonical_cases) (simp_all add: live_simps)
qed (use assms(3,4) in \<open>auto simp: sf_remove_def removeKeyed_Some live_simps al.lookup_del split: if_splits
    elim!: canonical_cases\<close>)


lemma sf_remove_entries:
  assumes "scope_wf s" and "canonical r" and "sf_remove r s = Some s'"
  shows "set (entries s') = set (entries s) - {r}" and "r \<in> set (entries s)"
proof -
  show "r \<in> set (entries s)"
    using sf_remove_None [OF assms(2), of s] assms by (simp add: entries_live)
  show "set (entries s') = set (entries s) - {r}"
    using sf_remove_live [OF assms] by (auto simp: entries_live [OF assms(1)] entries_live [OF sf_remove_wf [OF assms(1,3)]])
qed

section \<open>The invariant of a scope\<close>

text \<open>
  The counter counts the entries, the eviction order names every one of them, and the references in
  it were taken in the order of their sequence numbers, none above \<open>bound\<close>.
\<close>

definition scope_inv :: "nat \<Rightarrow> scopeFacts \<Rightarrow> bool" where
  "scope_inv bound s \<longleftrightarrow> scope_wf s \<and> sf_count s = int (length (entries s)) \<and> set (entries s) \<subseteq> set (sf_order s)
     \<and> list_all canonical (sf_order s) \<and> sorted_wrt (<) (map fref_seq (sf_order s))
     \<and> (\<forall>r \<in> set (sf_order s). fref_seq r \<le> bound)"

lemma scope_inv_new: "scope_inv n newScopeFacts"
  by (simp add: scope_inv_def scope_wf_def entries_def newScopeFacts_def)

lemma scope_inv_mono: "scope_inv n s \<Longrightarrow> n \<le> n' \<Longrightarrow> scope_inv n' s"
  by (auto simp: scope_inv_def)

text \<open>Eviction takes the oldest entry, and finds one as long as the scope holds any.\<close>

lemma scope_wf_order [simp]: "scope_wf (s\<lparr> sf_order := refs \<rparr>) = scope_wf s"
  and entries_order [simp]: "entries (s\<lparr> sf_order := refs \<rparr>) = entries s"
  and scope_wf_count [simp]: "scope_wf (s\<lparr> sf_count := c \<rparr>) = scope_wf s"
  and entries_count [simp]: "entries (s\<lparr> sf_count := c \<rparr>) = entries s"
  by (simp_all add: scope_wf_def entries_def)

lemma evict_refs_shorter: "evict_refs refs s = (True, s') \<Longrightarrow> length (sf_order s') < length refs"
  by (induction refs s rule: evict_refs.induct) (auto split: option.splits dest: sf_remove_frame)

lemma evict_refs_spec:
  assumes "scope_wf s" and "list_all canonical refs" and "set (entries s) \<subseteq> set refs"
    and "sorted_wrt (<) (map fref_seq refs)"
  shows "case evict_refs refs s of
           (False, s') \<Rightarrow> entries s = []
         | (True, s') \<Rightarrow> \<exists>r \<in> set (entries s). (\<forall>x \<in> set (entries s). fref_seq r \<le> fref_seq x)
             \<and> scope_wf s' \<and> set (entries s') = set (entries s) - {r} \<and> sf_count s' = sf_count s - 1
             \<and> suffix (sf_order s') refs \<and> set (entries s') \<subseteq> set (sf_order s')"
  using assms
proof (induction refs s rule: evict_refs.induct)
  case (2 r refs s)
  have r: "canonical r" and wf: "scope_wf (s\<lparr> sf_order := refs \<rparr>)" using "2.prems" by simp_all
  show ?case
  proof (cases "sf_remove r (s\<lparr> sf_order := refs \<rparr>)")
    case None
    then have "r \<notin> set (entries s)" using sf_remove_None [OF r] entries_live [OF wf] r by auto
    then have sub: "set (entries s) \<subseteq> set refs" using "2.prems" by auto
    show ?thesis
      using "2.IH" [OF None "2.prems"(1) _ sub] "2.prems" None by (auto split: prod.splits bool.splits intro: suffix_ConsI)
  next
    case (Some s')
    note rem = sf_remove_entries [OF wf r Some, simplified] sf_remove_wf [OF wf Some] sf_remove_frame [OF Some, simplified]
    moreover have "\<forall>x \<in> set (entries s). fref_seq r \<le> fref_seq x" using "2.prems" by fastforce
    moreover have "set (entries s') \<subseteq> set refs" using rem(1) "2.prems"(3) by auto
    ultimately show ?thesis using Some by (auto intro!: bexI [of _ r] suffix_ConsI)
  qed
qed simp

lemma evictOldest_spec:
  assumes "scope_inv n s"
  shows "case evictOldest s of
           (False, s') \<Rightarrow> entries s = []
         | (True, s') \<Rightarrow> scope_inv n s' \<and> length (sf_order s') < length (sf_order s) \<and> sf_count s' = sf_count s - 1
             \<and> (\<exists>r \<in> set (entries s). (\<forall>x \<in> set (entries s). fref_seq r \<le> fref_seq x)
                  \<and> set (entries s') = set (entries s) - {r})"
proof -
  have pre: "scope_wf s" "list_all canonical (sf_order s)" "set (entries s) \<subseteq> set (sf_order s)"
      "sorted_wrt (<) (map fref_seq (sf_order s))" using assms by (auto simp: scope_inv_def)
  obtain b s' where e: "evictOldest s = (b, s')" by (cases "evictOldest s")
  show ?thesis
  proof (cases b)
    case False
    then show ?thesis using evict_refs_spec [OF pre] e by (simp add: evictOldest_def)
  next
    case True
    then obtain r where r: "r \<in> set (entries s)" "\<forall>x \<in> set (entries s). fref_seq r \<le> fref_seq x" "scope_wf s'"
        "set (entries s') = set (entries s) - {r}" "sf_count s' = sf_count s - 1"
        "suffix (sf_order s') (sf_order s)" "set (entries s') \<subseteq> set (sf_order s')"
      using evict_refs_spec [OF pre] e by (auto simp: evictOldest_def)
    have "length (entries s) = Suc (length (entries s'))"
      using distinct_card [OF distinct_entries [OF r(3)]] distinct_card [OF distinct_entries [OF pre(1)]]
        card_Suc_Diff1 [of "set (entries s)" r] r(1,4) by simp
    moreover obtain pre_refs where "sf_order s = pre_refs @ sf_order s'" using r(6) by (auto simp: suffix_def)
    ultimately have "scope_inv n s'" using assms r by (auto simp: scope_inv_def sorted_wrt_append)
    moreover have "length (sf_order s') < length (sf_order s)"
      using evict_refs_shorter e True by (auto simp: evictOldest_def)
    ultimately show ?thesis using e True r by auto
  qed
qed


text \<open>Filing an entry with a fresh sequence number.\<close>

lemma length_map_put: "int (length (map_put k v m)) = int (length m) + bump m k"
  by (induction m) (auto simp: bump_def)

lemma length_entries:
  "length (entries s) = length (sf_exact s) + length (sf_latest s) + length (sf_removals s) + length (sf_rvOnly s)
     + length (sf_byName s) + length (sf_collections s)"
  by (simp add: entries_def)

lemma scope_inv_filed:
  assumes inv: "scope_inv n s" and wf: "scope_wf s'" and r: "canonical r" and n': "fref_seq r = n'" "n < n'"
    and order: "sf_order s' = sf_order s @ [r]" and count: "sf_count s' = int (length (entries s'))"
    and live: "\<And>x. canonical x \<Longrightarrow> ref_live s' x \<Longrightarrow> ref_live s x \<or> x = r"
  shows "scope_inv n' s'"
proof -
  have "set (entries s') \<subseteq> set (entries s) \<union> {r}"
    using live inv by (auto simp: entries_live [OF wf] entries_live scope_inv_def)
  then show ?thesis using inv wf r n' count unfolding scope_inv_def order
    by (auto simp: sorted_wrt_append)
qed

lemmas put_defs = putExact_def putLatest_def putRemoval_def putRV_def putName_def putCollection_def

lemma put_live:
  "canonical x \<Longrightarrow> ref_live (putExact uid rv e s) x \<Longrightarrow> ref_live s x \<or> x = exact_ref uid rv (ixf_seq e)"
  "canonical x \<Longrightarrow> ref_live (putLatest uid e s) x \<Longrightarrow> ref_live s x \<or> x = latest_ref uid (ixf_seq e)"
  "canonical x \<Longrightarrow> ref_live (putRemoval uid e s) x \<Longrightarrow> ref_live s x \<or> x = removal_ref uid (ixf_seq e)"
  "canonical x \<Longrightarrow> ref_live (putRV rv e s) x \<Longrightarrow> ref_live s x \<or> x = rv_ref rv (ixf_seq e)"
  "canonical x \<Longrightarrow> ref_live (putName a b e s) x \<Longrightarrow> ref_live s x \<or> x = name_ref a b (ixf_seq e)"
  "canonical x \<Longrightarrow> ref_live (putCollection c s) x \<Longrightarrow> ref_live s x \<or> x = collection_ref (ixc_seq c)"
  by (auto simp: put_defs live_simps al.lookup_put split: if_splits elim!: canonical_cases)

lemma collections_below:
  assumes "scope_inv n s" and "c \<in> set (sf_collections s)"
  shows "ixc_seq c \<le> n"
proof -
  have "collection_ref (ixc_seq c) \<in> set (entries s)" using assms(2) by (auto simp: entries_def)
  then have "collection_ref (ixc_seq c) \<in> set (sf_order s)" using assms(1) by (auto simp: scope_inv_def)
  then show ?thesis using assms(1) by (force simp: scope_inv_def)
qed

lemma put_wf:
  assumes "scope_wf s"
  shows "scope_wf (putExact uid rv e s)" "scope_wf (putLatest uid e s)" "scope_wf (putRemoval uid e s)"
    "scope_wf (putRV rv e s)" "scope_wf (putName a b e s)"
    "ixc_seq c \<notin> ixc_seq ` set (sf_collections s) \<Longrightarrow> scope_wf (putCollection c s)"
  using assms by (auto simp: scope_wf_def put_defs)

lemma put_count:
  assumes "sf_count s = int (length (entries s))"
  shows "sf_count (putExact uid rv e s) = int (length (entries (putExact uid rv e s)))"
    "sf_count (putLatest uid e s) = int (length (entries (putLatest uid e s)))"
    "sf_count (putRemoval uid e s) = int (length (entries (putRemoval uid e s)))"
    "sf_count (putRV rv e s) = int (length (entries (putRV rv e s)))"
    "sf_count (putName a b e s) = int (length (entries (putName a b e s)))"
    "sf_count (putCollection c s) = int (length (entries (putCollection c s)))"
  using assms by (simp_all add: put_defs length_entries length_map_put)

lemma put_inv:
  assumes inv: "scope_inv n s" and n': "n < n'"
  shows "ixf_seq e = n' \<Longrightarrow> scope_inv n' (putExact uid rv e s)"
    and "ixf_seq e = n' \<Longrightarrow> scope_inv n' (putLatest uid e s)"
    and "ixf_seq e = n' \<Longrightarrow> scope_inv n' (putRemoval uid e s)"
    and "ixf_seq e = n' \<Longrightarrow> scope_inv n' (putRV rv e s)"
    and "ixf_seq e = n' \<Longrightarrow> scope_inv n' (putName a b e s)"
    and "ixc_seq c = n' \<Longrightarrow> scope_inv n' (putCollection c s)"
proof -
  have wf: "scope_wf s" and count: "sf_count s = int (length (entries s))" using inv by (auto simp: scope_inv_def)
  have order: "sf_order (putExact uid rv e s) = sf_order s @ [exact_ref uid rv (ixf_seq e)]"
      "sf_order (putLatest uid e s) = sf_order s @ [latest_ref uid (ixf_seq e)]"
      "sf_order (putRemoval uid e s) = sf_order s @ [removal_ref uid (ixf_seq e)]"
      "sf_order (putRV rv e s) = sf_order s @ [rv_ref rv (ixf_seq e)]"
      "sf_order (putName a b e s) = sf_order s @ [name_ref a b (ixf_seq e)]"
      "sf_order (putCollection c s) = sf_order s @ [collection_ref (ixc_seq c)]" by (simp_all add: put_defs)
  note filed = scope_inv_filed [OF inv put_wf(1) [OF wf] canonical_refs(1) _ n' order(1) put_count(1) [OF count] put_live(1)]
    scope_inv_filed [OF inv put_wf(2) [OF wf] canonical_refs(2) _ n' order(2) put_count(2) [OF count] put_live(2)]
    scope_inv_filed [OF inv put_wf(3) [OF wf] canonical_refs(3) _ n' order(3) put_count(3) [OF count] put_live(3)]
    scope_inv_filed [OF inv put_wf(4) [OF wf] canonical_refs(4) _ n' order(4) put_count(4) [OF count] put_live(4)]
    scope_inv_filed [OF inv put_wf(5) [OF wf] canonical_refs(5) _ n' order(5) put_count(5) [OF count] put_live(5)]
  show "ixf_seq e = n' \<Longrightarrow> scope_inv n' (putExact uid rv e s)" by (rule filed(1)) simp_all
  show "ixf_seq e = n' \<Longrightarrow> scope_inv n' (putLatest uid e s)" by (rule filed(2)) simp_all
  show "ixf_seq e = n' \<Longrightarrow> scope_inv n' (putRemoval uid e s)" by (rule filed(3)) simp_all
  show "ixf_seq e = n' \<Longrightarrow> scope_inv n' (putRV rv e s)" by (rule filed(4)) simp_all
  show "ixf_seq e = n' \<Longrightarrow> scope_inv n' (putName a b e s)" by (rule filed(5)) simp_all
  assume c: "ixc_seq c = n'"
  then have "ixc_seq c \<notin> ixc_seq ` set (sf_collections s)" using collections_below [OF inv] n' by fastforce
  then show "scope_inv n' (putCollection c s)"
    using scope_inv_filed [OF inv put_wf(6) [OF wf] canonical_refs(6) _ n' order(6) put_count(6) [OF count] put_live(6)] c
    by simp
qed


text \<open>Sweeping.\<close>

lemma map_of_filter_fresh:
  assumes "map_wf m"
  shows "map_get (filter (fresh cutoff) m) k =
     (case map_get m k of None \<Rightarrow> None | Some e \<Rightarrow> if ixf_at e < cutoff then None else Some e)"
  using assms by (induction m) (force simp: fresh_def split: option.splits dest: map_of_SomeD)+

lemma scope_sweep_inv:
  assumes inv: "scope_inv n s" and sw: "scope_sweep cutoff s = (removed, s')"
  shows "scope_inv n s'" and "sf_count s' = sf_count s - removed" and "sf_removals s' = sf_removals s"
proof -
  define t where "t = s\<lparr> sf_exact := filter (fresh cutoff) (sf_exact s), sf_latest := filter (fresh cutoff) (sf_latest s),
    sf_rvOnly := filter (fresh cutoff) (sf_rvOnly s), sf_byName := filter (fresh cutoff) (sf_byName s),
    sf_collections := filter (\<lambda>c. \<not> ixc_at c < cutoff) (sf_collections s), sf_count := sf_count s - removed \<rparr>"
  have s': "s' = compact t" and removed: "removed = int (length (entries s)) - int (length (entries t))"
    using sw by (auto simp: scope_sweep_def Let_def t_def length_entries)
  have wf: "scope_wf s" and count: "sf_count s = int (length (entries s))" using inv by (auto simp: scope_inv_def)
  have wft: "scope_wf t"
    using wf by (auto simp: scope_wf_def t_def distinct_map_filter)
  have "ref_live s x" if "canonical x" "ref_live t x" for x
    using that wf unfolding t_def
    by (auto simp: live_simps scope_wf_def map_of_filter_fresh split: option.splits if_splits elim!: canonical_cases)
  then have sub: "set (entries t) \<subseteq> set (entries s)" by (auto simp: entries_live [OF wf] entries_live [OF wft])
  have live: "ref_live t r" if "r \<in> set (entries t)" for r using that entries_live [OF wft] by simp
  have order: "sf_order t = sf_order s" and cnt: "sf_count t = sf_count s - removed" by (simp_all add: t_def)
  have filt: "sorted_wrt (<) (map fref_seq (filter P xs))" if "sorted_wrt (<) (map fref_seq xs)" for P xs
    using that by (induction xs) auto
  show "scope_inv n s'"
    using inv sub wft live removed count filt unfolding s' compact_def scope_inv_def order cnt
    by (auto simp: list_all_iff order cnt)
  show "sf_count s' = sf_count s - removed" "sf_removals s' = sf_removals s"
    by (simp_all add: s' compact_def t_def)
qed

lemma scope_empty_iff: "scope_inv n s \<Longrightarrow> scope_empty s \<longleftrightarrow> entries s = []"
  by (simp add: scope_inv_def scope_empty_def)

end
