(* ===== verification/Fact_Stream.thy ===== *)
theory Fact_Stream
  imports Fact_Store "HOL-Library.Product_Lexorder"
begin

text \<open>
  The transport of attribution facts (\<open>internal/queue\<close>: \<open>fact_stream.go\<close>, \<open>fact_stream_memory.go\<close>,
  \<open>fact_streams.go\<close>, \<open>key_prefix.go\<close>): positions, the followed set with its cursors, the in-process
  ring, and the reference-counted set of followed streams.

  A position is its text, as in the code. A batch is held as the list of its facts: what the JSON
  encoding adds is the refusal of a fact without an author when it is decoded. The mutexes make every
  operation one step, and the readings of the clock are arguments. The Redis transport is a client of
  a server outside the repository and is not modelled.
\<close>

section \<open>Numbers and times\<close>

definition Cut :: "string \<Rightarrow> char \<Rightarrow> string \<times> string \<times> bool" where
  "Cut s sep = (takeWhile (\<lambda>c. c \<noteq> sep) s, drop 1 (dropWhile (\<lambda>c. c \<noteq> sep) s), sep \<in> set s)"

definition MaxUint64 :: int where
  "MaxUint64 = 2 ^ 64 - 1"

definition MaxInt64 :: int where
  "MaxInt64 = 2 ^ 63 - 1"

text \<open>
  \<open>strconv.ParseUint\<close> with base 10 and 64 bits, its error ignored: a character that is no digit gives
  zero, a number out of range the largest value, whichever comes first.
\<close>

fun parse_digits :: "nat \<Rightarrow> string \<Rightarrow> nat" where
  "parse_digits n [] = n"
| "parse_digits n (c # cs) =
     (if \<not> (48 \<le> (of_char c :: nat) \<and> (of_char c :: nat) \<le> 57) then 0
      else let n' = 10 * n + (of_char c - 48) in
        if int n' > MaxUint64 then nat MaxUint64 else parse_digits n' cs)"

definition ParseUint :: "string \<Rightarrow> nat" where
  "ParseUint s = parse_digits 0 s"

text \<open>The Unix epoch, in nanoseconds since the zero time.\<close>

definition unix_epoch :: gotime where
  "unix_epoch = 62135596800 * Second"

definition time_UnixMilli :: "gotime \<Rightarrow> int" where
  "time_UnixMilli t = (t - unix_epoch) div 1000000"

definition UnixMilli :: "nat \<Rightarrow> gotime" where
  "UnixMilli n = unix_epoch + int n * 1000000"

section \<open>Positions\<close>

definition streamIDSeparator :: char where
  "streamIDSeparator = CHR ''-''"

definition parseStreamID :: "string \<Rightarrow> nat \<times> nat" where
  "parseStreamID pos = (case Cut pos streamIDSeparator of (m, s, _) \<Rightarrow> (ParseUint m, ParseUint s))"

definition streamIDAt :: "gotime \<Rightarrow> string" where
  "streamIDAt t = Itoa (nat (max 0 (time_UnixMilli t))) @ [streamIDSeparator] @ ''0''"

definition compareUint64 :: "nat \<Rightarrow> nat \<Rightarrow> int" where
  "compareUint64 a b = (if a < b then - 1 else if a > b then 1 else 0)"

definition compareStreamIDs :: "string \<Rightarrow> string \<Rightarrow> int" where
  "compareStreamIDs a b =
     (case (parseStreamID a, parseStreamID b) of
        ((am, as), (bm, bs)) \<Rightarrow> if am \<noteq> bm then compareUint64 am bm else compareUint64 as bs)"

section \<open>Streams and deliveries\<close>

definition groupResourceKey :: "string \<Rightarrow> string \<Rightarrow> string" where
  "groupResourceKey grp resource = (if grp = [] then resource else grp @ ''/'' @ resource)"

record FactStreamKey =
  fk_AuditRoute :: string
  fk_Group :: string
  fk_Resource :: string

definition key_groupResource :: "FactStreamKey \<Rightarrow> string" where
  "key_groupResource k = groupResourceKey (fk_Group k) (fk_Resource k)"

record FactEntry =
  fe_Key :: FactStreamKey
  fe_ID :: string
  fe_Facts :: "AuthorFact list"

record FactStreamGap =
  fg_Key :: FactStreamKey
  fg_Cursor :: string
  fg_FirstSurviving :: string

record FactDelivery =
  fd_Entries :: "FactEntry list"
  fd_Gaps :: "FactStreamGap list"

text \<open>\<open>AuthorFact.UnmarshalJSON\<close> refuses a fact that names nobody, and with it the whole entry.\<close>

definition decodeFactBatch :: "AuthorFact list \<Rightarrow> AuthorFact list option" where
  "decodeFactBatch raw = (if list_all (\<lambda>f. af_Author f \<noteq> []) raw then Some raw else None)"

section \<open>The followed set\<close>

record followState =
  fw_cursor :: string
  fw_behind :: bool
  fw_reportedGap :: string

record followTarget =
  ft_Key :: FactStreamKey
  ft_Cursor :: string
  ft_Behind :: bool

record followSet =
  fset_horizon :: duration
  fset_states :: "(FactStreamKey, followState) gomap"

definition follow_set :: "gotime \<Rightarrow> FactStreamKey list \<Rightarrow> followSet \<Rightarrow> followSet" where
  "follow_set now keys f =
     (let from = streamIDAt (now - fset_horizon f);
          kept = filter (\<lambda>(k, _). k \<in> set keys) (fset_states f)
      in f\<lparr> fset_states := fold (\<lambda>k m. if map_get m k = None
             then map_put k \<lparr> fw_cursor = from, fw_behind = False, fw_reportedGap = [] \<rparr> m else m) keys kept \<rparr>)"

definition newFollowSet :: "gotime \<Rightarrow> FactStreamKey list \<Rightarrow> duration \<Rightarrow> followSet" where
  "newFollowSet now keys horizon = follow_set now keys \<lparr> fset_horizon = horizon, fset_states = [] \<rparr>"

text \<open>The targets are sorted by route, then by group and resource.\<close>

definition targets :: "followSet \<Rightarrow> followTarget list" where
  "targets f =
     sort_key (\<lambda>t. fk_AuditRoute (ft_Key t))
       (sort_key (\<lambda>t. key_groupResource (ft_Key t))
         (map (\<lambda>(k, s). \<lparr> ft_Key = k, ft_Cursor = fw_cursor s, ft_Behind = fw_behind s \<rparr>) (fset_states f)))"

definition with_state :: "FactStreamKey \<Rightarrow> (followState \<Rightarrow> followState) \<Rightarrow> followSet \<Rightarrow> followSet" where
  "with_state key g f =
     (case map_get (fset_states f) key of
        None \<Rightarrow> f
      | Some state \<Rightarrow> f\<lparr> fset_states := map_put key (g state) (fset_states f) \<rparr>)"

definition advance :: "FactStreamKey \<Rightarrow> string \<Rightarrow> bool \<Rightarrow> followSet \<Rightarrow> followSet" where
  "advance key cursor behind =
     with_state key (\<lambda>state. state\<lparr> fw_cursor := cursor, fw_behind := behind,
       fw_reportedGap :=
         (if fw_reportedGap state \<noteq> [] \<and> compareStreamIDs cursor (fw_reportedGap state) \<ge> 0 then []
          else fw_reportedGap state) \<rparr>)"

definition caughtUp :: "FactStreamKey \<Rightarrow> followSet \<Rightarrow> followSet" where
  "caughtUp key = with_state key (\<lambda>state. state\<lparr> fw_behind := False \<rparr>)"

definition noteGap :: "FactStreamKey \<Rightarrow> string \<Rightarrow> followSet \<Rightarrow> bool \<times> followSet" where
  "noteGap key firstSurviving f =
     (case map_get (fset_states f) key of
        None \<Rightarrow> (False, f)
      | Some state \<Rightarrow>
          if fw_reportedGap state = firstSurviving then (False, f)
          else (True, with_state key (\<lambda>state. state\<lparr> fw_reportedGap := firstSurviving \<rparr>) f))"

definition forgetGaps :: "FactStreamGap list \<Rightarrow> followSet \<Rightarrow> followSet" where
  "forgetGaps gaps f =
     fold (\<lambda>gap. with_state (fg_Key gap)
       (\<lambda>state. if fw_reportedGap state = fg_FirstSurviving gap then state\<lparr> fw_reportedGap := [] \<rparr> else state)) gaps f"

definition gapIfTrimmedPast :: "followTarget \<Rightarrow> string \<Rightarrow> followSet \<Rightarrow> FactStreamGap option \<times> followSet" where
  "gapIfTrimmedPast target firstSurviving f =
     (if \<not> ft_Behind target \<or> firstSurviving = [] then (None, f)
      else if compareStreamIDs (ft_Cursor target) firstSurviving \<ge> 0 then (None, f)
      else case noteGap (ft_Key target) firstSurviving f of
             (False, f) \<Rightarrow> (None, f)
           | (True, f) \<Rightarrow> (Some \<lparr> fg_Key = ft_Key target, fg_Cursor = ft_Cursor target,
                                   fg_FirstSurviving = firstSurviving \<rparr>, f))"

section \<open>The in-process ring\<close>

record memFactEntry =
  me_id :: string
  me_at :: gotime
  me_raw :: "AuthorFact list"

record memFactRing =
  mr_entries :: "memFactEntry list"
  mr_lastMillis :: nat
  mr_lastSeq :: nat

definition ring_append :: "AuthorFact list \<Rightarrow> gotime \<Rightarrow> memFactRing \<Rightarrow> memFactRing" where
  "ring_append raw now r =
     (let millis = nat (max 0 (time_UnixMilli now));
          r = (if millis > mr_lastMillis r then r\<lparr> mr_lastMillis := millis, mr_lastSeq := 0 \<rparr>
               else r\<lparr> mr_lastSeq := mr_lastSeq r + 1 \<rparr>);
          pos = Itoa (mr_lastMillis r) @ [streamIDSeparator] @ Itoa (mr_lastSeq r)
      in r\<lparr> mr_entries := mr_entries r @ [\<lparr> me_id = pos, me_at = now, me_raw = raw \<rparr>] \<rparr>)"

definition ring_trim :: "gotime \<Rightarrow> int \<Rightarrow> memFactRing \<Rightarrow> memFactRing" where
  "ring_trim horizon maxLen r =
     (let old = length (takeWhile (\<lambda>e. me_at e < horizon) (mr_entries r));
          excess = int (length (mr_entries r)) - int old - maxLen
      in r\<lparr> mr_entries := drop (if maxLen > 0 \<and> excess > 0 then old + nat excess else old) (mr_entries r) \<rparr>)"

definition ring_read :: "string \<Rightarrow> nat \<Rightarrow> memFactRing \<Rightarrow> memFactEntry list \<times> string" where
  "ring_read cursor limit r =
     (case mr_entries r of
        [] \<Rightarrow> ([], [])
      | e # _ \<Rightarrow> (take limit (filter (\<lambda>e. compareStreamIDs (me_id e) cursor > 0) (mr_entries r)), me_id e))"

record MemoryFactStream =
  ms_ttl :: duration
  ms_maxLen :: int
  ms_readCount :: nat
  ms_streams :: "(FactStreamKey, memFactRing) gomap"

definition DefaultAttributionFactTTL :: duration where
  "DefaultAttributionFactTTL = 10 * 60 * Second"

definition DefaultFactStreamMaxLen :: int where
  "DefaultFactStreamMaxLen = 10000"

definition DefaultFactStreamReadCount :: int where
  "DefaultFactStreamReadCount = 512"

definition NewMemoryFactStream :: "duration \<Rightarrow> int \<Rightarrow> int \<Rightarrow> MemoryFactStream" where
  "NewMemoryFactStream ttl maxLen readCount =
     \<lparr> ms_ttl = (if ttl \<le> 0 then DefaultAttributionFactTTL else ttl),
       ms_maxLen = (if maxLen = 0 then DefaultFactStreamMaxLen else maxLen),
       ms_readCount = nat (if readCount \<le> 0 then DefaultFactStreamReadCount else readCount),
       ms_streams = [] \<rparr>"

definition empty_ring :: memFactRing where
  "empty_ring = \<lparr> mr_entries = [], mr_lastMillis = 0, mr_lastSeq = 0 \<rparr>"

definition dropIdleRings :: "gotime \<Rightarrow> MemoryFactStream \<Rightarrow> MemoryFactStream" where
  "dropIdleRings now m =
     m\<lparr> ms_streams := filter (\<lambda>(_, r). mr_entries r \<noteq> [])
          (map (\<lambda>(k, r). (k, ring_trim (now - ms_ttl m) (ms_maxLen m) r)) (ms_streams m)) \<rparr>"

text \<open>\<open>cancelled\<close> is whether the context has ended.\<close>

definition PublishFacts ::
  "bool \<Rightarrow> gotime \<Rightarrow> FactStreamKey \<Rightarrow> AuthorFact list \<Rightarrow> MemoryFactStream \<Rightarrow> bool \<times> MemoryFactStream" where
  "PublishFacts cancelled now key facts m =
     (if facts = [] then (True, m)
      else if cancelled then (False, m)
      else
        (let ring = (case map_get (ms_streams m) key of None \<Rightarrow> empty_ring | Some r \<Rightarrow> r);
             ring = ring_trim (now - ms_ttl m) (ms_maxLen m) (ring_append facts now ring)
         in (True, dropIdleRings now (m\<lparr> ms_streams := map_put key ring (ms_streams m) \<rparr>))))"

definition readRing :: "FactStreamKey \<Rightarrow> string \<Rightarrow> MemoryFactStream \<Rightarrow> memFactEntry list \<times> string" where
  "readRing key cursor m =
     (case map_get (ms_streams m) key of None \<Rightarrow> ([], []) | Some r \<Rightarrow> ring_read cursor (ms_readCount m) r)"

definition decoded :: "FactStreamKey \<Rightarrow> memFactEntry list \<Rightarrow> FactEntry list" where
  "decoded key es =
     concat (map (\<lambda>e. case decodeFactBatch (me_raw e) of
                        None \<Rightarrow> []
                      | Some facts \<Rightarrow> [\<lparr> fe_Key = key, fe_ID = me_id e, fe_Facts = facts \<rparr>]) es)"

definition collect_one ::
  "MemoryFactStream \<Rightarrow> followTarget \<Rightarrow> FactDelivery \<times> followSet \<Rightarrow> FactDelivery \<times> followSet" where
  "collect_one m target = (\<lambda>(d, f).
     case readRing (ft_Key target) (ft_Cursor target) m of
       (es, oldest) \<Rightarrow>
         (case gapIfTrimmedPast target oldest f of
            (gap, f) \<Rightarrow>
              (let d = (case gap of None \<Rightarrow> d | Some g \<Rightarrow> d\<lparr> fd_Gaps := fd_Gaps d @ [g] \<rparr>) in
               if es = [] then (d, caughtUp (ft_Key target) f)
               else (d\<lparr> fd_Entries := fd_Entries d @ decoded (ft_Key target) es \<rparr>,
                     advance (ft_Key target) (me_id (last es)) (length es \<ge> ms_readCount m) f))))"

definition collect :: "MemoryFactStream \<Rightarrow> followSet \<Rightarrow> FactDelivery \<times> followSet" where
  "collect m f = fold (collect_one m) (targets f) (\<lparr> fd_Entries = [], fd_Gaps = [] \<rparr>, f)"

text \<open>
  \<open>Next\<close>: what the wait of each round ends with, the transport as it is when the next round reads it and
  whether the context has ended by then. An answer of \<open>None\<close> is the error of an ended context.
\<close>

datatype next_wake = WakeSignal bool MemoryFactStream | WakeTimeout | WakeDone

fun Next :: "bool \<Rightarrow> MemoryFactStream \<Rightarrow> next_wake list \<Rightarrow> followSet \<Rightarrow> FactDelivery option \<times> followSet" where
  "Next cancelled m wakes f =
     (if cancelled then (None, f)
      else case collect m f of
        (d, f) \<Rightarrow>
          if fd_Entries d \<noteq> [] \<or> fd_Gaps d \<noteq> [] then (Some d, f)
          else case wakes of
                 WakeSignal cancelled m' # ws \<Rightarrow> Next cancelled m' ws f
               | WakeDone # ws \<Rightarrow> (None, f)
               | _ \<Rightarrow> (Some \<lparr> fd_Entries = [], fd_Gaps = [] \<rparr>, f))"

declare Next.simps [simp del]

section \<open>The set of followed streams\<close>

text \<open>The observer is called with the keys whenever the set changes: the calls are the output.\<close>

record FactStreamSet =
  fss_counts :: "(FactStreamKey, nat) gomap"
  fss_observed :: bool

definition NewFactStreamSet :: FactStreamSet where
  "NewFactStreamSet = \<lparr> fss_counts = [], fss_observed = False \<rparr>"

definition keysLocked :: "FactStreamSet \<Rightarrow> FactStreamKey list" where
  "keysLocked s = sort_key fk_AuditRoute (sort_key key_groupResource (map fst (fss_counts s)))"

definition notifyLocked :: "bool \<Rightarrow> FactStreamSet \<Rightarrow> FactStreamKey list option" where
  "notifyLocked changed s = (if \<not> changed \<or> \<not> fss_observed s then None else Some (keysLocked s))"

definition Acquire :: "FactStreamKey \<Rightarrow> FactStreamSet \<Rightarrow> FactStreamKey list option \<times> FactStreamSet" where
  "Acquire key s =
     (let n = (case map_get (fss_counts s) key of None \<Rightarrow> 0 | Some n \<Rightarrow> n) + 1;
          s = s\<lparr> fss_counts := map_put key n (fss_counts s) \<rparr>
      in (notifyLocked (n = 1) s, s))"

definition release :: "FactStreamKey \<Rightarrow> FactStreamSet \<Rightarrow> FactStreamKey list option \<times> FactStreamSet" where
  "release key s =
     (case map_get (fss_counts s) key of
        None \<Rightarrow> (None, s)
      | Some n \<Rightarrow>
          if n > 1 then (let s = s\<lparr> fss_counts := map_put key (n - 1) (fss_counts s) \<rparr> in (notifyLocked False s, s))
          else (let s = s\<lparr> fss_counts := map_del key (fss_counts s) \<rparr> in (notifyLocked True s, s)))"

definition Observe :: "bool \<Rightarrow> FactStreamSet \<Rightarrow> FactStreamKey list option \<times> FactStreamSet" where
  "Observe observe s = (let s = s\<lparr> fss_observed := observe \<rparr> in (notifyLocked observe s, s))"

section \<open>Positions are ordered pairs\<close>

lemma parse_digits_Itoa:
  assumes "int n \<le> MaxUint64"
  shows "parse_digits 0 (Itoa n @ cs) = parse_digits n cs"
  using assms
proof (induction n arbitrary: cs rule: Itoa.induct)
  case (1 n)
  have digit: "(of_char (digit_char d) :: nat) = 48 + d" if "d < 10" for d
    using that by (simp add: digit_char_def)
  show ?case
  proof (cases "n < 10")
    case True
    then show ?thesis using 1(2) by (simp add: Itoa.simps [of n] digit Let_def)
  next
    case False
    have le: "int (n div 10) \<le> MaxUint64" using 1(2) by simp
    have "parse_digits 0 (Itoa n @ cs) = parse_digits (n div 10) (digit_char (n mod 10) # cs)"
      using "1.IH" [OF False le, of "digit_char (n mod 10) # cs"] False by (simp add: Itoa.simps [of n])
    also have "10 * (n div 10) + n mod 10 = n" "n mod 10 \<le> 9" by presburger+
    then have "parse_digits (n div 10) (digit_char (n mod 10) # cs) = parse_digits n cs"
      using 1(2) by (simp add: digit Let_def)
    finally show ?thesis .
  qed
qed

lemma ParseUint_Itoa: "int n \<le> MaxUint64 \<Longrightarrow> ParseUint (Itoa n) = n"
  using parse_digits_Itoa [of n "[]"] by (simp add: ParseUint_def)

lemma sep_not_digit: "streamIDSeparator \<notin> set (Itoa n)"
  by (rule Itoa_no_char) (simp add: streamIDSeparator_def)

lemma parseStreamID_print:
  assumes "int m \<le> MaxUint64" and "int s \<le> MaxUint64"
  shows "parseStreamID (Itoa m @ [streamIDSeparator] @ Itoa s) = (m, s)"
proof -
  have "takeWhile (\<lambda>c. c \<noteq> streamIDSeparator) (Itoa m @ [streamIDSeparator] @ Itoa s) = Itoa m"
    and "dropWhile (\<lambda>c. c \<noteq> streamIDSeparator) (Itoa m @ [streamIDSeparator] @ Itoa s) = [streamIDSeparator] @ Itoa s"
    using sep_not_digit [of m] by (auto simp: takeWhile_append dropWhile_append takeWhile_eq_all_conv)
  then show ?thesis using assms by (simp add: parseStreamID_def Cut_def ParseUint_Itoa)
qed

lemma compareStreamIDs_order:
  "compareStreamIDs a b =
     (if parseStreamID a < parseStreamID b then - 1 else if parseStreamID b < parseStreamID a then 1 else 0)"
  by (cases "parseStreamID a"; cases "parseStreamID b")
    (auto simp: compareStreamIDs_def compareUint64_def less_prod_def)

abbreviation position :: "memFactEntry \<Rightarrow> nat \<times> nat" where
  "position e \<equiv> parseStreamID (me_id e)"

text \<open>The ring assigns increasing positions, up to the range of a 64-bit number.\<close>

definition in_range :: "memFactRing \<Rightarrow> bool" where
  "in_range r \<longleftrightarrow> int (mr_lastMillis r) \<le> MaxInt64 \<and> int (mr_lastSeq r) \<le> MaxInt64"

lemma ring_append_form:
  assumes "in_range (ring_append raw now r)"
  obtains e where "mr_entries (ring_append raw now r) = mr_entries r @ [e]"
    and "position e = (mr_lastMillis (ring_append raw now r), mr_lastSeq (ring_append raw now r))"
    and "(mr_lastMillis r, mr_lastSeq r) < position e" and "me_raw e = raw" and "me_at e = now"
proof -
  have le: "MaxInt64 \<le> MaxUint64" by (simp add: MaxInt64_def MaxUint64_def)
  define e where "e = last (mr_entries (ring_append raw now r))"
  have "mr_entries (ring_append raw now r) = mr_entries r @ [e]" "me_raw e = raw" "me_at e = now"
    by (simp_all add: e_def ring_append_def Let_def)
  moreover have pos: "position e = (mr_lastMillis (ring_append raw now r), mr_lastSeq (ring_append raw now r))"
  proof -
    have "me_id e = Itoa (mr_lastMillis (ring_append raw now r)) @ [streamIDSeparator]
        @ Itoa (mr_lastSeq (ring_append raw now r))" by (simp add: e_def ring_append_def Let_def)
    then show ?thesis using parseStreamID_print assms le by (simp add: in_range_def)
  qed
  moreover have "(mr_lastMillis r, mr_lastSeq r) < position e"
    unfolding pos by (auto simp: ring_append_def Let_def less_prod_def)
  ultimately show ?thesis using that by blast
qed

section \<open>What one ring holds for a follower\<close>

text \<open>
  The ring of one stream (if there is one), the log of everything appended to the stream, a cursor,
  what was read up to it and what the retention took above it. \<open>start\<close> is the position the cursor
  began at, \<open>t\<close> the last reading of the clock, \<open>n\<close> bounds the sequence half of a position.
\<close>

definition entries_in :: "memFactRing option \<Rightarrow> memFactEntry list" where
  "entries_in R = (case R of None \<Rightarrow> [] | Some r \<Rightarrow> mr_entries r)"

abbreviation above_cursor :: "nat \<times> nat \<Rightarrow> memFactEntry list \<Rightarrow> memFactEntry list" where
  "above_cursor cur es \<equiv> filter (\<lambda>e. cur < position e) es"

definition stamp_ok :: "gotime \<Rightarrow> memFactEntry \<Rightarrow> bool" where
  "stamp_ok t e \<longleftrightarrow> unix_epoch \<le> me_at e \<and> me_at e \<le> t \<and> fst (position e) = nat (time_UnixMilli (me_at e))"

definition ring_view ::
  "nat \<times> nat \<Rightarrow> nat \<times> nat \<Rightarrow> gotime \<Rightarrow> nat \<Rightarrow> memFactRing option \<Rightarrow> memFactEntry list \<Rightarrow> memFactEntry list
   \<Rightarrow> memFactEntry list \<Rightarrow> bool" where
  "ring_view start cur t n R log rd lost \<longleftrightarrow>
     sorted_wrt (<) (map position log) \<and> (\<forall>e \<in> set log. stamp_ok t e)
     \<and> (case R of
          None \<Rightarrow> \<forall>e \<in> set log. time_UnixMilli (me_at e) < time_UnixMilli t
        | Some r \<Rightarrow> mr_entries r \<noteq> [] \<and> suffix (mr_entries r) log
            \<and> position (last log) = (mr_lastMillis r, mr_lastSeq r) \<and> mr_lastSeq r \<le> n)
     \<and> (cur = start \<or> start < cur \<and> cur \<in> position ` set log)
     \<and> set lost \<subseteq> set log
     \<and> rd @ above_cursor cur (entries_in R) = filter (\<lambda>e. start < position e \<and> e \<notin> set lost) log"

lemma distinct_log: "sorted_wrt (<) (map position es) \<Longrightarrow> distinct es"
  by (induction es) auto

lemma filter_middle: "distinct (xs @ ys @ zs) \<Longrightarrow> filter (\<lambda>e. e \<notin> set ys) (xs @ ys @ zs) = xs @ zs"
proof -
  assume "distinct (xs @ ys @ zs)"
  then have "filter (\<lambda>e. e \<notin> set ys) xs = xs" "filter (\<lambda>e. e \<notin> set ys) zs = zs"
    by (auto simp: filter_id_conv)
  then show ?thesis by (simp add: filter_empty_conv)
qed

lemma sorted_last:
  fixes f :: "'a \<Rightarrow> 'b :: linorder"
  assumes "sorted_wrt (<) (map f xs)" and "x \<in> set xs"
  shows "f x \<le> f (last xs)"
  using assms by (induction xs rule: rev_induct) (auto simp: sorted_wrt_append less_imp_le)

lemma UnixMilli_mono: "t \<le> t' \<Longrightarrow> time_UnixMilli t \<le> time_UnixMilli t'"
  unfolding time_UnixMilli_def by (intro zdiv_mono1) simp_all

lemma UnixMilli_epoch: "unix_epoch \<le> t \<Longrightarrow> 0 \<le> time_UnixMilli t"
  unfolding time_UnixMilli_def by (simp add: pos_imp_zdiv_nonneg_iff)

lemma UnixMilli_later: "t + 1000000 \<le> t' \<Longrightarrow> time_UnixMilli t < time_UnixMilli t'"
proof -
  assume "t + 1000000 \<le> t'"
  then have "time_UnixMilli (t + 1000000) \<le> time_UnixMilli t'" by (rule UnixMilli_mono)
  moreover have "time_UnixMilli (t + 1000000) = time_UnixMilli t + 1"
    using div_add_self2 [of 1000000 "t - unix_epoch"] by (simp add: time_UnixMilli_def algebra_simps)
  ultimately show ?thesis by simp
qed

lemma ring_view_mono:
  assumes "ring_view start cur t n R log rd lost" and "t \<le> t'" and "n \<le> n'"
  shows "ring_view start cur t' n' R log rd lost"
  using assms UnixMilli_mono [OF assms(2)] unfolding ring_view_def stamp_ok_def
  by (auto split: option.splits dest: order.trans intro: order.strict_trans2)

text \<open>A follower that starts later sees what the ring still holds.\<close>

lemma ring_view_restart:
  assumes "ring_view start cur t n R log rd lost"
  shows "ring_view start' start' t n R (entries_in R) [] []"
proof (cases R)
  case None
  then show ?thesis by (simp add: ring_view_def entries_in_def)
next
  case (Some r)
  with assms have r: "mr_entries r \<noteq> []" "suffix (mr_entries r) log" "sorted_wrt (<) (map position log)"
      "\<forall>e \<in> set log. stamp_ok t e"
    by (auto simp: ring_view_def)
  then obtain old where log: "log = old @ mr_entries r" by (auto simp: suffix_def)
  with r(1) have "last log = last (mr_entries r)" by simp
  then show ?thesis using assms r log Some by (auto simp: ring_view_def entries_in_def sorted_wrt_append)
qed

text \<open>An append goes above everything in the log.\<close>

lemma append_above:
  assumes inv: "ring_view start cur t n R log rd lost" and t: "t \<le> now" "unix_epoch \<le> now"
    and range: "time_UnixMilli now \<le> MaxInt64" "int (Suc n) \<le> MaxInt64"
    and r: "r = ring_append raw now (case R of None \<Rightarrow> empty_ring | Some r \<Rightarrow> r)"
  obtains e where "mr_entries r = entries_in R @ [e]" and "position e = (mr_lastMillis r, mr_lastSeq r)"
    and "me_raw e = raw" and "stamp_ok now e" and "mr_lastSeq r \<le> Suc n" and "\<forall>x \<in> set log. position x < position e"
proof -
  let ?r = "case R of None \<Rightarrow> empty_ring | Some r \<Rightarrow> r"
  have now: "0 \<le> time_UnixMilli now" "time_UnixMilli t \<le> time_UnixMilli now"
    using UnixMilli_epoch [OF t(2)] UnixMilli_mono [OF t(1)] .
  have log: "\<forall>x \<in> set log. fst (position x) = nat (time_UnixMilli (me_at x)) \<and> 0 \<le> time_UnixMilli (me_at x)
      \<and> time_UnixMilli (me_at x) \<le> time_UnixMilli t"
    using inv UnixMilli_epoch UnixMilli_mono by (auto simp: ring_view_def stamp_ok_def)
  have last: "mr_lastMillis ?r \<le> nat (time_UnixMilli now) \<and> mr_lastSeq ?r \<le> n"
  proof (cases R)
    case (Some r')
    with inv have "log \<noteq> []" "position (last log) = (mr_lastMillis r', mr_lastSeq r')" "mr_lastSeq r' \<le> n"
      by (auto simp: ring_view_def)
    moreover then have "fst (position (last log)) \<le> nat (time_UnixMilli now)" using log now by (metis last_in_set nat_mono order.trans)
    ultimately show ?thesis using Some by simp
  qed (simp add: empty_ring_def)
  then have millis: "mr_lastMillis r = nat (time_UnixMilli now)" and seq: "mr_lastSeq r \<le> Suc n"
    using now(1) by (auto simp: r ring_append_def Let_def)
  then have "in_range r" using range now(1) by (auto simp: in_range_def)
  then obtain e where e: "mr_entries r = mr_entries ?r @ [e]" "position e = (mr_lastMillis r, mr_lastSeq r)"
      "(mr_lastMillis ?r, mr_lastSeq ?r) < position e" "me_raw e = raw" "me_at e = now"
    unfolding r by (rule ring_append_form)
  have "position x < position e" if x: "x \<in> set log" for x
  proof (cases R)
    case None
    then have "time_UnixMilli (me_at x) < time_UnixMilli t" using inv x by (auto simp: ring_view_def)
    then have "fst (position x) < nat (time_UnixMilli now)" using log x now by (auto simp: nat_less_iff)
    then show ?thesis using e(2) millis by (auto simp: less_prod_def)
  next
    case (Some r')
    then have "position x \<le> (mr_lastMillis r', mr_lastSeq r')"
      using inv x sorted_last [of position log x] by (auto simp: ring_view_def)
    then show ?thesis using e(3) Some by (simp add: order.strict_trans1)
  qed
  moreover have "stamp_ok now e" using e(2,5) millis t by (simp add: stamp_ok_def)
  moreover have "mr_entries ?r = entries_in R" by (simp add: entries_in_def empty_ring_def split: option.splits)
  ultimately show ?thesis using that e seq by metis
qed

lemma ring_view_append:
  assumes inv: "ring_view start cur t n R log rd lost" and t: "t \<le> now" "unix_epoch \<le> now"
    and range: "time_UnixMilli now \<le> MaxInt64" "int (Suc n) \<le> MaxInt64"
    and r: "r = ring_append raw now (case R of None \<Rightarrow> empty_ring | Some r \<Rightarrow> r)"
  shows "ring_view start cur now (Suc n) (Some r) (log @ [last (mr_entries r)]) rd lost"
proof (rule append_above [OF assms])
  fix e assume e: "mr_entries r = entries_in R @ [e]" "position e = (mr_lastMillis r, mr_lastSeq r)"
    "stamp_ok now e" "mr_lastSeq r \<le> Suc n" "\<forall>x \<in> set log. position x < position e"
  have cur: "cur = start \<or> start < cur \<and> cur \<in> position ` set log" and lost: "set lost \<subseteq> set log"
    using inv by (simp_all add: ring_view_def)
  have "suffix (entries_in R) log" using inv by (auto simp: ring_view_def entries_in_def split: option.splits)
  then have "suffix (entries_in R @ [e]) (log @ [e])" by (auto simp: suffix_def)
  moreover have "cur < position e \<longleftrightarrow> start < position e" using cur e(5) by (auto dest: order.strict_trans)
  moreover have "e \<notin> set lost" using lost e(5) by blast
  moreover have "\<forall>x \<in> set log. stamp_ok now x" using inv t(1) by (auto simp: ring_view_def stamp_ok_def)
  ultimately show ?thesis
    using inv e lost cur by (auto simp: ring_view_def entries_in_def sorted_wrt_append)
qed

text \<open>Trimming takes a prefix, and empties a ring only when its last entry is past the horizon.\<close>

definition trimmed :: "gotime \<Rightarrow> memFactRing \<Rightarrow> memFactRing \<Rightarrow> bool" where
  "trimmed h r r' \<longleftrightarrow> suffix (mr_entries r') (mr_entries r)
     \<and> mr_lastMillis r' = mr_lastMillis r \<and> mr_lastSeq r' = mr_lastSeq r
     \<and> (mr_entries r \<noteq> [] \<and> mr_entries r' = [] \<longrightarrow> me_at (last (mr_entries r)) < h)"

lemma trim_trimmed: "trimmed h r (ring_trim h maxLen r)"
proof -
  define old where "old = length (takeWhile (\<lambda>e. me_at e < h) (mr_entries r))"
  define k where "k = (if maxLen > 0 \<and> int (length (mr_entries r)) - int old - maxLen > 0
    then old + nat (int (length (mr_entries r)) - int old - maxLen) else old)"
  have es: "mr_entries (ring_trim h maxLen r) = drop k (mr_entries r)"
    by (simp add: ring_trim_def Let_def k_def old_def)
  have "me_at (last (mr_entries r)) < h" if "mr_entries r \<noteq> []" "drop k (mr_entries r) = []"
  proof -
    have "length (mr_entries r) \<le> old" using that(2) by (auto simp: k_def split: if_splits)
    then have "takeWhile (\<lambda>e. me_at e < h) (mr_entries r) = mr_entries r"
      unfolding old_def by (metis length_takeWhile_le le_antisym takeWhile_eq_take take_all_iff)
    then show ?thesis using that(1) by (metis last_in_set set_takeWhileD)
  qed
  then show ?thesis by (simp add: trimmed_def es suffix_drop) (simp add: ring_trim_def Let_def)
qed

lemma trimmed_trans:
  assumes "trimmed h r r'" and "trimmed h r' r''"
  shows "trimmed h r r''"
  using assms by (auto simp: trimmed_def suffix_def)

definition ring_left :: "memFactRing \<Rightarrow> memFactRing option" where
  "ring_left r = (if mr_entries r = [] then None else Some r)"

lemma entries_in_left [simp]: "entries_in (ring_left r) = mr_entries r"
  by (simp add: entries_in_def ring_left_def)

lemma ring_view_trim:
  assumes inv: "ring_view start cur t n (Some r) log rd lost" and tr: "trimmed h r r'"
    and now: "t \<le> now" "h + 1000000 \<le> now"
    and gone: "gone = take (length (mr_entries r) - length (mr_entries r')) (mr_entries r)"
  shows "ring_view start cur now n (ring_left r') log rd (lost @ above_cursor cur gone)"
proof -
  have split: "mr_entries r = gone @ mr_entries r'" using tr gone by (auto simp: trimmed_def suffix_def)
  obtain old where log: "log = old @ gone @ mr_entries r'"
    using inv split by (auto simp: ring_view_def suffix_def)
  have sorted: "sorted_wrt (<) (map position log)" and ne: "mr_entries r \<noteq> []" and st: "\<forall>e \<in> set log. stamp_ok t e"
    and lost: "set lost \<subseteq> set log"
    using inv by (auto simp: ring_view_def)
  have last: "last log = last (mr_entries r)" using log split ne by (metis last_appendR)
  have eq: "rd @ above_cursor cur gone @ above_cursor cur (mr_entries r') = filter (\<lambda>e. start < position e \<and> e \<notin> set lost) log"
    using inv by (simp add: ring_view_def entries_in_def split)
  have "rd @ above_cursor cur (mr_entries r') =
      filter (\<lambda>e. e \<notin> set (above_cursor cur gone)) (rd @ above_cursor cur gone @ above_cursor cur (mr_entries r'))"
    by (rule filter_middle [symmetric]) (use distinct_log [OF sorted] in \<open>simp add: eq\<close>)
  then have main: "rd @ above_cursor cur (mr_entries r') = filter (\<lambda>e. start < position e \<and> e \<notin> set (lost @ above_cursor cur gone)) log"
    unfolding eq by (simp add: conj_ac)
  have old: "time_UnixMilli (me_at e) < time_UnixMilli now" if e: "e \<in> set log" "mr_entries r' = []" for e
  proof -
    have "me_at (last log) < h" using tr e(2) ne last by (auto simp: trimmed_def)
    then have "time_UnixMilli (me_at (last log)) < time_UnixMilli now" using now(2) by (intro UnixMilli_later) simp
    moreover have "fst (position e) \<le> fst (position (last log))"
      using sorted_last [OF sorted e(1)] by (auto simp: less_eq_prod_def)
    moreover have "last log \<in> set log" using e(1) by (cases log) auto
    ultimately show ?thesis using st e(1) UnixMilli_epoch by (auto simp: stamp_ok_def nat_le_eq_zle)
  qed
  have "\<forall>e \<in> set log. stamp_ok now e" using st now(1) by (auto simp: stamp_ok_def)
  moreover have "set (above_cursor cur gone) \<subseteq> set log" "suffix (mr_entries r') log" using log by (auto simp: suffix_def)
  moreover have "mr_lastMillis r' = mr_lastMillis r" "mr_lastSeq r' = mr_lastSeq r" using tr by (simp_all add: trimmed_def)
  ultimately show ?thesis
    using inv main old lost by (cases "mr_entries r' = []") (auto simp: ring_view_def ring_left_def entries_in_def)
qed

lemma filter_after_take:
  fixes f :: "'a \<Rightarrow> 'b :: linorder"
  assumes "sorted_wrt (<) (map f xs)" and "es = take k xs" and "es \<noteq> []"
  shows "filter (\<lambda>x. f (last es) < f x) xs = drop k xs"
proof -
  have "sorted_wrt (<) (map f (es @ drop k xs))" using assms(1,2) by (simp flip: map_append)
  then have s: "sorted_wrt (<) (map f es)" "\<forall>x \<in> set es. \<forall>y \<in> set (drop k xs). f x < f y"
    by (auto simp: sorted_wrt_append)
  then have "filter (\<lambda>x. f (last es) < f x) es = []"
    using sorted_last [OF s(1)] by (auto simp: filter_empty_conv not_less)
  moreover have "filter (\<lambda>x. f (last es) < f x) (drop k xs) = drop k xs"
    using s(2) assms(3) by (auto simp: filter_id_conv)
  moreover have "xs = es @ drop k xs" using assms(2) by simp
  ultimately show ?thesis by (metis append_Nil filter_append)
qed

lemma ring_view_read:
  assumes inv: "ring_view start cur t n R log rd lost" and es: "es = take c (above_cursor cur (entries_in R))"
  shows "ring_view start (if es = [] then cur else position (last es)) t n R log (rd @ es) lost"
proof (cases "es = []")
  case True
  then show ?thesis using inv by simp
next
  case False
  have sub: "suffix (entries_in R) log" using inv by (auto simp: ring_view_def entries_in_def split: option.splits)
  then have "sorted_wrt (<) (map position (entries_in R))"
    using inv by (auto simp: ring_view_def suffix_def sorted_wrt_append)
  then have "sorted_wrt (<) (map position (above_cursor cur (entries_in R)))"
    by (simp add: sorted_wrt_map sorted_wrt_filter)
  from filter_after_take [OF this es False]
  have rest: "filter (\<lambda>e. position (last es) < position e) (above_cursor cur (entries_in R)) = drop c (above_cursor cur (entries_in R))" .
  have last: "last es \<in> set (above_cursor cur (entries_in R))" using False unfolding es by (meson in_set_takeD last_in_set)
  then have "filter (\<lambda>e. position (last es) < position e) (above_cursor cur (entries_in R)) = above_cursor (position (last es)) (entries_in R)"
    by (auto intro!: filter_cong dest: order.strict_trans)
  then have "rd @ es @ above_cursor (position (last es)) (entries_in R) = rd @ above_cursor cur (entries_in R)"
    using rest es by simp
  moreover have "last es \<in> set log" using last sub by (auto simp: suffix_def)
  moreover have "start < position (last es)" using inv last by (auto simp: ring_view_def dest: order.strict_trans)
  ultimately show ?thesis using inv False by (auto simp: ring_view_def)
qed

section \<open>Publishing, ring by ring\<close>

lemma map_get_filter_map:
  assumes "map_wf m"
  shows "map_get (filter (\<lambda>(_, v). P v) (map (\<lambda>(k, v). (k, g v)) m)) key =
     (case map_get m key of None \<Rightarrow> None | Some v \<Rightarrow> if P (g v) then Some (g v) else None)"
  using assms
proof (induction m)
  case (Cons p m)
  obtain k v where p: "p = (k, v)" by (cases p)
  show ?case
  proof (cases "k = key")
    case True
    then have "map_get m key = None" using Cons.prems p by (simp add: map_of_eq_None_iff)
    then show ?thesis using Cons p True by simp
  qed (use Cons p in simp)
qed simp

lemma map_wf_filter_map: "map_wf m \<Longrightarrow> map_wf (filter (\<lambda>(_, v). P v) (map (\<lambda>(k, v). (k, g v)) m))"
  by (induction m) (auto simp: image_iff)

text \<open>What a batch published on the stream \<open>k\<close> does to the ring of \<open>key\<close>, before any trimming.\<close>

definition ring_written :: "FactStreamKey \<Rightarrow> FactStreamKey \<Rightarrow> AuthorFact list \<Rightarrow> gotime \<Rightarrow> memFactRing option \<Rightarrow> memFactRing option" where
  "ring_written key k facts now R =
     (if k = key then Some (ring_append facts now (case R of None \<Rightarrow> empty_ring | Some r \<Rightarrow> r)) else R)"

lemma PublishFacts_rings:
  assumes wf: "map_wf (ms_streams m)" and facts: "facts \<noteq> []"
    and p: "m' = snd (PublishFacts False now k facts m)"
  shows "map_wf (ms_streams m')" and "ms_ttl m' = ms_ttl m" and "ms_maxLen m' = ms_maxLen m"
    and "ms_readCount m' = ms_readCount m"
    and "case ring_written key k facts now (map_get (ms_streams m) key) of
           None \<Rightarrow> map_get (ms_streams m') key = None
         | Some r \<Rightarrow> \<exists>r'. trimmed (now - ms_ttl m) r r' \<and> map_get (ms_streams m') key = ring_left r'"
proof -
  let ?t = "ring_trim (now - ms_ttl m) (ms_maxLen m)"
  let ?ring = "?t (ring_append facts now (case map_get (ms_streams m) k of None \<Rightarrow> empty_ring | Some r \<Rightarrow> r))"
  have m': "m' = m\<lparr> ms_streams := filter (\<lambda>(_, r). mr_entries r \<noteq> []) (map (\<lambda>(k, r). (k, ?t r)) (map_put k ?ring (ms_streams m))) \<rparr>"
    using facts by (simp add: p PublishFacts_def dropIdleRings_def Let_def)
  show "map_wf (ms_streams m')" "ms_ttl m' = ms_ttl m" "ms_maxLen m' = ms_maxLen m" "ms_readCount m' = ms_readCount m"
    using map_wf_filter_map [OF map_wf_put [OF wf, of k ?ring], of "\<lambda>r. mr_entries r \<noteq> []" ?t] by (simp_all add: m')
  have get: "map_get (ms_streams m') key = (case map_get (map_put k ?ring (ms_streams m)) key of
      None \<Rightarrow> None | Some r \<Rightarrow> ring_left (?t r))"
    using map_get_filter_map [OF map_wf_put [OF wf, of k ?ring], of "\<lambda>r. mr_entries r \<noteq> []" ?t]
    by (simp add: m' ring_left_def split: option.splits)
  show "case ring_written key k facts now (map_get (ms_streams m) key) of
      None \<Rightarrow> map_get (ms_streams m') key = None
    | Some r \<Rightarrow> \<exists>r'. trimmed (now - ms_ttl m) r r' \<and> map_get (ms_streams m') key = ring_left r'"
  proof (cases "k = key")
    case True
    then show ?thesis using get trimmed_trans [OF trim_trimmed trim_trimmed]
      by (simp add: ring_written_def al.lookup_put) blast
  next
    case False
    then show ?thesis using get trim_trimmed
      by (auto simp: ring_written_def al.lookup_put split: option.splits)
  qed
qed

text \<open>The entry a publication adds to the stream \<open>key\<close>, and those its retention takes.\<close>

definition entry_appended :: "FactStreamKey \<Rightarrow> FactStreamKey \<Rightarrow> AuthorFact list \<Rightarrow> gotime \<Rightarrow> MemoryFactStream \<Rightarrow> memFactEntry list" where
  "entry_appended key k facts now m =
     (if k = key then [last (entries_in (ring_written key k facts now (map_get (ms_streams m) key)))] else [])"

definition entries_of :: "FactStreamKey \<Rightarrow> MemoryFactStream \<Rightarrow> memFactEntry list" where
  "entries_of key m = entries_in (map_get (ms_streams m) key)"

definition entries_taken :: "memFactEntry list \<Rightarrow> memFactEntry list \<Rightarrow> memFactEntry list" where
  "entries_taken before after = take (length before - length after) before"

lemma ring_written_entries:
  "entries_in (ring_written key k facts now (map_get (ms_streams m) key)) = entries_of key m @ entry_appended key k facts now m"
  by (auto simp: ring_written_def entry_appended_def entries_of_def entries_in_def ring_append_def empty_ring_def Let_def split: option.splits)

lemma publish_view:
  assumes wf: "map_wf (ms_streams m)" and ttl: "1000000 \<le> ms_ttl m" and facts: "facts \<noteq> []"
    and inv: "ring_view start cur t n (map_get (ms_streams m) key) log rd lost"
    and t: "t \<le> now" "unix_epoch \<le> now" and range: "time_UnixMilli now \<le> MaxInt64" "int (Suc n) \<le> MaxInt64"
    and m': "m' = snd (PublishFacts False now k facts m)"
  shows "ring_view start cur now (Suc n) (map_get (ms_streams m') key) (log @ entry_appended key k facts now m) rd
     (lost @ above_cursor cur (entries_taken (entries_of key m @ entry_appended key k facts now m) (entries_of key m')))"
proof -
  let ?R = "map_get (ms_streams m) key" and ?w = "ring_written key k facts now (map_get (ms_streams m) key)"
  have w: "ring_view start cur now (Suc n) ?w (log @ entry_appended key k facts now m) rd lost"
  proof (cases "k = key")
    case True
    then show ?thesis using ring_view_append [OF inv t range refl, of facts] by (simp add: ring_written_def entry_appended_def entries_in_def)
  next
    case False
    then show ?thesis using ring_view_mono [OF inv t(1), of "Suc n"] by (simp add: ring_written_def entry_appended_def)
  qed
  show ?thesis
  proof (cases ?w)
    case None
    with PublishFacts_rings(5) [OF wf facts m', of key] have "map_get (ms_streams m') key = None" by simp
    moreover have "entries_of key m @ entry_appended key k facts now m = []"
      using ring_written_entries [of key k facts now m] None by (simp add: entries_in_def)
    ultimately show ?thesis using w None by (simp add: entries_taken_def)
  next
    case (Some r)
    with PublishFacts_rings(5) [OF wf facts m', of key] obtain r'
      where r': "trimmed (now - ms_ttl m) r r'" "map_get (ms_streams m') key = ring_left r'" by auto
    have "entries_of key m @ entry_appended key k facts now m = mr_entries r"
      using ring_written_entries [of key k facts now m] Some by (simp add: entries_in_def)
    moreover have "entries_of key m' = mr_entries r'" using r'(2) by (simp add: entries_of_def)
    ultimately show ?thesis
      using ring_view_trim [OF w [unfolded Some] r'(1) order.refl _ refl] ttl r'(2) by (simp add: entries_taken_def)
  qed
qed

section \<open>Collecting, stream by stream\<close>

abbreviation entries_for :: "FactStreamKey \<Rightarrow> FactEntry list \<Rightarrow> FactEntry list" where
  "entries_for key es \<equiv> filter (\<lambda>e. fe_Key e = key) es"

abbreviation gaps_for :: "FactStreamKey \<Rightarrow> FactStreamGap list \<Rightarrow> FactStreamGap list" where
  "gaps_for key gs \<equiv> filter (\<lambda>g. fg_Key g = key) gs"

lemma decoded_append: "decoded key (xs @ ys) = decoded key xs @ decoded key ys"
  by (simp add: decoded_def)

lemma entries_for_decoded: "entries_for key (decoded k es) = (if k = key then decoded k es else [])"
  by (induction es) (auto simp: decoded_def split: option.splits)

lemma with_state_lookup:
  "map_get (fset_states (with_state k g f)) key =
     (if k = key then map_option g (map_get (fset_states f) key) else map_get (fset_states f) key)"
  by (auto simp: with_state_def al.lookup_put split: option.splits)

lemma with_state_wf: "map_wf (fset_states f) \<Longrightarrow> map_wf (fset_states (with_state k g f))"
  by (auto simp: with_state_def split: option.splits)

lemmas follow_ops = advance_def caughtUp_def noteGap_def

lemma gap_frame:
  assumes "gapIfTrimmedPast target oldest f = (gap, f')" and "map_wf (fset_states f)"
  shows "map_wf (fset_states f')"
    and "ft_Key target \<noteq> key \<Longrightarrow> map_get (fset_states f') key = map_get (fset_states f) key"
    and "map_option fw_cursor (map_get (fset_states f') key) = map_option fw_cursor (map_get (fset_states f) key)"
    and "gap = Some g \<Longrightarrow> fg_Key g = ft_Key target \<and> ft_Behind target"
  using assms
  by (auto simp: gapIfTrimmedPast_def follow_ops with_state_wf with_state_lookup option.map_comp comp_def
      split: if_splits option.splits)

text \<open>The visit of one stream leaves the others alone.\<close>

definition same_for :: "FactStreamKey \<Rightarrow> FactDelivery \<times> followSet \<Rightarrow> FactDelivery \<times> followSet \<Rightarrow> bool" where
  "same_for key = (\<lambda>(d, f) (d', f'). map_get (fset_states f') key = map_get (fset_states f) key
     \<and> entries_for key (fd_Entries d') = entries_for key (fd_Entries d)
     \<and> gaps_for key (fd_Gaps d') = gaps_for key (fd_Gaps d)
     \<and> (map_wf (fset_states f) \<longrightarrow> map_wf (fset_states f')))"

lemma collect_one_wf:
  assumes "map_wf (fset_states f)"
  shows "map_wf (fset_states (snd (collect_one m target (d, f))))"
proof -
  obtain es oldest where r: "readRing (ft_Key target) (ft_Cursor target) m = (es, oldest)" by (metis surj_pair)
  obtain gap f' where g: "gapIfTrimmedPast target oldest f = (gap, f')" by (metis surj_pair)
  show ?thesis using gap_frame(1) [OF g assms]
    by (auto simp: collect_one_def r g Let_def follow_ops intro: with_state_wf)
qed

lemma collect_one_other:
  assumes "ft_Key target \<noteq> key" and wf: "map_wf (fset_states f)"
  shows "same_for key (d, f) (collect_one m target (d, f))"
proof -
  obtain es oldest where r: "readRing (ft_Key target) (ft_Cursor target) m = (es, oldest)" by (metis surj_pair)
  obtain gap f' where g: "gapIfTrimmedPast target oldest f = (gap, f')" by (metis surj_pair)
  show ?thesis
    using assms(1) gap_frame(1,4) [OF g wf] gap_frame(2) [OF g wf assms(1)]
    by (cases gap) (auto simp: same_for_def collect_one_def r g Let_def follow_ops with_state_lookup with_state_wf
        entries_for_decoded)
qed

lemma same_for_trans: "same_for key x y \<Longrightarrow> same_for key y z \<Longrightarrow> same_for key x z"
  by (auto simp: same_for_def)

lemma collect_others:
  assumes "key \<notin> ft_Key ` set ts" and "map_wf (fset_states f)"
  shows "same_for key (d, f) (fold (collect_one m) ts (d, f))"
  using assms
proof (induction ts arbitrary: d f)
  case (Cons t ts)
  obtain d' f' where one: "collect_one m t (d, f) = (d', f')" by (metis surj_pair)
  have first: "same_for key (d, f) (d', f')" using collect_one_other [of t key f d m] Cons.prems one by auto
  have "map_wf (fset_states f')" using collect_one_wf [OF Cons.prems(2), of m t d] one by simp
  with Cons have "same_for key (d', f') (fold (collect_one m) ts (d', f'))" by auto
  with first show ?case unfolding fold_simps one by (rule same_for_trans)
qed (simp add: same_for_def)

lemma targets_distinct:
  assumes "map_wf (fset_states f)"
  shows "distinct (map ft_Key (targets f))"
proof -
  define ts where "ts = map (\<lambda>(k, s). \<lparr> ft_Key = k, ft_Cursor = fw_cursor s, ft_Behind = fw_behind s \<rparr>) (fset_states f)"
  have "map ft_Key ts = map fst (fset_states f)" by (simp add: ts_def comp_def case_prod_beta)
  then have "distinct (map ft_Key ts)" using assms by metis
  moreover have "set (targets f) = set ts" "distinct (targets f) = distinct ts" unfolding targets_def ts_def by simp_all
  ultimately show ?thesis by (simp add: distinct_map)
qed

lemma targets_split:
  assumes wf: "map_wf (fset_states f)" and st: "map_get (fset_states f) key = Some st"
  obtains as bs where "targets f = as @ \<lparr> ft_Key = key, ft_Cursor = fw_cursor st, ft_Behind = fw_behind st \<rparr> # bs"
    and "key \<notin> ft_Key ` set as" and "key \<notin> ft_Key ` set bs"
proof -
  let ?t = "\<lparr> ft_Key = key, ft_Cursor = fw_cursor st, ft_Behind = fw_behind st \<rparr>"
  have "(key, st) \<in> set (fset_states f)" using st by (rule map_of_SomeD)
  then have "?t \<in> set (targets f)" by (force simp: targets_def)
  then obtain as bs where split: "targets f = as @ ?t # bs" by (meson split_list)
  with targets_distinct [OF wf] have "key \<notin> ft_Key ` set as" "key \<notin> ft_Key ` set bs" by auto
  with split that show ?thesis by blast
qed

text \<open>The retention has not passed the cursor.\<close>

definition unpassed :: "FactStreamKey \<Rightarrow> followState \<Rightarrow> MemoryFactStream \<Rightarrow> bool" where
  "unpassed key st m \<longleftrightarrow> (let oldest = snd (readRing key (fw_cursor st) m)
     in oldest = [] \<or> compareStreamIDs (fw_cursor st) oldest \<ge> 0)"

lemma collect_one_key:
  assumes wf: "map_wf (fset_states f)" and st: "map_get (fset_states f) key = Some st" and es: "es = fst (readRing key (fw_cursor st) m)"
    and one: "collect_one m \<lparr> ft_Key = key, ft_Cursor = fw_cursor st, ft_Behind = behind \<rparr> (d, f) = (d', f')"
  shows "\<exists>st'. map_get (fset_states f') key = Some st'
     \<and> fw_cursor st' = (if es = [] then fw_cursor st else me_id (last es))"
    and "fd_Entries d' = fd_Entries d @ decoded key es"
    and "\<not> behind \<or> unpassed key st m \<Longrightarrow> fd_Gaps d' = fd_Gaps d" and "map_wf (fset_states f')"
proof -
  let ?t = "\<lparr> ft_Key = key, ft_Cursor = fw_cursor st, ft_Behind = behind \<rparr>"
  obtain oldest where r: "readRing key (fw_cursor st) m = (es, oldest)" using es by (metis prod.collapse)
  obtain gap f1 where g: "gapIfTrimmedPast ?t oldest f = (gap, f1)" by (metis surj_pair)
  obtain st1 where st1: "map_get (fset_states f1) key = Some st1" "fw_cursor st1 = fw_cursor st"
    using gap_frame(3) [OF g wf, of key] st by auto
  show "\<exists>st'. map_get (fset_states f') key = Some st' \<and> fw_cursor st' = (if es = [] then fw_cursor st else me_id (last es))"
    using one st1 by (auto simp: collect_one_def r g Let_def follow_ops with_state_lookup split: if_splits)
  show "fd_Entries d' = fd_Entries d @ decoded key es"
    using one by (cases gap) (auto simp: collect_one_def r g Let_def decoded_def split: if_splits)
  have "gap = None" if "\<not> behind \<or> unpassed key st m"
    using g that r by (auto simp: gapIfTrimmedPast_def unpassed_def split: if_splits)
  then show "fd_Gaps d' = fd_Gaps d" if "\<not> behind \<or> unpassed key st m"
    using one that by (auto simp: collect_one_def r g Let_def split: if_splits)
  show "map_wf (fset_states f')" using collect_one_wf [OF wf, of m ?t d] one by simp
qed

text \<open>One round over all followed streams, as the stream \<open>key\<close> sees it.\<close>

lemma collect_key:
  assumes wf: "map_wf (fset_states f)" and st: "map_get (fset_states f) key = Some st" and es: "es = fst (readRing key (fw_cursor st) m)"
    and col: "collect m f = (d, f')"
  obtains st' where "map_get (fset_states f') key = Some st'"
    and "fw_cursor st' = (if es = [] then fw_cursor st else me_id (last es))"
    and "entries_for key (fd_Entries d) = decoded key es"
    and "\<not> fw_behind st \<or> unpassed key st m \<Longrightarrow> gaps_for key (fd_Gaps d) = []" and "map_wf (fset_states f')"
proof -
  let ?t = "\<lparr> ft_Key = key, ft_Cursor = fw_cursor st, ft_Behind = fw_behind st \<rparr>" and ?d0 = "\<lparr> fd_Entries = [], fd_Gaps = [] \<rparr>"
  obtain as bs where ts: "targets f = as @ ?t # bs" "key \<notin> ft_Key ` set as" "key \<notin> ft_Key ` set bs"
    by (rule targets_split [OF wf st])
  obtain d1 f1 where one: "fold (collect_one m) as (?d0, f) = (d1, f1)" by (metis surj_pair)
  obtain d2 f2 where two: "collect_one m ?t (d1, f1) = (d2, f2)" by (metis surj_pair)
  have three: "fold (collect_one m) bs (d2, f2) = (d, f')" using col one two by (simp add: collect_def ts(1))
  have s1: "same_for key (?d0, f) (d1, f1)" using collect_others [OF ts(2) wf, of ?d0 m] one by simp
  then have st1: "map_get (fset_states f1) key = Some st" and wf1: "map_wf (fset_states f1)"
    using st wf by (auto simp: same_for_def)
  note key = collect_one_key [OF wf1 st1 es two]
  have s3: "same_for key (d2, f2) (d, f')" using collect_others [OF ts(3) key(4), of d2 m] three by simp
  show ?thesis
    using key s1 s3 that by (auto simp: same_for_def entries_for_decoded)
qed

section \<open>A follower among publishers\<close>

text \<open>
  Publications on any stream and the rounds of one follower, interleaved in any way. Beside the
  transport and the followed set the state records, for the stream \<open>key\<close>, every entry appended since
  the follower started (and those it found in the ring), the entries read from the ring, and those
  the retention took before they were read; \<open>fo_got\<close> and \<open>fo_gaps\<close> are all that was delivered.
\<close>

record follower =
  fo_stream :: MemoryFactStream
  fo_set :: followSet
  fo_log :: "memFactEntry list"
  fo_read :: "memFactEntry list"
  fo_lost :: "memFactEntry list"
  fo_got :: "FactEntry list"
  fo_gaps :: "FactStreamGap list"

datatype follower_op = OpPublish bool gotime FactStreamKey "AuthorFact list" | OpCollect

definition cursor_of :: "FactStreamKey \<Rightarrow> followSet \<Rightarrow> nat \<times> nat" where
  "cursor_of key f =
     (case map_get (fset_states f) key of None \<Rightarrow> (0, 0) | Some st \<Rightarrow> parseStreamID (fw_cursor st))"

definition unread :: "FactStreamKey \<Rightarrow> follower \<Rightarrow> memFactEntry list" where
  "unread key fo = above_cursor (cursor_of key (fo_set fo)) (entries_of key (fo_stream fo))"

definition delivered_of :: "FactStreamKey \<Rightarrow> follower \<Rightarrow> FactEntry list" where
  "delivered_of key fo = entries_for key (fo_got fo)"

fun follower_step :: "FactStreamKey \<Rightarrow> follower \<Rightarrow> follower_op \<Rightarrow> follower" where
  "follower_step key fo (OpPublish cancelled now k facts) =
     (let m = fo_stream fo;
          m' = snd (PublishFacts cancelled now k facts m);
          new = (if cancelled \<or> facts = [] then [] else entry_appended key k facts now m)
      in fo\<lparr> fo_stream := m', fo_log := fo_log fo @ new,
             fo_lost := fo_lost fo @ above_cursor (cursor_of key (fo_set fo)) (entries_taken (entries_of key m @ new) (entries_of key m')) \<rparr>)"
| "follower_step key fo OpCollect =
     (case collect (fo_stream fo) (fo_set fo) of
        (d, f) \<Rightarrow> fo\<lparr> fo_set := f, fo_got := fo_got fo @ fd_Entries d, fo_gaps := fo_gaps fo @ fd_Gaps d,
          fo_read := fo_read fo @ (case map_get (fset_states (fo_set fo)) key of
             None \<Rightarrow> [] | Some st \<Rightarrow> fst (readRing key (fw_cursor st) (fo_stream fo))) \<rparr>)"

definition follower_run :: "FactStreamKey \<Rightarrow> follower \<Rightarrow> follower_op list \<Rightarrow> follower" where
  "follower_run key fo ops = foldl (follower_step key) fo ops"

text \<open>A follower that starts on a transport in use, and the transport after some publications.\<close>

definition follower_start :: "FactStreamKey \<Rightarrow> gotime \<Rightarrow> FactStreamKey list \<Rightarrow> duration \<Rightarrow> MemoryFactStream \<Rightarrow> follower" where
  "follower_start key now keys horizon m =
     \<lparr> fo_stream = m, fo_set = newFollowSet now keys horizon, fo_log = entries_of key m, fo_read = [], fo_lost = [],
       fo_got = [], fo_gaps = [] \<rparr>"

fun publish_all :: "follower_op list \<Rightarrow> MemoryFactStream \<Rightarrow> MemoryFactStream" where
  "publish_all [] m = m"
| "publish_all (OpPublish cancelled now k facts # ops) m = publish_all ops (snd (PublishFacts cancelled now k facts m))"
| "publish_all (OpCollect # ops) m = publish_all ops m"

text \<open>A clock that does not step back, from \<open>t\<close> on, within a 64-bit number of milliseconds.\<close>

fun in_order :: "gotime \<Rightarrow> follower_op list \<Rightarrow> bool" where
  "in_order t [] = True"
| "in_order t (OpPublish cancelled now k facts # ops) = (t \<le> now \<and> time_UnixMilli now \<le> MaxInt64 \<and> in_order now ops)"
| "in_order t (OpCollect # ops) = in_order t ops"

definition follows_key :: "FactStreamKey \<Rightarrow> followSet \<Rightarrow> bool" where
  "follows_key key f \<longleftrightarrow> map_wf (fset_states f) \<and> map_get (fset_states f) key \<noteq> None"

definition follower_inv :: "FactStreamKey \<Rightarrow> nat \<times> nat \<Rightarrow> gotime \<Rightarrow> nat \<Rightarrow> follower \<Rightarrow> bool" where
  "follower_inv key start t n fo \<longleftrightarrow>
     map_wf (ms_streams (fo_stream fo)) \<and> 1000000 \<le> ms_ttl (fo_stream fo) \<and> unix_epoch \<le> t
     \<and> follows_key key (fo_set fo)
     \<and> ring_view start (cursor_of key (fo_set fo)) t n (map_get (ms_streams (fo_stream fo)) key)
         (fo_log fo) (fo_read fo) (fo_lost fo)
     \<and> delivered_of key fo = decoded key (fo_read fo)"

lemma PublishFacts_nothing: "cancelled \<or> facts = [] \<Longrightarrow> snd (PublishFacts cancelled now k facts m) = m"
  by (auto simp: PublishFacts_def)

lemma publish_inv:
  assumes inv: "follower_inv key start t n fo" and t: "t \<le> now"
    and range: "time_UnixMilli now \<le> MaxInt64" "int (Suc n) \<le> MaxInt64"
  shows "follower_inv key start now (Suc n) (follower_step key fo (OpPublish cancelled now k facts))"
proof -
  have epoch: "unix_epoch \<le> now" using inv t by (simp add: follower_inv_def)
  have view: "ring_view start (cursor_of key (fo_set fo)) t n (map_get (ms_streams (fo_stream fo)) key)
      (fo_log fo) (fo_read fo) (fo_lost fo)"
    and wf: "map_wf (ms_streams (fo_stream fo))" and ttl: "1000000 \<le> ms_ttl (fo_stream fo)"
    using inv by (simp_all add: follower_inv_def)
  show ?thesis
  proof (cases "cancelled \<or> facts = []")
    case True
    then show ?thesis
      using inv epoch ring_view_mono [OF view t, of "Suc n"]
      by (simp add: follower_inv_def PublishFacts_nothing Let_def delivered_of_def entries_taken_def)
  next
    case False
    then have f: "\<not> cancelled" "facts \<noteq> []" by auto
    show ?thesis
      using inv epoch f PublishFacts_rings(1,2) [OF wf f(2) refl, of now k]
        publish_view [OF wf ttl f(2) view t epoch range refl]
      by (simp add: follower_inv_def Let_def delivered_of_def)
  qed
qed

lemma readRing_above:
  "fst (readRing key cursor m) = take (ms_readCount m) (above_cursor (parseStreamID cursor) (entries_of key m))"
proof -
  have "compareStreamIDs a b > 0 \<longleftrightarrow> parseStreamID b < parseStreamID a" for a b
    by (auto simp: compareStreamIDs_order)
  then show ?thesis by (auto simp: readRing_def ring_read_def entries_of_def entries_in_def split: option.splits list.splits)
qed

lemma collect_step:
  assumes st: "map_get (fset_states (fo_set fo)) key = Some st" and wf: "map_wf (fset_states (fo_set fo))"
    and es: "es = take (ms_readCount (fo_stream fo)) (unread key fo)" and fo': "fo' = follower_step key fo OpCollect"
  shows "fo_read fo' = fo_read fo @ es" and "delivered_of key fo' = delivered_of key fo @ decoded key es"
    and "cursor_of key (fo_set fo') = (if es = [] then cursor_of key (fo_set fo) else position (last es))"
    and "\<not> fw_behind st \<or> unpassed key st (fo_stream fo) \<Longrightarrow> gaps_for key (fo_gaps fo') = gaps_for key (fo_gaps fo)"
    and "follows_key key (fo_set fo')"
    and "fo_stream fo' = fo_stream fo \<and> fo_log fo' = fo_log fo \<and> fo_lost fo' = fo_lost fo"
proof -
  have es': "es = fst (readRing key (fw_cursor st) (fo_stream fo))"
    using es st by (simp add: readRing_above unread_def cursor_of_def)
  obtain d f where col: "collect (fo_stream fo) (fo_set fo) = (d, f)" by (metis surj_pair)
  obtain st' where st': "map_get (fset_states f) key = Some st'"
      "fw_cursor st' = (if es = [] then fw_cursor st else me_id (last es))"
      "entries_for key (fd_Entries d) = decoded key es"
      "\<not> fw_behind st \<or> unpassed key st (fo_stream fo) \<Longrightarrow> gaps_for key (fd_Gaps d) = []" "map_wf (fset_states f)"
    by (rule collect_key [OF wf st es' col]) blast
  then show "fo_read fo' = fo_read fo @ es" "delivered_of key fo' = delivered_of key fo @ decoded key es"
    "cursor_of key (fo_set fo') = (if es = [] then cursor_of key (fo_set fo) else position (last es))"
    "follows_key key (fo_set fo')"
    "\<not> fw_behind st \<or> unpassed key st (fo_stream fo) \<Longrightarrow> gaps_for key (fo_gaps fo') = gaps_for key (fo_gaps fo)"
    "fo_stream fo' = fo_stream fo \<and> fo_log fo' = fo_log fo \<and> fo_lost fo' = fo_lost fo"
    using st es' unfolding fo' delivered_of_def cursor_of_def follows_key_def by (simp_all add: col del: map_of_eq_Some_iff)
qed

lemma collect_inv:
  assumes inv: "follower_inv key start t n fo"
  shows "follower_inv key start t n (follower_step key fo OpCollect)"
proof -
  obtain st where st: "map_get (fset_states (fo_set fo)) key = Some st" and wf: "map_wf (fset_states (fo_set fo))"
    using inv unfolding follower_inv_def follows_key_def by blast
  note step = collect_step [OF st wf refl refl]
  have "ring_view start (cursor_of key (fo_set fo)) t n (map_get (ms_streams (fo_stream fo)) key)
      (fo_log fo) (fo_read fo) (fo_lost fo)" using inv by (simp add: follower_inv_def)
  from ring_view_read [OF this refl, of "ms_readCount (fo_stream fo)"] step inv
  show ?thesis unfolding follower_inv_def
    by (simp only: step decoded_append unread_def entries_of_def)
qed

lemma follower_run_inv:
  assumes "follower_inv key start t n fo" and "in_order t ops" and "int (n + length ops) \<le> MaxInt64"
  shows "\<exists>t'. follower_inv key start t' (n + length ops) (follower_run key fo ops) \<and> (\<forall>ops'. in_order t (ops @ ops') \<longrightarrow> in_order t' ops')"
  using assms
proof (induction ops arbitrary: t n fo)
  case Nil
  then show ?case by (auto simp: follower_run_def)
next
  case (Cons op ops)
  show ?case
  proof (cases op)
    case (OpPublish c now k facts)
    then have "follower_inv key start now (Suc n) (follower_step key fo op)"
      using Cons.prems publish_inv [OF Cons.prems(1), of now c k facts] by simp
    from Cons.IH [OF this] Cons.prems show ?thesis by (auto simp: follower_run_def OpPublish)
  next
    case OpCollect
    have "follower_inv key start t (Suc n) (follower_step key fo op)"
      using collect_inv [OF Cons.prems(1)] OpCollect ring_view_mono [of _ _ t n _ _ _ _ t "Suc n"]
      by (auto simp: follower_inv_def simp del: follower_step.simps)
    from Cons.IH [OF this] Cons.prems show ?thesis by (auto simp: follower_run_def OpCollect simp del: follower_step.simps)
  qed
qed

lemma follow_fold:
  "map_wf m \<Longrightarrow> map_wf (fold (\<lambda>k m. if map_get m k = None then map_put k v m else m) keys m)"
  "map_get (fold (\<lambda>k m. if map_get m k = None then map_put k v m else m) keys m) key =
     (case map_get m key of None \<Rightarrow> if key \<in> set keys then Some v else None | Some s \<Rightarrow> Some s)"
  by (induction keys arbitrary: m) (auto simp: al.lookup_put split: option.splits)

lemma newFollowSet_key:
  assumes "key \<in> set keys"
  shows "follows_key key (newFollowSet now keys horizon)"
    and "cursor_of key (newFollowSet now keys horizon) = parseStreamID (streamIDAt (now - horizon))"
proof -
  let ?v = "\<lparr> fw_cursor = streamIDAt (now - horizon), fw_behind = False, fw_reportedGap = [] \<rparr>"
  have st: "map_get (fset_states (newFollowSet now keys horizon)) key = Some ?v"
    using assms follow_fold(2) [of ?v keys "[]" key] by (simp add: newFollowSet_def follow_set_def Let_def)
  have "map_wf (fset_states (newFollowSet now keys horizon))"
    using follow_fold(1) [of "[]" ?v keys] by (simp add: newFollowSet_def follow_set_def Let_def)
  with st show "follows_key key (newFollowSet now keys horizon)" unfolding follows_key_def by blast
  show "cursor_of key (newFollowSet now keys horizon) = parseStreamID (streamIDAt (now - horizon))"
    using st by (simp add: cursor_of_def)
qed

lemma follower_start_inv:
  assumes key: "key \<in> set keys" and wf: "map_wf (ms_streams m)" and ttl: "1000000 \<le> ms_ttl m" and t: "unix_epoch \<le> t"
    and view: "ring_view s c t n (map_get (ms_streams m) key) log rd lost"
  shows "follower_inv key (parseStreamID (streamIDAt (now - horizon))) t n (follower_start key now keys horizon m)"
  using newFollowSet_key [OF key] wf ttl t ring_view_restart [OF view]
  by (simp add: follower_inv_def follower_start_def delivered_of_def decoded_def entries_of_def)

lemma publish_all_run: "fo_stream (follower_run key fo ops) = publish_all ops (fo_stream fo)"
proof (induction ops arbitrary: fo)
  case (Cons op ops)
  then show ?case by (cases op) (simp_all add: follower_run_def Let_def split: prod.splits)
qed (simp add: follower_run_def)

text \<open>The transport after any publications by a clock that does not step back, and a follower started on it.\<close>

lemma follower_started:
  fixes ttl maxLen readCount pre
  defines "m \<equiv> publish_all pre (NewMemoryFactStream ttl maxLen readCount)"
  assumes key: "key \<in> set keys" and order: "in_order unix_epoch (pre @ ops)" and len: "int (length pre + length ops) \<le> MaxInt64"
    and ttl: "ttl \<le> 0 \<or> 1000000 \<le> ttl"
  obtains t where "follower_inv key (parseStreamID (streamIDAt (now - horizon))) t (length pre + length ops)
        (follower_run key (follower_start key now keys horizon m) ops)"
proof -
  let ?m = "NewMemoryFactStream ttl maxLen readCount"
  let ?fo = "follower_run key (follower_start key now keys horizon ?m) pre"
  have app: "in_order t (xs @ ys) \<Longrightarrow> in_order t xs" for t xs ys by (induction t xs rule: in_order.induct) auto
  have "follower_inv key (parseStreamID (streamIDAt (now - horizon))) unix_epoch 0 (follower_start key now keys horizon ?m)"
    using ttl by (intro follower_start_inv [OF key, where s = "(0, 0)" and c = "(0, 0)" and log = "[]" and rd = "[]" and lost = "[]"])
      (auto simp: NewMemoryFactStream_def DefaultAttributionFactTTL_def ring_view_def entries_in_def)
  from follower_run_inv [OF this app [OF order]] len obtain t
    where t: "follower_inv key (parseStreamID (streamIDAt (now - horizon))) t (length pre) ?fo"
      "\<And>ops'. in_order unix_epoch (pre @ ops') \<Longrightarrow> in_order t ops'" by auto
  have m: "fo_stream ?fo = m" by (simp add: publish_all_run m_def follower_start_def)
  have "map_wf (ms_streams m)" "1000000 \<le> ms_ttl m" "unix_epoch \<le> t"
    and "ring_view (parseStreamID (streamIDAt (now - horizon))) (cursor_of key (fo_set ?fo)) t (length pre) (map_get (ms_streams m) key)
      (fo_log ?fo) (fo_read ?fo) (fo_lost ?fo)"
    using t(1) unfolding follower_inv_def m by simp_all
  from follower_run_inv [OF follower_start_inv [OF key this] t(2) [OF order]] len that show ?thesis by auto
qed

text \<open>The batches that were published on a stream: those that are not empty, in a context that has not ended.\<close>

fun batches_on :: "FactStreamKey \<Rightarrow> follower_op list \<Rightarrow> AuthorFact list list" where
  "batches_on key [] = []"
| "batches_on key (OpPublish cancelled now k facts # ops) =
     (if cancelled \<or> facts = [] \<or> k \<noteq> key then batches_on key ops else facts # batches_on key ops)"
| "batches_on key (OpCollect # ops) = batches_on key ops"

lemma log_batches: "map me_raw (fo_log (follower_run key fo ops)) = map me_raw (fo_log fo) @ batches_on key ops"
proof (induction ops arbitrary: fo)
  case (Cons op ops)
  then show ?case
    by (cases op) (auto simp: follower_run_def Let_def entry_appended_def ring_written_def entries_in_def ring_append_def split: prod.splits)
qed (simp add: follower_run_def)


section \<open>A loss without a report\<close>

lemma ring_trim_length:
  assumes "maxLen > 0"
  shows "int (length (mr_entries (ring_trim h maxLen r))) \<le> maxLen"
proof -
  have "length (takeWhile (\<lambda>e. me_at e < h) (mr_entries r)) \<le> length (mr_entries r)" by (rule length_takeWhile_le)
  with assms show ?thesis by (auto simp: ring_trim_def Let_def)
qed

lemma publish_bounded:
  assumes wf: "map_wf (ms_streams m)" and max: "ms_maxLen m > 0" and facts: "facts \<noteq> []"
  shows "int (length (entries_of key (snd (PublishFacts False now key facts m)))) \<le> ms_maxLen m"
proof -
  let ?t = "ring_trim (now - ms_ttl m) (ms_maxLen m)"
  obtain ring where "snd (PublishFacts False now key facts m) =
      m\<lparr> ms_streams := filter (\<lambda>(_, r). mr_entries r \<noteq> []) (map (\<lambda>(k, r). (k, ?t r)) (map_put key ring (ms_streams m))) \<rparr>"
    using facts by (auto simp: PublishFacts_def dropIdleRings_def Let_def)
  then have "entries_of key (snd (PublishFacts False now key facts m)) = mr_entries (?t ring)"
    using map_get_filter_map [OF map_wf_put [OF wf, of key ring], of "\<lambda>r. mr_entries r \<noteq> []" ?t key]
    by (simp add: entries_of_def entries_in_def al.lookup_put)
  then show ?thesis using ring_trim_length [OF max] by simp
qed

lemma publishes_frame:
  assumes "list_all (\<lambda>facts. facts \<noteq> []) raws" and "map_wf (ms_streams (fo_stream fo))"
    and "fo1 = follower_run key fo (map (OpPublish False t key) raws)"
  shows "fo_read fo1 = fo_read fo \<and> fo_set fo1 = fo_set fo \<and> fo_gaps fo1 = fo_gaps fo
     \<and> (\<exists>new. fo_log fo1 = fo_log fo @ new \<and> length new = length raws)
     \<and> (ms_maxLen (fo_stream fo) > 0 \<and> raws \<noteq> [] \<longrightarrow> int (length (entries_of key (fo_stream fo1))) \<le> ms_maxLen (fo_stream fo))"
  using assms
proof (induction raws arbitrary: fo)
  case (Cons facts raws)
  let ?fo = "follower_step key fo (OpPublish False t key facts)" and ?m = "snd (PublishFacts False t key facts (fo_stream fo))"
  have facts: "facts \<noteq> []" using Cons.prems(1) by simp
  note rings = PublishFacts_rings(1,3) [OF Cons.prems(2) facts refl, of t key]
  have fo: "fo_stream ?fo = ?m" "fo_read ?fo = fo_read fo" "fo_set ?fo = fo_set fo" "fo_gaps ?fo = fo_gaps fo"
      "\<exists>e. fo_log ?fo = fo_log fo @ [e]"
    using facts by (simp_all add: Let_def entry_appended_def)
  have run: "fo1 = follower_run key ?fo (map (OpPublish False t key) raws)"
    using Cons.prems(3) by (simp add: follower_run_def)
  have wf: "map_wf (ms_streams (fo_stream ?fo))" and max: "ms_maxLen (fo_stream ?fo) = ms_maxLen (fo_stream fo)"
    using rings by (simp_all only: fo)
  have "list_all (\<lambda>facts. facts \<noteq> []) raws" using Cons.prems(1) by simp
  note IH = Cons.IH [OF this wf run]
  have "\<exists>new. fo_log fo1 = fo_log fo @ new \<and> length new = length (facts # raws)"
    using IH fo(5) by (metis append.assoc append_Cons append_Nil length_Cons)
  moreover have "int (length (entries_of key (fo_stream fo1))) \<le> ms_maxLen (fo_stream fo)" if "ms_maxLen (fo_stream fo) > 0"
  proof (cases raws)
    case Nil
    then show ?thesis using run publish_bounded [OF Cons.prems(2) that facts] fo(1) by (simp add: follower_run_def)
  qed (use IH max that in simp)
  ultimately show ?case using IH by (simp only: fo) simp
qed (simp add: follower_run_def)

definition missed :: "nat \<times> nat \<Rightarrow> follower \<Rightarrow> memFactEntry list" where
  "missed start fo = filter (\<lambda>e. start < position e \<and> e \<in> set (fo_lost fo)) (fo_log fo)"

lemma filter_split_length: "length (filter P xs) = length (filter (\<lambda>x. P x \<and> Q x) xs) + length (filter (\<lambda>x. P x \<and> \<not> Q x) xs)"
  by (induction xs) auto

lemma missed_count:
  assumes "follower_inv key start t n fo"
  shows "length (above_cursor start (fo_log fo)) = length (missed start fo) + length (fo_read fo) + length (unread key fo)"
proof -
  have "fo_read fo @ unread key fo = filter (\<lambda>e. start < position e \<and> e \<notin> set (fo_lost fo)) (fo_log fo)"
    using assms by (simp add: follower_inv_def ring_view_def unread_def entries_of_def)
  then have "length (fo_read fo) + length (unread key fo) = length (filter (\<lambda>e. start < position e \<and> e \<notin> set (fo_lost fo)) (fo_log fo))"
    by (metis length_append)
  then show ?thesis
    unfolding missed_def
    using filter_split_length [of "\<lambda>e. start < position e" "fo_log fo" "\<lambda>e. e \<in> set (fo_lost fo)"] by simp
qed

text \<open>Once something was read, everything published after it is above the starting position.\<close>

lemma above_new:
  assumes inv: "follower_inv key start t n fo1" and log: "fo_log fo1 = fo_log fo @ new"
    and read: "g \<in> set (fo_log fo)" "start < position g"
  shows "length (above_cursor start (fo_log fo1)) = length (above_cursor start (fo_log fo)) + length new"
proof -
  have "sorted_wrt (<) (map position (fo_log fo @ new))" using inv log by (simp add: follower_inv_def ring_view_def)
  then have "\<forall>e \<in> set new. position g < position e" using read(1) by (auto simp: sorted_wrt_append)
  then have "above_cursor start new = new" using read(2) by (auto simp: filter_id_conv dest: order.strict_trans)
  then show ?thesis by (simp add: log)
qed

text \<open>
  C19: A follower that has read everything there was can still be trimmed past, when more batches than
  the ring may hold are published between two of its reads. The batches are lost, and the next read
  reports no gap of that stream, because gap detection is limited to a follower whose last read was cut
  short.
\<close>

theorem caught_up_follower_loses_silently:
  fixes key keys now horizon ttl maxLen readCount pre ops t raws
  defines "m \<equiv> publish_all pre (NewMemoryFactStream ttl maxLen readCount)"
  defines "fo \<equiv> follower_run key (follower_start key now keys horizon m) ops"
    and "start \<equiv> parseStreamID (streamIDAt (now - horizon))"
  defines "fo' \<equiv> follower_step key (follower_run key fo (map (OpPublish False t key) raws)) OpCollect"
  assumes key: "key \<in> set keys" and order: "in_order unix_epoch (pre @ ops @ map (OpPublish False t key) raws)"
    and len: "int (length pre + (length ops + length raws)) \<le> MaxInt64" and ttl: "ttl \<le> 0 \<or> 1000000 \<le> ttl"
    and read: "fo_read fo \<noteq> []" "unread key fo = []" "map_get (fset_states (fo_set fo)) key = Some st" "\<not> fw_behind st"
    and many: "ms_maxLen (fo_stream fo) > 0" "int (length raws) > ms_maxLen (fo_stream fo)" "list_all (\<lambda>facts. facts \<noteq> []) raws"
  shows "int (length (missed start fo')) \<ge> int (length (missed start fo)) + (int (length raws) - ms_maxLen (fo_stream fo))
     \<and> gaps_for key (fo_gaps fo') = gaps_for key (fo_gaps fo)"
proof -
  define fo1 where "fo1 = follower_run key fo (map (OpPublish False t key) raws)"
  have app: "in_order t (xs @ ys) \<Longrightarrow> in_order t xs" for t xs ys by (induction t xs rule: in_order.induct) auto
  have before: "in_order unix_epoch (pre @ ops)" "int (length pre + length ops) \<le> MaxInt64"
    and after: "int (length pre + length (ops @ map (OpPublish False t key) raws)) \<le> MaxInt64"
    using app [of unix_epoch "pre @ ops"] order len by simp_all
  obtain t0 where inv: "follower_inv key start t0 (length pre + length ops) fo"
    unfolding fo_def m_def start_def by (rule follower_started [OF key before ttl])
  have run1: "fo1 = follower_run key (follower_start key now keys horizon m) (ops @ map (OpPublish False t key) raws)"
    by (simp add: fo1_def fo_def follower_run_def)
  obtain t1 where inv1: "follower_inv key start t1 (length pre + length (ops @ map (OpPublish False t key) raws)) fo1"
    unfolding run1 m_def start_def by (rule follower_started [OF key order after ttl])
  have wf: "map_wf (ms_streams (fo_stream fo))" using inv by (simp add: follower_inv_def)
  note frame = publishes_frame [OF many(3) wf fo1_def]
  then obtain new where new: "fo_log fo1 = fo_log fo @ new" "length new = length raws" by blast
  obtain g where "g \<in> set (fo_read fo)" using read(1) by (cases "fo_read fo") auto
  then have "g \<in> set (filter (\<lambda>e. start < position e \<and> e \<notin> set (fo_lost fo)) (fo_log fo))"
    using inv unfolding follower_inv_def ring_view_def by (metis Un_iff set_append)
  then have all: "length (above_cursor start (fo_log fo1)) = length (above_cursor start (fo_log fo)) + length raws"
    using above_new [OF inv1 new(1)] new(2) by auto
  have "length (unread key fo1) \<le> length (entries_of key (fo_stream fo1))" by (simp add: unread_def)
  moreover have "int (length (entries_of key (fo_stream fo1))) \<le> ms_maxLen (fo_stream fo)" using frame many by auto
  ultimately have count: "int (length (missed start fo1)) \<ge> int (length (missed start fo)) + (int (length raws) - ms_maxLen (fo_stream fo))"
    using missed_count [OF inv] missed_count [OF inv1] all frame read(2) by simp
  have st: "map_get (fset_states (fo_set fo1)) key = Some st" "map_wf (fset_states (fo_set fo1))"
    using read(3) frame inv unfolding follower_inv_def follows_key_def by metis+
  note step = collect_step [OF st refl refl, folded fo1_def]
  have "missed start fo' = missed start fo1" using step(6) by (simp add: missed_def fo'_def fo1_def)
  moreover have "gaps_for key (fo_gaps fo') = gaps_for key (fo_gaps fo)"
    using step(4) read(4) frame by (simp add: fo'_def fo1_def)
  ultimately show ?thesis using count by simp
qed

section \<open>A clock that steps back\<close>

text \<open>The ring of \<open>key\<close>, if there is one, is wholly below the millisecond \<open>c\<close>.\<close>

definition ring_below :: "nat \<Rightarrow> memFactRing \<Rightarrow> bool" where
  "ring_below c r \<longleftrightarrow> mr_lastMillis r < c \<and> (\<forall>e \<in> set (mr_entries r). fst (position e) < c)"

fun published_below :: "nat \<Rightarrow> follower_op \<Rightarrow> bool" where
  "published_below c (OpPublish cancelled now k facts) = (nat (time_UnixMilli now) < c)"
| "published_below c OpCollect = True"

lemma parseStreamID_millis:
  assumes "int m \<le> MaxUint64"
  shows "fst (parseStreamID (Itoa m @ [streamIDSeparator] @ s)) = m"
proof -
  have "takeWhile (\<lambda>c. c \<noteq> streamIDSeparator) (Itoa m @ [streamIDSeparator] @ s) = Itoa m"
    using sep_not_digit [of m] by (auto simp: takeWhile_append takeWhile_eq_all_conv)
  then show ?thesis using assms by (simp add: parseStreamID_def Cut_def ParseUint_Itoa)
qed

lemma append_below:
  assumes "ring_below c r" and "nat (time_UnixMilli now) < c" and "int c \<le> MaxInt64"
  shows "ring_below c (ring_append raw now r)"
proof -
  let ?r = "ring_append raw now r"
  have last: "mr_lastMillis ?r < c" using assms by (auto simp: ring_below_def ring_append_def Let_def)
  have "MaxInt64 \<le> MaxUint64" by (simp add: MaxInt64_def MaxUint64_def)
  with last assms(3) have "int (mr_lastMillis ?r) \<le> MaxUint64" by linarith
  note parse = parseStreamID_millis [OF this]
  obtain e where "mr_entries ?r = mr_entries r @ [e]"
      "me_id e = Itoa (mr_lastMillis ?r) @ [streamIDSeparator] @ Itoa (mr_lastSeq ?r)"
    by (simp add: ring_append_def Let_def)
  then show ?thesis using assms(1) last parse by (auto simp: ring_below_def)
qed

lemma trimmed_below: "ring_below c r \<Longrightarrow> trimmed h r r' \<Longrightarrow> ring_below c r'"
  by (auto simp: ring_below_def trimmed_def suffix_def)

lemma publish_below:
  assumes wf: "map_wf (ms_streams m)" and below: "pred_option (ring_below c) (map_get (ms_streams m) key)"
    and c: "nat (time_UnixMilli now) < c" "int c \<le> MaxInt64"
  shows "map_wf (ms_streams (snd (PublishFacts cancelled now k facts m)))
     \<and> pred_option (ring_below c) (map_get (ms_streams (snd (PublishFacts cancelled now k facts m))) key)"
proof (cases "cancelled \<or> facts = []")
  case True
  then show ?thesis using wf below by (simp add: PublishFacts_nothing)
next
  case False
  then have f: "\<not> cancelled" "facts \<noteq> []" by auto
  have "ring_below c empty_ring" using c by (simp add: ring_below_def empty_ring_def)
  then have "pred_option (ring_below c) (ring_written key k facts now (map_get (ms_streams m) key))"
    using below append_below [OF _ c] by (auto simp: ring_written_def split: option.splits)
  then have "pred_option (ring_below c) (map_get (ms_streams (snd (PublishFacts False now k facts m))) key)"
    using PublishFacts_rings(5) [OF wf f(2) refl, where key = key and now = now and k = k] trimmed_below
    by (auto simp: ring_left_def split: option.splits if_splits)
  then show ?thesis using PublishFacts_rings(1) [OF wf f(2) refl] f by simp
qed

lemma collect_below:
  assumes follows_key: "follows_key key (fo_set fo)" and below: "pred_option (ring_below c) (map_get (ms_streams (fo_stream fo)) key)"
    and cur: "c \<le> fst (cursor_of key (fo_set fo))" and fo': "fo' = follower_step key fo OpCollect"
  shows "delivered_of key fo' = delivered_of key fo \<and> gaps_for key (fo_gaps fo') = gaps_for key (fo_gaps fo)
     \<and> follows_key key (fo_set fo') \<and> cursor_of key (fo_set fo') = cursor_of key (fo_set fo) \<and> fo_stream fo' = fo_stream fo"
proof -
  obtain st where st: "map_get (fset_states (fo_set fo)) key = Some st" and wf: "map_wf (fset_states (fo_set fo))"
    using follows_key unfolding follows_key_def by blast
  have low: "position e < cursor_of key (fo_set fo)" if "e \<in> set (entries_of key (fo_stream fo))" for e
  proof (cases "map_get (ms_streams (fo_stream fo)) key")
    case (Some r)
    then have "ring_below c r" "e \<in> set (mr_entries r)" using below that by (simp_all add: entries_of_def entries_in_def)
    then show ?thesis using cur by (auto simp: ring_below_def less_prod_def)
  qed (use that in \<open>simp add: entries_of_def entries_in_def\<close>)
  then have none: "unread key fo = []" by (auto simp: unread_def filter_empty_conv dest: order.asym)
  have "unpassed key st (fo_stream fo)"
  proof (cases "entries_of key (fo_stream fo)")
    case Nil
    then show ?thesis by (auto simp: unpassed_def readRing_def ring_read_def entries_of_def entries_in_def split: option.splits)
  next
    case (Cons e es)
    then have "snd (readRing key (fw_cursor st) (fo_stream fo)) = me_id e"
      by (auto simp: readRing_def ring_read_def entries_of_def entries_in_def split: option.splits)
    moreover have "position e < parseStreamID (fw_cursor st)" using low [of e] Cons st by (simp add: cursor_of_def)
    ultimately show ?thesis by (auto simp: unpassed_def Let_def compareStreamIDs_order)
  qed
  with collect_step [OF st wf refl fo'] none show ?thesis by (simp add: decoded_def)
qed

text \<open>
  C0: The positions of a ring keep increasing when the clock steps back, but only while the ring exists:
  once every entry has aged out the ring is dropped and its last position with it. When the ring of a
  stream is gone and the clock then reads less than the follower's cursor, no batch published on the
  stream is delivered to the follower, and no gap is reported, until the clock passes the cursor again.
\<close>

theorem clock_step_back_hides_batches:
  fixes key fo ops
  defines "fo' \<equiv> follower_run key fo ops" and "c \<equiv> fst (cursor_of key (fo_set fo))"
  assumes "map_wf (ms_streams (fo_stream fo))" and "map_get (ms_streams (fo_stream fo)) key = None"
    and "follows_key key (fo_set fo)" and "list_all (published_below c) ops" and "int c \<le> MaxInt64"
  shows "delivered_of key fo' = delivered_of key fo \<and> gaps_for key (fo_gaps fo') = gaps_for key (fo_gaps fo)
     \<and> map me_raw (fo_log fo') = map me_raw (fo_log fo) @ batches_on key ops"
proof -
  have "delivered_of key (follower_run key fo ops) = delivered_of key fo
      \<and> gaps_for key (fo_gaps (follower_run key fo ops)) = gaps_for key (fo_gaps fo)"
    if "map_wf (ms_streams (fo_stream fo))" "pred_option (ring_below c) (map_get (ms_streams (fo_stream fo)) key)"
      "follows_key key (fo_set fo)" "c \<le> fst (cursor_of key (fo_set fo))" "list_all (published_below c) ops" for fo ops
    using that
  proof (induction ops arbitrary: fo)
    case (Cons op ops)
    show ?case
    proof (cases op)
      case (OpPublish x now k facts)
      let ?fo = "follower_step key fo op"
      have "fo_stream ?fo = snd (PublishFacts x now k facts (fo_stream fo))" "fo_set ?fo = fo_set fo"
          "fo_got ?fo = fo_got fo" "fo_gaps ?fo = fo_gaps fo"
        by (simp_all add: OpPublish Let_def)
      moreover have "nat (time_UnixMilli now) < c" using Cons.prems(5) OpPublish by simp
      ultimately show ?thesis
        using Cons.IH [of ?fo] Cons.prems publish_below [OF Cons.prems(1,2) _ assms(7)]
        by (simp add: follower_run_def delivered_of_def del: follower_step.simps)
    next
      case OpCollect
      then show ?thesis
        using Cons.IH [of "follower_step key fo op"] Cons.prems collect_below [OF Cons.prems(3,2,4) refl]
        by (simp add: follower_run_def del: follower_step.simps)
    qed
  qed (simp add: follower_run_def)
  from this [OF assms(3) _ assms(5) _ assms(6)] show ?thesis
    using assms(4) log_batches [of key fo ops] by (simp add: fo'_def c_def)
qed

section \<open>An example\<close>

definition ex_stream_key :: FactStreamKey where
  "ex_stream_key = \<lparr> fk_AuditRoute = ''default'', fk_Group = ''apps'', fk_Resource = ''deployments'' \<rparr>"

definition ex_other_key :: FactStreamKey where
  "ex_other_key = ex_stream_key\<lparr> fk_Resource := ''secrets'' \<rparr>"

definition ex_time :: "nat \<Rightarrow> gotime" where
  "ex_time n = UnixMilli n"

definition ex_batch :: "string \<Rightarrow> AuthorFact list" where
  "ex_batch author = [no_fact\<lparr> af_UID := ''u1'', af_Author := author, af_Verb := ''update'' \<rparr>]"

text \<open>A transport that keeps one batch per stream, for two milliseconds.\<close>

definition ex_stream :: "follower_op list \<Rightarrow> MemoryFactStream" where
  "ex_stream pre = publish_all pre (NewMemoryFactStream 2000000 1 10)"

definition ex_follow :: "follower_op list \<Rightarrow> follower_op list \<Rightarrow> follower" where
  "ex_follow pre ops = follower_run ex_stream_key
     (follower_start ex_stream_key (ex_time 6) [ex_other_key, ex_stream_key] (3 * 1000000) (ex_stream pre)) ops"

definition ex_pre :: "follower_op list" where
  "ex_pre = [OpPublish False (ex_time 5) ex_stream_key (ex_batch ''alice'')]"

text \<open>A batch on another stream, a batch that does not decode, and three that arrive between two reads.\<close>

definition ex_ops :: "follower_op list" where
  "ex_ops = [OpPublish False (ex_time 6) ex_other_key (ex_batch ''bob''), OpCollect,
     OpPublish False (ex_time 6) ex_stream_key (ex_batch []), OpCollect]"

definition ex_more :: "AuthorFact list list" where
  "ex_more = [ex_batch ''carol'', ex_batch ''dave'']"

lemma ex_ops_facts:
  "(\<lambda>fo. (map fe_ID (delivered_of ex_stream_key fo), map me_id (fo_read fo), unread ex_stream_key fo,
      map_option fw_behind (map_get (fset_states (fo_set fo)) ex_stream_key), ms_maxLen (fo_stream fo)))
    (ex_follow ex_pre ex_ops) = ([''5-0''], [''5-0'', ''6-0''], [], Some False, 1)"
  by code_simp

lemma ex_ops_range:
  "in_order unix_epoch (ex_pre @ ex_ops @ map (OpPublish False (ex_time 7) ex_stream_key) ex_more)"
  "in_order unix_epoch (ex_pre @ ex_ops)"
  "int (length ex_pre + (length ex_ops + length ex_more)) \<le> MaxInt64" "int (length ex_pre + length ex_ops) \<le> MaxInt64"
  "list_all (\<lambda>facts. facts \<noteq> []) ex_more" "length ex_more = 2"
  "(2000000 :: int) \<le> 0 \<or> 1000000 \<le> (2000000 :: int)" "ex_stream_key \<in> set [ex_other_key, ex_stream_key]"
  by code_simp+


theorem caught_up_follower_loses_silently_witness:
  "let fo = ex_follow ex_pre ex_ops;
       fo' = ex_follow ex_pre (ex_ops @ map (OpPublish False (ex_time 7) ex_stream_key) ex_more @ [OpCollect]);
       start = parseStreamID (streamIDAt (ex_time 6 - 3 * 1000000))
   in length (missed start fo') \<ge> length (missed start fo) + 1
     \<and> gaps_for ex_stream_key (fo_gaps fo') = gaps_for ex_stream_key (fo_gaps fo)"
proof -
  obtain st where st: "map_get (fset_states (fo_set (ex_follow ex_pre ex_ops))) ex_stream_key = Some st" "\<not> fw_behind st"
    using ex_ops_facts by auto
  have got: "fo_read (ex_follow ex_pre ex_ops) \<noteq> []" "unread ex_stream_key (ex_follow ex_pre ex_ops) = []"
      "ms_maxLen (fo_stream (ex_follow ex_pre ex_ops)) = 1"
    using ex_ops_facts by auto
  have "ms_maxLen (fo_stream (ex_follow ex_pre ex_ops)) > 0"
      "int (length ex_more) > ms_maxLen (fo_stream (ex_follow ex_pre ex_ops))"
    using got(3) ex_ops_range(6) by simp_all
  from caught_up_follower_loses_silently [OF ex_ops_range(8,1,3,7), of "ex_time 6" "3 * 1000000" 1 10 st,
      folded ex_stream_def, folded ex_follow_def, OF got(1,2) st this ex_ops_range(5)] got(3) ex_ops_range(6)
  show ?thesis by (simp add: Let_def ex_follow_def follower_run_def)
qed

text \<open>The ring of the first stream ages out when another stream is written, and then the clock steps back.\<close>

definition ex_idle :: "follower_op list" where
  "ex_idle = [OpCollect, OpPublish False (ex_time 9) ex_other_key (ex_batch ''bob'')]"

definition ex_back :: "follower_op list" where
  "ex_back = [OpPublish False (ex_time 4) ex_stream_key (ex_batch ''carol''), OpCollect]"

lemma ex_idle_facts:
  "(\<lambda>fo. (map fst (ms_streams (fo_stream fo)), fst (cursor_of ex_stream_key (fo_set fo)), map fst (fset_states (fo_set fo)),
      map fe_ID (delivered_of ex_stream_key fo), list_all (published_below (fst (cursor_of ex_stream_key (fo_set fo)))) ex_back))
    (ex_follow ex_pre ex_idle) = ([ex_other_key], 5, [ex_other_key, ex_stream_key], [''5-0''], True)"
  by code_simp

theorem clock_step_back_hides_batches_witness:
  "let fo = ex_follow ex_pre (ex_idle @ ex_back) in map fe_ID (delivered_of ex_stream_key fo) = [''5-0'']
     \<and> (\<exists>before. map me_raw (fo_log fo) = before @ [ex_batch ''carol''])"
proof -
  let ?fo = "ex_follow ex_pre ex_idle"
  have keys: "ex_other_key \<noteq> ex_stream_key" "batches_on ex_stream_key ex_back = [ex_batch ''carol'']" by code_simp+
  have wf: "map_wf (ms_streams (fo_stream ?fo))" "map_get (ms_streams (fo_stream ?fo)) ex_stream_key = None"
    "int (fst (cursor_of ex_stream_key (fo_set ?fo))) \<le> MaxInt64"
    "map fe_ID (delivered_of ex_stream_key ?fo) = [''5-0'']"
    using ex_idle_facts keys(1) by (simp_all add: map_of_eq_None_iff MaxInt64_def flip: set_map)
  have "distinct (map fst (fset_states (fo_set ?fo)))" "ex_stream_key \<in> set (map fst (fset_states (fo_set ?fo)))"
    using ex_idle_facts keys(1) by simp_all
  then have "follows_key ex_stream_key (fo_set ?fo)" unfolding follows_key_def by (simp add: map_of_eq_None_iff)
  moreover have "list_all (published_below (fst (cursor_of ex_stream_key (fo_set ?fo)))) ex_back"
    using ex_idle_facts unfolding prod.inject by blast
  moreover note clock_step_back_hides_batches [OF wf(1,2) calculation wf(3)] wf(4) keys(2)
  ultimately
  show ?thesis by (auto simp: Let_def ex_follow_def follower_run_def)
qed

end
