(* ===== verification/Fact_Index.thy ===== *)
theory Fact_Index
  imports Fact_Stream
begin

text \<open>
  The attribution index (\<open>internal/queue\<close>: \<open>fact_index.go\<close>, \<open>fact_waiters.go\<close>): one partition of facts per
  audit route and type, the tiers a watch event is resolved through, the waiters that are woken when
  a fact arrives, and the caps that bound the memory.

  The mutex makes each operation one step. \<open>Await\<close> is a function of what happens while it waits: the
  index and the clock at each signal of its channel; the end of that list is the end of the grace or
  of the context. The two loops that enforce the caps are recursive functions with their termination
  proofs. The scope of a fact is passed by value, so the pointer the code updates in place is written
  back into the map of scopes.
\<close>

record fact_config =
  fc_parse_time :: "string \<Rightarrow> gotime option"
  fc_parse_selector :: "string \<Rightarrow> (labels \<Rightarrow> bool) option"

record factWaiterKey =
  fwk_scope :: factScope
  fwk_kind :: factKind
  fwk_value :: string

record FactIndex =
  fx_ttl :: duration
  fx_maxPerType :: int
  fx_maxTotal :: int
  fx_collectionWindow :: duration
  fx_sweepInterval :: duration
  fx_scopes :: "(factScope, scopeFacts) gomap"
  fx_total :: int
  fx_seq :: nat

definition DefaultFactIndexMaxFactsPerType :: int where
  "DefaultFactIndexMaxFactsPerType = 4096"

definition DefaultFactIndexMaxFactsTotal :: int where
  "DefaultFactIndexMaxFactsTotal = 65536"

definition DefaultFactCollectionWindow :: duration where
  "DefaultFactCollectionWindow = 30 * Second"

definition DefaultFactIndexSweepInterval :: duration where
  "DefaultFactIndexSweepInterval = 30 * Second"

definition NewFactIndex :: "duration \<Rightarrow> int \<Rightarrow> int \<Rightarrow> duration \<Rightarrow> duration \<Rightarrow> FactIndex" where
  "NewFactIndex ttl maxPerType maxTotal collectionWindow sweepInterval =
     \<lparr> fx_ttl = (if ttl \<le> 0 then DefaultAttributionFactTTL else ttl),
       fx_maxPerType = (if maxPerType \<le> 0 then DefaultFactIndexMaxFactsPerType else maxPerType),
       fx_maxTotal = (if maxTotal \<le> 0 then DefaultFactIndexMaxFactsTotal else maxTotal),
       fx_collectionWindow = (if collectionWindow \<le> 0 then DefaultFactCollectionWindow else collectionWindow),
       fx_sweepInterval = (if sweepInterval \<le> 0 then DefaultFactIndexSweepInterval else sweepInterval),
       fx_scopes = [], fx_total = 0, fx_seq = 0 \<rparr>"

section \<open>Waiter keys\<close>

definition nul :: char where
  "nul = CHR 0x00"

definition exactWaiterValue :: "string \<Rightarrow> string \<Rightarrow> string" where
  "exactWaiterValue uid rv = uid @ [nul] @ rv"

definition nameWaiterValue :: "string \<Rightarrow> string \<Rightarrow> string" where
  "nameWaiterValue namespace name = namespace @ [nul] @ name"

definition query_scope :: "FactQuery \<Rightarrow> factScope" where
  "query_scope q = \<lparr> fsc_route = fq_AuditRoute q, fsc_groupResource = groupResourceKey (fq_Group q) (fq_Resource q) \<rparr>"

definition waiterKeys :: "FactQuery \<Rightarrow> factWaiterKey list" where
  "waiterKeys q =
     (let key = (\<lambda>kind v. \<lparr> fwk_scope = query_scope q, fwk_kind = kind, fwk_value = v \<rparr>) in
      (if fq_UID q \<noteq> [] \<and> fq_ResourceVersion q \<noteq> []
       then [key factKindExact (exactWaiterValue (fq_UID q) (fq_ResourceVersion q))] else [])
      @ (if \<not> fq_ExactCapable q
         then (if fq_UID q \<noteq> [] then [key factKindLatest (fq_UID q)] else [])
              @ [key factKindCollection (fq_Namespace q)]
         else [])
      @ (if fq_ResourceVersion q \<noteq> [] then [key factKindRV (fq_ResourceVersion q)] else [])
      @ (if fq_Name q \<noteq> [] then [key factKindName (nameWaiterValue (fq_Namespace q) (fq_Name q))] else []))"

section \<open>Filing facts\<close>

text \<open>The answer is the waiter keys the fact fills, the scope with the fact, and the next sequence number.\<close>

definition file_fact ::
  "fact_config \<Rightarrow> factScope \<Rightarrow> AuthorFact \<Rightarrow> gotime \<Rightarrow> scopeFacts \<Rightarrow> nat \<Rightarrow> factWaiterKey list \<times> scopeFacts \<times> nat" where
  "file_fact cfg scope f now s seq =
     (let key = (\<lambda>kind v. \<lparr> fwk_scope = scope, fwk_kind = kind, fwk_value = v \<rparr>);
          entry = (\<lambda>n. \<lparr> ixf_fact = f, ixf_at = now, ixf_seq = n \<rparr>)
      in if EqualFold (af_Verb f) deleteCollectionVerb then
           ([key factKindCollection (af_Namespace f)],
            putCollection (newIndexedCollection (fc_parse_time cfg) (fc_parse_selector cfg) f now (seq + 1)) s, seq + 1)
         else if af_UID f \<noteq> [] then
           (let (keys, s, seq) =
                  (if af_ResourceVersion f \<noteq> []
                   then ([key factKindExact (exactWaiterValue (af_UID f) (af_ResourceVersion f))],
                         putExact (af_UID f) (af_ResourceVersion f) (entry (seq + 1)) s, seq + 1)
                   else ([], s, seq));
                s = putLatest (af_UID f) (entry (seq + 1)) s;
                seq = seq + 1;
                (s, seq) = (if isRemovalVerb (af_Verb f) then (putRemoval (af_UID f) (entry (seq + 1)) s, seq + 1)
                            else (s, seq))
            in (keys @ [key factKindLatest (af_UID f)], s, seq))
         else if af_ResourceVersion f \<noteq> [] then
           ([key factKindRV (af_ResourceVersion f)], putRV (af_ResourceVersion f) (entry (seq + 1)) s, seq + 1)
         else if af_Name f \<noteq> [] then
           ([key factKindName (nameWaiterValue (af_Namespace f) (af_Name f))],
            putName (af_Namespace f) (af_Name f) (entry (seq + 1)) s, seq + 1)
         else ([], s, seq))"

section \<open>The caps\<close>

lemma evictOldest_shorter:
  assumes "evictOldest s = (True, s')"
  shows "length (sf_order s') < length (sf_order s)"
  using evict_refs_shorter assms by (simp add: evictOldest_def)

text \<open>\<open>for facts.count > i.maxPerType\<close>: the scope and the number of evictions.\<close>

function evict_to_cap :: "int \<Rightarrow> scopeFacts \<Rightarrow> int \<Rightarrow> scopeFacts \<times> int" where
  "evict_to_cap cap s evicted =
     (if sf_count s > cap
      then (case evictOldest s of
              (False, s') \<Rightarrow> (s', evicted)
            | (True, s') \<Rightarrow> evict_to_cap cap s' (evicted + 1))
      else (s, evicted))"
  by pat_completeness auto
termination
  by (relation "measure (\<lambda>(cap, s, evicted). length (sf_order s))") (auto dest: evictOldest_shorter [OF sym])

declare evict_to_cap.simps [simp del]

fun largest_scope :: "(factScope \<times> scopeFacts) option \<Rightarrow> (factScope, scopeFacts) gomap \<Rightarrow> (factScope \<times> scopeFacts) option" where
  "largest_scope best [] = best"
| "largest_scope best ((scope, facts) # rest) =
     largest_scope (case best of
                      None \<Rightarrow> Some (scope, facts)
                    | Some (bs, bf) \<Rightarrow> if sf_count facts > sf_count bf then Some (scope, facts) else Some (bs, bf)) rest"

definition put_or_drop :: "factScope \<Rightarrow> scopeFacts \<Rightarrow> (factScope, scopeFacts) gomap \<Rightarrow> (factScope, scopeFacts) gomap" where
  "put_or_drop scope facts m = (if scope_empty facts then map_del scope m else map_put scope facts m)"

definition evictFromLargestScope :: "(factScope, scopeFacts) gomap \<Rightarrow> bool \<times> (factScope, scopeFacts) gomap" where
  "evictFromLargestScope scopes =
     (case largest_scope None scopes of
        None \<Rightarrow> (False, scopes)
      | Some (scope, facts) \<Rightarrow>
          (case evictOldest facts of
             (False, facts') \<Rightarrow> (False, map_put scope facts' scopes)
           | (True, facts') \<Rightarrow> (True, put_or_drop scope facts' scopes)))"

text \<open>\<open>for i.total > i.maxTotal\<close>.\<close>

function evict_to_total :: "int \<Rightarrow> (factScope, scopeFacts) gomap \<Rightarrow> int \<Rightarrow> (factScope, scopeFacts) gomap \<times> int" where
  "evict_to_total cap scopes tot =
     (if tot > cap
      then (case evictFromLargestScope scopes of
              (False, scopes') \<Rightarrow> (scopes', tot)
            | (True, scopes') \<Rightarrow> evict_to_total cap scopes' (tot - 1))
      else (scopes, tot))"
  by pat_completeness auto
termination
  by (relation "measure (\<lambda>(cap, scopes, tot). nat (tot - cap))") auto

declare evict_to_total.simps [simp del]

definition enforceCaps ::
  "factScope \<Rightarrow> scopeFacts \<Rightarrow> int \<Rightarrow> FactIndex \<Rightarrow> FactIndex" where
  "enforceCaps scope facts tot i =
     (let (facts', evicted) = evict_to_cap (fx_maxPerType i) facts 0;
          (scopes, tot) = evict_to_total (fx_maxTotal i) (put_or_drop scope facts' (fx_scopes i)) (tot - evicted)
      in i\<lparr> fx_scopes := scopes, fx_total := tot \<rparr>)"

definition fact_scopeFor :: "factScope \<Rightarrow> FactIndex \<Rightarrow> scopeFacts" where
  "fact_scopeFor scope i = (case map_get (fx_scopes i) scope of None \<Rightarrow> newScopeFacts | Some s \<Rightarrow> s)"

definition store_fact ::
  "fact_config \<Rightarrow> factScope \<Rightarrow> AuthorFact \<Rightarrow> gotime \<Rightarrow> FactIndex \<Rightarrow> factWaiterKey list \<times> FactIndex" where
  "store_fact cfg scope f now i =
     (let facts = fact_scopeFor scope i;
          (keys, facts', seq) = file_fact cfg scope f now facts (fx_seq i)
      in (keys, enforceCaps scope facts' (fx_total i + (sf_count facts' - sf_count facts)) (i\<lparr> fx_seq := seq \<rparr>)))"

definition fx_Sweep :: "gotime \<Rightarrow> FactIndex \<Rightarrow> int \<times> FactIndex" where
  "fx_Sweep now i =
     (let swept = map (\<lambda>(scope, facts). (scope, scope_sweep (now - fx_ttl i) facts)) (fx_scopes i);
          removed = sum_list (map (\<lambda>(_, n, _). n) swept);
          kept = filter (\<lambda>(_, facts). \<not> scope_empty facts) (map (\<lambda>(scope, _, facts). (scope, facts)) swept)
      in (removed, i\<lparr> fx_scopes := kept, fx_total := fx_total i - removed \<rparr>))"

definition fx_Len :: "FactIndex \<Rightarrow> int" where
  "fx_Len i = fx_total i"

section \<open>Resolving an event\<close>

definition resolved :: "AttributionResult \<Rightarrow> AuthorFact \<Rightarrow> AuthorResolution" where
  "resolved result f = \<lparr> ar_Fact = f, ar_Result = result \<rparr>"

definition stickyRemoval :: "scopeFacts \<Rightarrow> FactQuery \<Rightarrow> AuthorResolution" where
  "stickyRemoval facts q =
     (if fq_UID q = [] then absent
      else case lookupRemovalPointer (fq_UID q) facts of
             None \<Rightarrow> absent
           | Some f \<Rightarrow> resolved AttributionDeleteSticky f)"

definition lookupRemoval :: "duration \<Rightarrow> scopeFacts \<Rightarrow> FactQuery \<Rightarrow> gotime \<Rightarrow> gotime \<Rightarrow> AuthorResolution" where
  "lookupRemoval window facts q now cutoff =
     (let uid_match = (if fq_UID q = [] then None else matchCollectionUID q cutoff facts);
          latest = (if fq_UID q = [] then None else lookupLatest (fq_UID q) cutoff facts);
          named = (if fq_Name q = [] then None else lookupName (fq_Namespace q) (fq_Name q) cutoff facts)
      in case uid_match of
           Some f \<Rightarrow> resolved AttributionDeleteCollectionBodyUID f
         | None \<Rightarrow>
             if (case latest of None \<Rightarrow> False | Some f \<Rightarrow> isRemovalVerb (af_Verb f))
             then resolved AttributionLatest (the latest)
             else if (case named of None \<Rightarrow> False | Some f \<Rightarrow> isRemovalVerb (af_Verb f))
             then resolved AttributionName (the named)
             else case latest of
                    Some f \<Rightarrow> resolved AttributionLatest f
                  | None \<Rightarrow>
                      (case matchCollectionScope q now cutoff window facts of
                         Some f \<Rightarrow> resolved AttributionDeleteCollectionScope f
                       | None \<Rightarrow> absent))"

definition lookup_scope :: "duration \<Rightarrow> scopeFacts \<Rightarrow> FactQuery \<Rightarrow> gotime \<Rightarrow> gotime \<Rightarrow> AuthorResolution" where
  "lookup_scope window facts q now cutoff =
     (let sticky = (if fq_ExactCapable q then absent else stickyRemoval facts q);
          exact = (if fq_UID q \<noteq> [] \<and> fq_ResourceVersion q \<noteq> []
                   then lookupExact (fq_UID q) (fq_ResourceVersion q) cutoff facts else None);
          removal = (if fq_ExactCapable q then absent else lookupRemoval window facts q now cutoff);
          rv = (if fq_ResourceVersion q \<noteq> [] then lookupRV (fq_ResourceVersion q) cutoff facts else None);
          named = (if fq_Name q \<noteq> [] then lookupName (fq_Namespace q) (fq_Name q) cutoff facts else None)
      in if ar_Result sticky \<noteq> AttributionAbsent then sticky
         else case exact of
                Some f \<Rightarrow> resolved AttributionExact f
              | None \<Rightarrow>
                  if ar_Result removal \<noteq> AttributionAbsent then removal
                  else case rv of
                         Some f \<Rightarrow> resolved AttributionResourceVersion f
                       | None \<Rightarrow>
                           (case named of
                              Some f \<Rightarrow> resolved AttributionName f
                            | None \<Rightarrow> absent))"

definition Lookup :: "FactQuery \<Rightarrow> gotime \<Rightarrow> FactIndex \<Rightarrow> AuthorResolution" where
  "Lookup q now i =
     (case map_get (fx_scopes i) (query_scope q) of
        None \<Rightarrow> absent
      | Some facts \<Rightarrow> lookup_scope (fx_collectionWindow i) facts q now (now - fx_ttl i))"

definition awaitsBetterEvidence :: "FactQuery \<Rightarrow> AuthorResolution \<Rightarrow> bool" where
  "awaitsBetterEvidence q r =
     (if fq_ExactCapable q \<or> ar_Result r = AttributionAbsent then False
      else if ar_Result r \<in> {AttributionDeleteSticky, AttributionDeleteCollectionBodyUID, AttributionDeleteCollectionScope}
      then False
      else \<not> isRemovalVerb (af_Verb (ar_Fact r)))"

text \<open>
  One read of the index inside \<open>Await\<close>: \<open>Inr\<close> is the answer it returns with, \<open>Inl\<close> the fallback it goes on
  holding. The loop takes the clock and the index at each signal of the waiter's channel.
\<close>

definition await_read :: "FactQuery \<Rightarrow> AuthorResolution \<Rightarrow> gotime \<Rightarrow> FactIndex \<Rightarrow> AuthorResolution + AuthorResolution" where
  "await_read q fallback now i =
     (let r = Lookup q now i in
      if ar_Result r = AttributionAbsent then Inl fallback
      else if \<not> awaitsBetterEvidence q r then Inr r
      else Inl r)"

fun await_loop :: "FactQuery \<Rightarrow> AuthorResolution \<Rightarrow> (gotime \<times> FactIndex) list \<Rightarrow> AuthorResolution" where
  "await_loop q fallback [] = fallback"
| "await_loop q fallback ((now, i) # signals) =
     (case await_read q fallback now i of
        Inr r \<Rightarrow> r
      | Inl fallback \<Rightarrow> await_loop q fallback signals)"

definition Await :: "FactQuery \<Rightarrow> duration \<Rightarrow> gotime \<Rightarrow> FactIndex \<Rightarrow> (gotime \<times> FactIndex) list \<Rightarrow> AuthorResolution" where
  "Await q grace now i signals =
     (case await_read q absent now i of
        Inr r \<Rightarrow> r
      | Inl fallback \<Rightarrow> if grace \<le> 0 then fallback else await_loop q fallback signals)"

section \<open>Waiters\<close>

text \<open>A waiter is named by a number; \<open>wr_signalled\<close> lists the waiters whose channel holds a token.\<close>

record factWaiterRegistry =
  wr_byKey :: "(factWaiterKey, nat list) gomap"
  wr_signalled :: "nat list"

definition waiters_at :: "factWaiterKey \<Rightarrow> factWaiterRegistry \<Rightarrow> nat list" where
  "waiters_at key r = (case map_get (wr_byKey r) key of None \<Rightarrow> [] | Some ws \<Rightarrow> ws)"

definition register :: "nat \<Rightarrow> factWaiterKey list \<Rightarrow> factWaiterRegistry \<Rightarrow> factWaiterRegistry" where
  "register w keys r =
     fold (\<lambda>key r. r\<lparr> wr_byKey := map_put key (List.insert w (waiters_at key r)) (wr_byKey r) \<rparr>) keys r"

definition unregister :: "nat \<Rightarrow> factWaiterKey list \<Rightarrow> factWaiterRegistry \<Rightarrow> factWaiterRegistry" where
  "unregister w keys r =
     fold (\<lambda>key r. case map_get (wr_byKey r) key of
                      None \<Rightarrow> r
                    | Some ws \<Rightarrow>
                        (let ws = removeAll w ws in
                         r\<lparr> wr_byKey := (if ws = [] then map_del key (wr_byKey r) else map_put key ws (wr_byKey r)) \<rparr>)) keys r"

definition wake_waiters :: "factWaiterKey list \<Rightarrow> factWaiterRegistry \<Rightarrow> factWaiterRegistry" where
  "wake_waiters keys r =
     fold (\<lambda>key r. r\<lparr> wr_signalled := fold List.insert (waiters_at key r) (wr_signalled r) \<rparr>) keys r"

section \<open>Applying deliveries\<close>

definition entryAppendTime :: "string \<Rightarrow> gotime \<Rightarrow> gotime" where
  "entryAppendTime pos now =
     (let millis = fst (parseStreamID pos) in
      if millis = 0 \<or> int millis > MaxInt64 then now
      else let at = UnixMilli millis in if at > now then now else at)"

definition entry_scope :: "FactEntry \<Rightarrow> factScope" where
  "entry_scope entry = \<lparr> fsc_route = fk_AuditRoute (fe_Key entry), fsc_groupResource = key_groupResource (fe_Key entry) \<rparr>"

definition Apply ::
  "fact_config \<Rightarrow> gotime \<Rightarrow> FactEntry \<Rightarrow> FactIndex \<times> factWaiterRegistry \<Rightarrow> FactIndex \<times> factWaiterRegistry" where
  "Apply cfg now entry st =
     fold (\<lambda>f (i, r). case store_fact cfg (entry_scope entry) f (entryAppendTime (fe_ID entry) now) i of
                       (keys, i) \<Rightarrow> (i, wake_waiters keys r)) (fe_Facts entry) st"

text \<open>
  One round of \<open>Run\<close> after \<open>Next\<close> answered: each entry of the delivery is applied, with the clock read for
  it, then the index is swept when the interval has passed. A round whose \<open>Next\<close> failed changes nothing.
\<close>

type_synonym run_state = "(FactIndex \<times> factWaiterRegistry) \<times> gotime"

definition run_round :: "fact_config \<Rightarrow> (gotime \<times> FactEntry) list \<times> gotime \<Rightarrow> run_state \<Rightarrow> run_state" where
  "run_round cfg = (\<lambda>(delivery, now) (st, lastSweep).
     let (i, r) = fold (\<lambda>(t, entry). Apply cfg t entry) delivery st in
     if now - lastSweep \<ge> fx_sweepInterval i then ((snd (fx_Sweep now i), r), now) else ((i, r), lastSweep))"

section \<open>The invariant of the index\<close>

definition held :: "(factScope, scopeFacts) gomap \<Rightarrow> int" where
  "held m = sum_list (map (\<lambda>(_, s). sf_count s) m)"

definition scopes_inv :: "nat \<Rightarrow> (factScope, scopeFacts) gomap \<Rightarrow> bool" where
  "scopes_inv n m \<longleftrightarrow> map_wf m \<and> (\<forall>(scope, s) \<in> set m. scope_inv n s \<and> sf_count s \<noteq> 0)"

definition index_inv :: "FactIndex \<Rightarrow> bool" where
  "index_inv i \<longleftrightarrow> scopes_inv (fx_seq i) (fx_scopes i) \<and> fx_total i = held (fx_scopes i)
     \<and> fx_total i \<le> fx_maxTotal i \<and> 0 < fx_maxTotal i \<and> 0 < fx_maxPerType i
     \<and> (\<forall>(scope, s) \<in> set (fx_scopes i). sf_count s \<le> fx_maxPerType i)"

lemma scope_count_nonneg: "scope_inv n s \<Longrightarrow> 0 \<le> sf_count s"
  by (simp add: scope_inv_def)

lemmas put_next = put_inv [OF _ lessI]

lemma file_fact_inv:
  assumes "scope_inv n s" and "file_fact cfg scope f now s n = (keys, s', n')"
  shows "scope_inv n' s'" and "n \<le> n'"
proof -
  show "n \<le> n'" using assms(2) by (auto simp: file_fact_def Let_def split: if_splits prod.splits)
  show "scope_inv n' s'"
    using assms
    by (auto simp: file_fact_def Let_def newIndexedCollection_def split: if_splits
        intro!: put_next)
qed

lemma evict_to_cap_spec:
  assumes "scope_inv n s" and "0 \<le> cap" and "evict_to_cap cap s k = (s', k')"
  shows "scope_inv n s' \<and> sf_count s' \<le> cap \<and> sf_count s' = sf_count s - (k' - k) \<and> set (entries s') \<subseteq> set (entries s)
     \<and> (sf_count s \<le> cap \<longrightarrow> s' = s)"
  using assms
proof (induction cap s k rule: evict_to_cap.induct)
  case (1 cap s k)
  show ?case
  proof (cases "sf_count s > cap")
    case False
    then show ?thesis using "1.prems" by (simp add: evict_to_cap.simps [of cap s k])
  next
    case True
    then have "entries s \<noteq> []" using "1.prems" by (auto simp: scope_inv_def)
    moreover obtain b t where e: "evictOldest s = (b, t)" by (cases "evictOldest s")
    ultimately have b: b using evictOldest_spec [OF "1.prems"(1)] by (cases b) auto
    have t: "scope_inv n t" "sf_count t = sf_count s - 1" "set (entries t) \<subseteq> set (entries s)"
      using evictOldest_spec [OF "1.prems"(1)] e b by auto
    have "evict_to_cap cap t (k + 1) = (s', k')"
      using "1.prems"(3) True e b by (simp add: evict_to_cap.simps [of cap s k])
    from "1.IH" [OF True e [symmetric] _ t(1) "1.prems"(2) this] t True b show ?thesis by auto
  qed
qed

lemma held_put:
  assumes "map_wf m"
  shows "held (map_put scope s m) = held m - (case map_get m scope of None \<Rightarrow> 0 | Some t \<Rightarrow> sf_count t) + sf_count s"
  using assms by (induction m) (auto simp: held_def split: option.splits)

lemma held_del:
  assumes "map_wf m"
  shows "held (map_del scope m) = held m - (case map_get m scope of None \<Rightarrow> 0 | Some t \<Rightarrow> sf_count t)"
  using assms
proof (induction m)
  case (Cons p m)
  obtain k v where p: "p = (k, v)" by (cases p)
  show ?case
  proof (cases "k = scope")
    case True
    with Cons.prems p have "map_get m scope = None" by (auto simp: map_of_eq_None_iff)
    then have "map_del scope m = m" by (simp add: AList.delete_eq filter_id_conv map_of_eq_None_iff) force
    with True p show ?thesis by (simp add: held_def)
  next
    case False
    with Cons p show ?thesis by (auto simp: held_def split: option.splits)
  qed
qed (simp add: held_def)

lemma held_put_or_drop:
  assumes "map_wf m"
  shows "held (put_or_drop scope s m) = held m - (case map_get m scope of None \<Rightarrow> 0 | Some t \<Rightarrow> sf_count t) + sf_count s"
  using held_put [OF assms] held_del [OF assms] by (simp add: put_or_drop_def scope_empty_def)

lemma scopes_inv_put_or_drop: "scopes_inv n m \<Longrightarrow> scope_inv n s \<Longrightarrow> scopes_inv n (put_or_drop scope s m)"
  by (auto simp: scopes_inv_def put_or_drop_def scope_empty_def set_map_put set_map_del)

lemma largest_scope_spec:
  assumes "largest_scope best m = Some (scope, s)"
  shows "(best = Some (scope, s) \<or> (scope, s) \<in> set m) \<and> (\<forall>(_, t) \<in> set m. sf_count t \<le> sf_count s)
     \<and> (\<forall>b t. best = Some (b, t) \<longrightarrow> sf_count t \<le> sf_count s)"
  using assms by (induction best m rule: largest_scope.induct) (fastforce split: option.splits if_splits prod.splits)+

lemma largest_scope_None: "largest_scope best m = None \<longleftrightarrow> best = None \<and> m = []"
  by (induction best m rule: largest_scope.induct) (auto split: option.splits)

lemma held_positive: "0 < held m \<Longrightarrow> \<exists>(_, t) \<in> set m. 0 < sf_count t"
  by (induction m) (force simp: held_def)+


text \<open>Under pressure one entry goes, the oldest of the scope that holds the most.\<close>

lemma evictFromLargestScope_spec:
  assumes inv: "scopes_inv n m" and "0 < held m" and ev: "evictFromLargestScope m = (b, m')"
  shows "b \<and> scopes_inv n m' \<and> held m' = held m - 1
     \<and> (\<forall>scope s'. map_get m' scope = Some s' \<longrightarrow>
          (\<exists>s. map_get m scope = Some s \<and> set (entries s') \<subseteq> set (entries s) \<and> sf_count s' \<le> sf_count s))"
proof -
  have wf: "map_wf m" using inv by (simp add: scopes_inv_def)
  obtain k t where t: "(k, t) \<in> set m" "0 < sf_count t" using held_positive [OF assms(2)] by auto
  then obtain scope s where l: "largest_scope None m = Some (scope, s)"
    using largest_scope_None [of None m] by (cases "largest_scope None m") auto
  note l' = largest_scope_spec [OF l]
  then have mem: "(scope, s) \<in> set m" and pos: "0 < sf_count s" using t by fastforce+
  have s: "scope_inv n s" and get: "map_get m scope = Some s"
    using inv mem map_of_is_SomeI [OF wf mem] by (auto simp: scopes_inv_def)
  obtain c s' where e: "evictOldest s = (c, s')" by (cases "evictOldest s")
  have "entries s \<noteq> []" using s pos by (auto simp: scope_inv_def)
  then have c: c using evictOldest_spec [OF s] e by (cases c) auto
  then have s': "scope_inv n s'" "sf_count s' = sf_count s - 1" "set (entries s') \<subseteq> set (entries s)"
    using evictOldest_spec [OF s] e by auto
  have m': "m' = put_or_drop scope s' m" and b using ev l e c by (auto simp: evictFromLargestScope_def)
  have "held m' = held m - 1" using held_put_or_drop [OF wf, of scope s'] get s'(2) by (simp add: m')
  moreover have "\<exists>u. map_get m x = Some u \<and> set (entries u') \<subseteq> set (entries u) \<and> sf_count u' \<le> sf_count u"
    if "map_get m' x = Some u'" for x u'
    using that get s' by (auto simp: m' put_or_drop_def al.lookup_put al.lookup_del split: if_splits)
  ultimately show ?thesis using scopes_inv_put_or_drop [OF inv s'(1)] \<open>b\<close> by (auto simp: m')
qed

lemma evict_to_total_spec:
  assumes "scopes_inv n m" and "tot = held m" and "0 \<le> cap" and "evict_to_total cap m tot = (m', tot')"
  shows "scopes_inv n m' \<and> tot' = held m' \<and> tot' \<le> cap
     \<and> (\<forall>scope s'. map_get m' scope = Some s' \<longrightarrow>
          (\<exists>s. map_get m scope = Some s \<and> set (entries s') \<subseteq> set (entries s) \<and> sf_count s' \<le> sf_count s))
     \<and> (tot \<le> cap \<longrightarrow> m' = m)"
  using assms
proof (induction cap m tot rule: evict_to_total.induct)
  case (1 cap m tot)
  show ?case
  proof (cases "tot > cap")
    case False
    then have "m' = m" "tot' = tot" using "1.prems"(4) by (simp_all add: evict_to_total.simps [of cap m tot])
    then show ?thesis using "1.prems"(1,2) False by auto
  next
    case True
    obtain b m1 where e: "evictFromLargestScope m = (b, m1)" by (cases "evictFromLargestScope m")
    have "0 < held m" using True "1.prems" by simp
    note step = evictFromLargestScope_spec [OF "1.prems"(1) this e]
    have "evict_to_total cap m1 (tot - 1) = (m', tot')"
      using "1.prems"(4) True e step by (simp add: evict_to_total.simps [of cap m tot])
    from "1.IH" [OF True e [symmetric] _ _ _ "1.prems"(3) this] step "1.prems"(2)
    have IH: "scopes_inv n m' \<and> tot' = held m' \<and> tot' \<le> cap
     \<and> (\<forall>scope s'. map_get m' scope = Some s' \<longrightarrow>
          (\<exists>s. map_get m1 scope = Some s \<and> set (entries s') \<subseteq> set (entries s) \<and> sf_count s' \<le> sf_count s))" by simp
    have "\<exists>s. map_get m scope = Some s \<and> set (entries s') \<subseteq> set (entries s) \<and> sf_count s' \<le> sf_count s"
      if "map_get m' scope = Some s'" for scope s'
      using IH step that by (meson order.trans)
    with IH True show ?thesis by simp
  qed
qed

lemma map_get_entry: "map_wf m \<Longrightarrow> (k, v) \<in> set m \<longleftrightarrow> map_get m k = Some v"
  by simp

lemma fact_scopeFor_inv: "scopes_inv n (fx_scopes i) \<Longrightarrow> scope_inv n (fact_scopeFor scope i)"
  by (auto simp: fact_scopeFor_def scopes_inv_def scope_inv_new split: option.splits dest: map_of_SomeD)

lemma scopes_inv_mono: "scopes_inv n m \<Longrightarrow> n \<le> n' \<Longrightarrow> scopes_inv n' m"
  using scope_inv_mono by (fastforce simp: scopes_inv_def)

lemma store_fact_inv:
  assumes inv: "index_inv i" and st: "store_fact cfg scope f now i = (keys, i')"
  shows "index_inv i' \<and> fx_maxPerType i' = fx_maxPerType i \<and> fx_maxTotal i' = fx_maxTotal i \<and> fx_ttl i' = fx_ttl i
     \<and> fx_collectionWindow i' = fx_collectionWindow i"
proof -
  let ?s = "fact_scopeFor scope i"
  obtain s1 n where f: "file_fact cfg scope f now ?s (fx_seq i) = (keys, s1, n)"
    using st by (auto simp: store_fact_def Let_def split: prod.splits)
  obtain s2 k where e: "evict_to_cap (fx_maxPerType i) s1 0 = (s2, k)" by (metis surj_pair)
  let ?m = "put_or_drop scope s2 (fx_scopes i)" and ?t = "fx_total i + (sf_count s1 - sf_count ?s) - k"
  obtain m' tot' where t: "evict_to_total (fx_maxTotal i) ?m ?t = (m', tot')" by (metis surj_pair)
  have i': "i' = i\<lparr> fx_seq := n, fx_scopes := m', fx_total := tot' \<rparr>"
    using st f e t by (simp add: store_fact_def enforceCaps_def Let_def)
  have si: "scopes_inv (fx_seq i) (fx_scopes i)" and caps: "0 < fx_maxTotal i" "0 < fx_maxPerType i"
    using inv by (auto simp: index_inv_def)
  note filed = file_fact_inv [OF fact_scopeFor_inv [OF si] f]
  have s2: "scope_inv n s2" "sf_count s2 \<le> fx_maxPerType i" "sf_count s2 = sf_count s1 - k"
    using evict_to_cap_spec [OF filed(1) _ e] caps by auto
  have wf: "map_wf (fx_scopes i)" using si by (simp add: scopes_inv_def)
  have "(case map_get (fx_scopes i) scope of None \<Rightarrow> 0 | Some t \<Rightarrow> sf_count t) = sf_count ?s"
    by (simp add: fact_scopeFor_def newScopeFacts_def split: option.splits)
  then have "?t = held ?m" using held_put_or_drop [OF wf, of scope s2] s2(3) inv by (simp add: index_inv_def)
  note spec = evict_to_total_spec [OF scopes_inv_put_or_drop [OF scopes_inv_mono [OF si filed(2)] s2(1)] this
      less_imp_le [OF caps(1)] t]
  then have m': "scopes_inv n m'" "tot' = held m'" "tot' \<le> fx_maxTotal i" by simp_all
  have sub: "\<exists>u. map_get ?m x = Some u \<and> sf_count u' \<le> sf_count u" if "map_get m' x = Some u'" for x u'
    using spec that by blast
  have "sf_count u' \<le> fx_maxPerType i" if "(x, u') \<in> set m'" for x u'
  proof -
    have "map_get m' x = Some u'" using that m'(1) by (simp add: scopes_inv_def)
    then obtain u where u: "map_get ?m x = Some u" "sf_count u' \<le> sf_count u" using sub by blast
    then have "u = s2 \<or> map_get (fx_scopes i) x = Some u"
      by (auto simp: put_or_drop_def al.lookup_put al.lookup_del split: if_splits)
    then show ?thesis using u s2(2) inv map_of_SomeD [of "fx_scopes i" x u] by (force simp: index_inv_def)
  qed
  then show ?thesis using m' caps i' by (auto simp: index_inv_def)
qed

definition sweep_scopes :: "gotime \<Rightarrow> (factScope, scopeFacts) gomap \<Rightarrow> (factScope, scopeFacts) gomap" where
  "sweep_scopes cutoff m =
     filter (\<lambda>(_, facts). \<not> scope_empty facts) (map (\<lambda>(scope, facts). (scope, snd (scope_sweep cutoff facts))) m)"

lemma sweep_held:
  assumes "\<forall>(scope, s) \<in> set m. scope_inv n s"
  shows "held (sweep_scopes cutoff m) = held m - sum_list (map (\<lambda>(_, s). fst (scope_sweep cutoff s)) m)"
  using assms
proof (induction m)
  case (Cons p m)
  obtain scope s where p: "p = (scope, s)" by (cases p)
  obtain removed s' where sw: "scope_sweep cutoff s = (removed, s')" by (cases "scope_sweep cutoff s")
  then have "sf_count s' = sf_count s - removed" using scope_sweep_inv(2) [of n s cutoff] Cons.prems p by auto
  with Cons p sw show ?case by (auto simp: held_def sweep_scopes_def scope_empty_def)
qed (simp add: held_def sweep_scopes_def)

lemma fx_Sweep_form:
  "fx_Sweep now i = (sum_list (map (\<lambda>(_, s). fst (scope_sweep (now - fx_ttl i) s)) (fx_scopes i)),
     i\<lparr> fx_scopes := sweep_scopes (now - fx_ttl i) (fx_scopes i),
        fx_total := fx_total i - sum_list (map (\<lambda>(_, s). fst (scope_sweep (now - fx_ttl i) s)) (fx_scopes i)) \<rparr>)"
  by (simp add: fx_Sweep_def Let_def sweep_scopes_def case_prod_unfold comp_def)

lemma sweep_scopes_inv:
  assumes "scopes_inv n m"
  shows "scopes_inv n (sweep_scopes cutoff m)"
    and "(scope, s') \<in> set (sweep_scopes cutoff m) \<Longrightarrow> \<exists>s. (scope, s) \<in> set m \<and> snd (scope_sweep cutoff s) = s'"
proof -
  show *: "\<exists>s. (scope, s) \<in> set m \<and> snd (scope_sweep cutoff s) = s'" if "(scope, s') \<in> set (sweep_scopes cutoff m)" for scope s'
    using that by (auto simp: sweep_scopes_def)
  have "map fst (sweep_scopes cutoff m) = map fst (filter (\<lambda>(_, s). \<not> scope_empty (snd (scope_sweep cutoff s))) m)"
    by (induction m) (auto simp: sweep_scopes_def)
  then have "map_wf (sweep_scopes cutoff m)" using assms by (simp add: scopes_inv_def distinct_map_filter)
  moreover have "scope_inv n s'" if "(scope, s') \<in> set (sweep_scopes cutoff m)" for scope s'
  proof -
    have "\<exists>s. (scope, s) \<in> set m \<and> snd (scope_sweep cutoff s) = s'" using * [OF that] .
    then obtain s where s: "(scope, s) \<in> set m" "snd (scope_sweep cutoff s) = s'" by blast
    then have "scope_inv n s" using assms by (auto simp: scopes_inv_def)
    from scope_sweep_inv(1) [OF this, of cutoff "fst (scope_sweep cutoff s)"] show ?thesis using s by (simp add: prod_eq_iff)
  qed
  ultimately show "scopes_inv n (sweep_scopes cutoff m)"
    by (auto simp: scopes_inv_def) (auto simp: sweep_scopes_def scope_empty_def)
qed

lemma scope_sweep_fewer:
  assumes "scope_inv n s"
  shows "sf_count (snd (scope_sweep cutoff s)) \<le> sf_count s"
proof -
  have "0 \<le> fst (scope_sweep cutoff s)"
    by (auto simp: scope_sweep_def Let_def intro!: add_nonneg_nonneg)
  then show ?thesis using scope_sweep_inv(2) [OF assms, of cutoff "fst (scope_sweep cutoff s)" "snd (scope_sweep cutoff s)"]
    by simp
qed

lemma fx_Sweep_inv:
  assumes inv: "index_inv i" and sw: "fx_Sweep now i = (removed, i')"
  shows "index_inv i' \<and> fx_maxPerType i' = fx_maxPerType i \<and> fx_maxTotal i' = fx_maxTotal i \<and> fx_ttl i' = fx_ttl i
     \<and> fx_collectionWindow i' = fx_collectionWindow i"
proof -
  let ?m = "sweep_scopes (now - fx_ttl i) (fx_scopes i)"
  have si: "scopes_inv (fx_seq i) (fx_scopes i)" using inv by (simp add: index_inv_def)
  then have all: "\<forall>(scope, s) \<in> set (fx_scopes i). scope_inv (fx_seq i) s" by (auto simp: scopes_inv_def)
  have i': "i' = i\<lparr> fx_scopes := ?m, fx_total := held ?m \<rparr>"
    using sw sweep_held [OF all, of "now - fx_ttl i"] inv by (auto simp: fx_Sweep_form index_inv_def)
  have fewer: "\<exists>s. (scope, s) \<in> set (fx_scopes i) \<and> sf_count s' \<le> sf_count s" if "(scope, s') \<in> set ?m" for scope s'
    using sweep_scopes_inv(2) [OF si that] all scope_sweep_fewer by fastforce
  have "held ?m \<le> held (fx_scopes i)"
  proof -
    have "0 \<le> sum_list (map (\<lambda>(_, s). fst (scope_sweep (now - fx_ttl i) s)) (fx_scopes i))"
      by (intro sum_list_nonneg) (auto simp: scope_sweep_def Let_def intro!: add_nonneg_nonneg)
    then show ?thesis using sweep_held [OF all, of "now - fx_ttl i"] by simp
  qed
  then show ?thesis
    using inv sweep_scopes_inv(1) [OF si, of "now - fx_ttl i"] fewer unfolding i' index_inv_def by fastforce
qed

end
