(* ===== verification/Fact_Join.thy ===== *)
theory Fact_Join
  imports Fact_Index
begin

text \<open>
  What the attribution index answers over a whole run (\<open>internal/queue/fact_index.go\<close>, \<open>Run\<close> and \<open>Await\<close>).
  A run is a list of rounds from an empty index. The lemmas rest on one relation: a scope is thinner
  than another when it holds some of its entries and nothing else. Eviction and sweeping thin the index;
  filing a fact adds only what the fact says. The properties are the bounds of the memory, the
  provenance of every answer, the stickiness of a deletion, the resolution \<open>Await\<close> settles on, and that
  a parked resolver never sleeps through the fact it waits for.
\<close>

section \<open>Thinning\<close>

definition thin :: "scopeFacts \<Rightarrow> scopeFacts \<Rightarrow> bool" where
  "thin s' s \<longleftrightarrow> map_of (sf_exact s') \<subseteq>\<^sub>m map_of (sf_exact s) \<and> map_of (sf_latest s') \<subseteq>\<^sub>m map_of (sf_latest s)
     \<and> map_of (sf_removals s') \<subseteq>\<^sub>m map_of (sf_removals s) \<and> map_of (sf_rvOnly s') \<subseteq>\<^sub>m map_of (sf_rvOnly s)
     \<and> map_of (sf_byName s') \<subseteq>\<^sub>m map_of (sf_byName s) \<and> set (sf_collections s') \<subseteq> set (sf_collections s)"

definition thin_scopes :: "(factScope, scopeFacts) gomap \<Rightarrow> (factScope, scopeFacts) gomap \<Rightarrow> bool" where
  "thin_scopes m' m \<longleftrightarrow> (\<forall>scope s'. map_get m' scope = Some s' \<longrightarrow> (\<exists>s. map_get m scope = Some s \<and> thin s' s))"

lemma thin_refl [simp]: "thin s s"
  by (simp add: thin_def)

lemma thin_trans: "thin a b \<Longrightarrow> thin b c \<Longrightarrow> thin a c"
  by (auto simp: thin_def intro: map_le_trans)

lemma thin_frame [simp]: "thin (s'\<lparr> sf_order := x \<rparr>) s = thin s' s" "thin (s'\<lparr> sf_count := c \<rparr>) s = thin s' s"
  "thin s' (s\<lparr> sf_order := x \<rparr>) = thin s' s" "thin s' (s\<lparr> sf_count := c \<rparr>) = thin s' s"
  by (simp_all add: thin_def)

lemma thin_scopes_refl [simp]: "thin_scopes m m"
  by (auto simp: thin_scopes_def)

lemma thin_scopes_trans: "thin_scopes a b \<Longrightarrow> thin_scopes b c \<Longrightarrow> thin_scopes a c"
  unfolding thin_scopes_def by (meson thin_trans)

lemma map_del_le: "map_of (map_del k m) \<subseteq>\<^sub>m map_of m"
  by (auto simp: map_le_def al.lookup_del split: if_splits)

lemma removeKeyed_le: "removeKeyed m k n = Some m' \<Longrightarrow> map_of m' \<subseteq>\<^sub>m map_of m"
  by (auto simp: removeKeyed_def map_del_le split: option.splits if_splits)

lemma removeCollection_le: "removeCollection n cs = Some cs' \<Longrightarrow> set cs' \<subseteq> set cs"
  by (induction cs arbitrary: cs') (auto split: if_splits)

lemma sf_remove_thin: "sf_remove ref s = Some s' \<Longrightarrow> thin s' s"
  by (auto simp: sf_remove_def thin_def removeKeyed_le removeCollection_le dest: subsetD [OF removeCollection_le]
      split: factKind.splits)

lemma evict_refs_thin: "evict_refs refs s = (b, s') \<Longrightarrow> thin s' s"
proof (induction refs s arbitrary: s' rule: evict_refs.induct)
  case (2 r refs s)
  then show ?case by (auto split: option.splits dest!: sf_remove_thin)
qed auto

lemma evictOldest_thin: "evictOldest s = (b, s') \<Longrightarrow> thin s' s"
  by (simp add: evictOldest_def evict_refs_thin)

lemma evict_to_cap_thin: "evict_to_cap cap s k = (s', k') \<Longrightarrow> thin s' s"
proof (induction cap s k rule: evict_to_cap.induct)
  case (1 cap s k)
  obtain b t where e: "evictOldest s = (b, t)" by (cases "evictOldest s")
  show ?case
    using "1.prems" "1.IH" [OF _ e [symmetric]] evictOldest_thin [OF e] e
    by (auto simp: evict_to_cap.simps [of cap s k] intro: thin_trans split: if_splits bool.splits)
qed

lemma thin_put:
  assumes "map_get m scope = Some s" and "thin s' s"
  shows "thin_scopes (map_put scope s' m) m" and "thin_scopes (put_or_drop scope s' m) m"
  using assms by (auto simp: thin_scopes_def put_or_drop_def al.lookup_put al.lookup_del)

lemma thin_put_over: "thin s' s \<Longrightarrow> thin_scopes (put_or_drop scope s' m) (map_put scope s m)"
  by (auto simp: thin_scopes_def put_or_drop_def al.lookup_put al.lookup_del)

lemma evictFromLargestScope_thin:
  assumes "evictFromLargestScope m = (b, m')" and "map_wf m"
  shows "thin_scopes m' m" and "map_wf m'"
proof -
  have get: "map_get m scope = Some s" if "largest_scope None m = Some (scope, s)" for scope s
    using largest_scope_spec [OF that] assms(2) by auto
  show "thin_scopes m' m" using assms(1)
    by (auto simp: evictFromLargestScope_def split: option.splits prod.splits bool.splits
        dest!: get evictOldest_thin intro: thin_put)
  show "map_wf m'" using assms
    by (auto simp: evictFromLargestScope_def put_or_drop_def split: option.splits prod.splits bool.splits if_splits)
qed

lemma evict_to_total_thin: "evict_to_total cap m tot = (m', tot') \<Longrightarrow> map_wf m \<Longrightarrow> thin_scopes m' m"
proof (induction cap m tot rule: evict_to_total.induct)
  case (1 cap m tot)
  obtain b t where e: "evictFromLargestScope m = (b, t)" by (cases "evictFromLargestScope m")
  show ?case
    using "1.prems" "1.IH" [OF _ e [symmetric]] evictFromLargestScope_thin [OF e "1.prems"(2)] e
    by (auto simp: evict_to_total.simps [of cap m tot] intro: thin_scopes_trans split: if_splits bool.splits)
qed

lemma store_fact_thin:
  assumes "store_fact cfg scope f now i = (keys, i')" and "map_wf (fx_scopes i)"
  obtains s1 n where "file_fact cfg scope f now (fact_scopeFor scope i) (fx_seq i) = (keys, s1, n)"
    and "thin_scopes (fx_scopes i') (map_put scope s1 (fx_scopes i))"
proof -
  obtain s1 n where f: "file_fact cfg scope f now (fact_scopeFor scope i) (fx_seq i) = (keys, s1, n)"
    using assms by (auto simp: store_fact_def Let_def split: prod.splits)
  obtain s2 k where e: "evict_to_cap (fx_maxPerType i) s1 0 = (s2, k)" by (metis surj_pair)
  let ?m = "put_or_drop scope s2 (fx_scopes i)"
  obtain m' tot' where t: "evict_to_total (fx_maxTotal i) ?m (fx_total i + (sf_count s1 - sf_count (fact_scopeFor scope i)) - k) = (m', tot')"
    by (metis surj_pair)
  have "fx_scopes i' = m'" using assms f e t by (auto simp: store_fact_def enforceCaps_def Let_def)
  moreover have "thin_scopes m' ?m" using evict_to_total_thin [OF t] assms(2) by (simp add: put_or_drop_def)
  ultimately show ?thesis using that [OF f] thin_put_over [OF evict_to_cap_thin [OF e]] thin_scopes_trans by simp
qed

lemma map_le_fresh: "map_wf m \<Longrightarrow> map_of (filter (fresh cutoff) m) \<subseteq>\<^sub>m map_of m"
  by (auto simp: map_le_def map_of_filter_fresh dom_def split: option.splits if_splits)

lemma scope_sweep_thin: "scope_wf s \<Longrightarrow> thin (snd (scope_sweep cutoff s)) s"
  by (auto simp: scope_sweep_def Let_def thin_def scope_wf_def map_le_fresh compact_def)

lemma fx_Sweep_thin:
  assumes "index_inv i"
  shows "thin_scopes (fx_scopes (snd (fx_Sweep now i))) (fx_scopes i)"
proof -
  have si: "scopes_inv (fx_seq i) (fx_scopes i)" using assms by (simp add: index_inv_def)
  let ?m = "sweep_scopes (now - fx_ttl i) (fx_scopes i)"
  have "\<exists>s. map_get (fx_scopes i) scope = Some s \<and> thin s' s" if "map_get ?m scope = Some s'" for scope s'
  proof -
    from sweep_scopes_inv(2) [OF si map_of_SomeD [OF that]]
    obtain s where s: "(scope, s) \<in> set (fx_scopes i)" "snd (scope_sweep (now - fx_ttl i) s) = s'" by blast
    then show ?thesis using si scope_sweep_thin [of s] by (auto simp: scopes_inv_def scope_inv_def)
  qed
  then show ?thesis by (simp add: thin_scopes_def fx_Sweep_form)
qed

section \<open>Runs\<close>

text \<open>
  The induction over a run: \<open>P n\<close> holds after \<open>n\<close> facts were filed when filing any fact of the run takes \<open>P n\<close>
  to \<open>P (Suc n)\<close> and every sweep keeps it.
\<close>

definition run_deliveries :: "((gotime \<times> FactEntry) list \<times> gotime) list \<Rightarrow> (gotime \<times> FactEntry) list" where
  "run_deliveries rounds = concat (map fst rounds)"

definition facts_of :: "(gotime \<times> FactEntry) list \<Rightarrow> nat" where
  "facts_of d = sum_list (map (\<lambda>(_, e). length (fe_Facts e)) d)"

lemma Apply_induct:
  assumes "P n i" and "\<And>n i f. P n i \<Longrightarrow> f \<in> set (fe_Facts e) \<Longrightarrow>
      P (Suc n) (snd (store_fact cfg (entry_scope e) f (entryAppendTime (fe_ID e) t) i))"
  shows "P (n + length (fe_Facts e)) (fst (Apply cfg t e (i, r)))"
proof -
  have "P (n + length fs) (fst (fold (\<lambda>f (i, r). case store_fact cfg (entry_scope e) f (entryAppendTime (fe_ID e) t) i of
      (keys, i) \<Rightarrow> (i, wake_waiters keys r)) fs (i, r)))" if "set fs \<subseteq> set (fe_Facts e)" for fs
    using that assms(1)
  proof (induction fs arbitrary: n i r)
    case (Cons f fs)
    obtain keys j where st: "store_fact cfg (entry_scope e) f (entryAppendTime (fe_ID e) t) i = (keys, j)" by (metis surj_pair)
    then have "P (Suc n) j" using assms(2) [of n i f] Cons.prems by simp
    with st Cons.IH [of "Suc n" j] Cons.prems(1) show ?case by simp
  qed simp
  then show ?thesis by (simp add: Apply_def)
qed

lemma run_round_induct:
  assumes "P n (fst (fst st))"
    and store: "\<And>n i t e f. P n i \<Longrightarrow> (t, e) \<in> set (fst rd) \<Longrightarrow> f \<in> set (fe_Facts e) \<Longrightarrow>
      P (Suc n) (snd (store_fact cfg (entry_scope e) f (entryAppendTime (fe_ID e) t) i))"
    and sweep: "\<And>n i now. P n i \<Longrightarrow> P n (snd (fx_Sweep now i))"
  shows "P (n + facts_of (fst rd)) (fst (fst (run_round cfg rd st)))"
proof -
  obtain delivery now i r ls where rd: "rd = (delivery, now)" and st: "st = ((i, r), ls)" by (metis surj_pair)
  have "P (n + facts_of d) (fst (fold (\<lambda>(t, entry). Apply cfg t entry) d (i, r)))" if "set d \<subseteq> set delivery" for d
    using that assms(1) unfolding st
  proof (induction d arbitrary: n i r)
    case (Cons p d)
    obtain t e j r' where p: "p = (t, e)" and j: "Apply cfg t e (i, r) = (j, r')" by (metis surj_pair)
    have "P (n + length (fe_Facts e)) j"
      using Apply_induct [of P n i e cfg t r] store Cons.prems j by (auto simp: rd p)
    with Cons.IH [of "n + length (fe_Facts e)" j r'] Cons.prems p j show ?case by (simp add: facts_of_def add.assoc)
  qed (simp add: facts_of_def)
  from this [OF order_refl] sweep show ?thesis
    by (cases "fold (\<lambda>(t, entry). Apply cfg t entry) delivery (i, r)") (simp add: run_round_def rd st)
qed

lemma run_induct:
  assumes "P n (fst (fst st))"
    and "\<And>n i t e f. P n i \<Longrightarrow> (t, e) \<in> set (run_deliveries rounds) \<Longrightarrow> f \<in> set (fe_Facts e) \<Longrightarrow>
      P (Suc n) (snd (store_fact cfg (entry_scope e) f (entryAppendTime (fe_ID e) t) i))"
    and "\<And>n i now. P n i \<Longrightarrow> P n (snd (fx_Sweep now i))"
  shows "P (n + facts_of (run_deliveries rounds)) (fst (fst (fold (run_round cfg) rounds st)))"
  using assms(1,2)
proof (induction rounds arbitrary: n st)
  case (Cons rd rounds)
  have "P (n + facts_of (fst rd)) (fst (fst (run_round cfg rd st)))"
    by (rule run_round_induct) (use Cons.prems assms(3) in \<open>auto simp: run_deliveries_def\<close>)
  then show ?case using Cons.IH [of "n + facts_of (fst rd)" "run_round cfg rd st"] Cons.prems(2)
    by (simp add: run_deliveries_def facts_of_def add.assoc)
qed (simp add: run_deliveries_def facts_of_def)

definition index_run ::
  "fact_config \<Rightarrow> FactIndex \<Rightarrow> factWaiterRegistry \<Rightarrow> gotime \<Rightarrow> ((gotime \<times> FactEntry) list \<times> gotime) list \<Rightarrow> FactIndex" where
  "index_run cfg i r lastSweep rounds = fst (fst (fold (run_round cfg) rounds ((i, r), lastSweep)))"

lemma index_run_induct:
  assumes "P 0 i"
    and "\<And>n i t e f. P n i \<Longrightarrow> (t, e) \<in> set (run_deliveries rounds) \<Longrightarrow> f \<in> set (fe_Facts e) \<Longrightarrow>
      P (Suc n) (snd (store_fact cfg (entry_scope e) f (entryAppendTime (fe_ID e) t) i))"
    and "\<And>n i now. P n i \<Longrightarrow> P n (snd (fx_Sweep now i))"
  shows "P (facts_of (run_deliveries rounds)) (index_run cfg i r ls rounds)"
  using run_induct [of P 0 "((i, r), ls)" rounds cfg] assms by (simp add: index_run_def)

lemma index_inv_start: "index_inv (NewFactIndex ttl maxPerType maxTotal window interval)"
  by (simp add: NewFactIndex_def index_inv_def scopes_inv_def held_def
      DefaultFactIndexMaxFactsPerType_def DefaultFactIndexMaxFactsTotal_def)

definition same_config :: "FactIndex \<Rightarrow> FactIndex \<Rightarrow> bool" where
  "same_config i j \<longleftrightarrow> fx_maxPerType i = fx_maxPerType j \<and> fx_maxTotal i = fx_maxTotal j \<and> fx_ttl i = fx_ttl j
     \<and> fx_collectionWindow i = fx_collectionWindow j"

lemma store_fact_keeps:
  "index_inv i \<Longrightarrow> index_inv (snd (store_fact cfg scope f now i)) \<and> same_config (snd (store_fact cfg scope f now i)) i"
  using store_fact_inv [of i cfg scope f now "fst (store_fact cfg scope f now i)" "snd (store_fact cfg scope f now i)"]
  by (simp add: same_config_def)

lemma fx_Sweep_keeps: "index_inv i \<Longrightarrow> index_inv (snd (fx_Sweep now i)) \<and> same_config (snd (fx_Sweep now i)) i"
  using fx_Sweep_inv [of i now "fst (fx_Sweep now i)" "snd (fx_Sweep now i)"] by (simp add: same_config_def)

lemma index_run_inv:
  assumes "index_inv i"
  shows "index_inv (index_run cfg i r ls rounds) \<and> same_config (index_run cfg i r ls rounds) i"
  by (rule index_run_induct [where P = "\<lambda>_ j. index_inv j \<and> same_config j i"])
    (use assms store_fact_keeps fx_Sweep_keeps in \<open>auto simp: same_config_def\<close>)

text \<open>
  C14: the memory of the attribution index is bounded by its two caps over every run. After any number of
  rounds, whatever the deliveries hold, the size the index reports is the number of entries it holds in
  all its structures, that size is at most the total cap, and no audit route and type holds more than the
  per type cap. A cap configured as zero or less is the default one.
\<close>

theorem index_bounded:
  "let i = index_run cfg (NewFactIndex ttl maxPerType maxTotal window interval) r ls rounds in
     fx_Len i = sum_list (map (\<lambda>(_, s). int (length (entries s))) (fx_scopes i))
     \<and> fx_Len i \<le> (if maxTotal \<le> 0 then 65536 else maxTotal)
     \<and> list_all (\<lambda>(_, s). int (length (entries s)) \<le> (if maxPerType \<le> 0 then 4096 else maxPerType)) (fx_scopes i)"
proof -
  define i where "i = index_run cfg (NewFactIndex ttl maxPerType maxTotal window interval) r ls rounds"
  have i: "index_inv i" "same_config i (NewFactIndex ttl maxPerType maxTotal window interval)"
    using index_run_inv [OF index_inv_start] by (auto simp: i_def)
  have count: "sf_count s = int (length (entries s))" if "(scope, s) \<in> set (fx_scopes i)" for scope s
    using i(1) that by (auto simp: index_inv_def scopes_inv_def scope_inv_def)
  have "map (\<lambda>(_, s). sf_count s) (fx_scopes i) = map (\<lambda>(_, s). int (length (entries s))) (fx_scopes i)"
    using count by auto
  then have "fx_Len i = sum_list (map (\<lambda>(_, s). int (length (entries s))) (fx_scopes i))"
    using i(1) unfolding fx_Len_def index_inv_def held_def by metis
  moreover have "fx_maxTotal i = (if maxTotal \<le> 0 then 65536 else maxTotal)"
      "fx_maxPerType i = (if maxPerType \<le> 0 then 4096 else maxPerType)"
    using i(2) by (auto simp: same_config_def NewFactIndex_def DefaultFactIndexMaxFactsPerType_def
        DefaultFactIndexMaxFactsTotal_def)
  ultimately show ?thesis
    using i(1) count unfolding i_def [symmetric] Let_def fx_Len_def index_inv_def list_all_iff by fastforce
qed

section \<open>The cap loops\<close>

text \<open>
  One pass of each loop: a scope loses the entry that was filed first and keeps the others as they are,
  and of several scopes it is one of those with the most entries that does; an emptied scope is dropped.
\<close>

definition drops_oldest :: "scopeFacts \<Rightarrow> scopeFacts \<Rightarrow> bool" where
  "drops_oldest s s' \<longleftrightarrow> thin s' s
     \<and> (\<exists>r \<in> set (entries s). (\<forall>x \<in> set (entries s). fref_seq r \<le> fref_seq x) \<and> set (entries s') = set (entries s) - {r})"

definition drops_from_largest :: "(factScope, scopeFacts) gomap \<Rightarrow> (factScope, scopeFacts) gomap \<Rightarrow> bool" where
  "drops_from_largest m m' \<longleftrightarrow>
     (\<exists>scope s s'. map_get m scope = Some s \<and> (\<forall>k t. map_get m k = Some t \<longrightarrow> length (entries t) \<le> length (entries s))
        \<and> drops_oldest s s' \<and> map_get m' scope = (if entries s' = [] then None else Some s')
        \<and> (\<forall>k. k \<noteq> scope \<longrightarrow> map_get m' k = map_get m k))"

lemma evictOldest_drops:
  assumes inv: "scope_inv n s" and e: "evictOldest s = (True, s')"
  shows "drops_oldest s s' \<and> scope_inv n s' \<and> sf_count s' = sf_count s - 1"
  using evictOldest_spec [OF inv] evictOldest_thin [OF e] e by (simp add: drops_oldest_def)

lemma evictOldest_succeeds: "scope_inv n s \<Longrightarrow> 0 < sf_count s \<Longrightarrow> \<exists>s'. evictOldest s = (True, s')"
  using evictOldest_spec [of n s] by (cases "evictOldest s"; cases "fst (evictOldest s)") (auto simp: scope_inv_def)

lemma relpowp_next:
  assumes "0 \<le> k" and "P x y" and "(P ^^ nat k) y z"
  shows "(P ^^ nat (k + 1)) x z"
  using relpowp_Suc_I2 [OF assms(2,3)] assms(1) by (simp add: nat_add_distrib)

lemma evict_to_cap_exact:
  assumes "scope_inv n s" and "0 \<le> cap" and "evict_to_cap cap s k = (s', k')"
  shows "k' - k = max 0 (sf_count s - cap) \<and> (drops_oldest ^^ nat (k' - k)) s s'"
  using assms
proof (induction cap s k rule: evict_to_cap.induct)
  case (1 cap s k)
  show ?case
  proof (cases "sf_count s > cap")
    case False
    then show ?thesis using "1.prems" by (simp add: evict_to_cap.simps [of cap s k])
  next
    case True
    then obtain t where e: "evictOldest s = (True, t)" using evictOldest_succeeds [OF "1.prems"(1)] "1.prems"(2) by auto
    note t = evictOldest_drops [OF "1.prems"(1) e]
    have "evict_to_cap cap t (k + 1) = (s', k')"
      using "1.prems"(3) True e by (simp add: evict_to_cap.simps [of cap s k])
    from "1.IH" [OF True e [symmetric] refl _ "1.prems"(2) this] t
    have IH: "k' - (k + 1) = max 0 (sf_count t - cap)" "(drops_oldest ^^ nat (k' - (k + 1))) t s'" by auto
    show ?thesis using relpowp_next [OF _ conjunct1 [OF t] IH(2)] IH(1) t True by simp
  qed
qed

lemma evictFromLargestScope_drops:
  assumes inv: "scopes_inv n m" and held: "0 < held m" and ev: "evictFromLargestScope m = (b, m')"
  shows "drops_from_largest m m'"
proof -
  have wf: "map_wf m" using inv by (simp add: scopes_inv_def)
  obtain k t where t: "(k, t) \<in> set m" "0 < sf_count t" using held_positive [OF held] by auto
  then obtain scope s where l: "largest_scope None m = Some (scope, s)"
    using largest_scope_None [of None m] by (cases "largest_scope None m") auto
  note l' = largest_scope_spec [OF l]
  then have mem: "(scope, s) \<in> set m" and pos: "0 < sf_count s" using t by fastforce+
  have s: "scope_inv n s" and get: "map_get m scope = Some s"
    using inv mem map_of_is_SomeI [OF wf mem] by (auto simp: scopes_inv_def)
  obtain s' where e: "evictOldest s = (True, s')" using evictOldest_succeeds [OF s pos] by blast
  note s' = evictOldest_drops [OF s e]
  have m': "m' = put_or_drop scope s' m" using ev l e by (auto simp: evictFromLargestScope_def)
  have "length (entries u) \<le> length (entries s)" if "map_get m x = Some u" for x u
    using map_of_SomeD [OF that] l' inv s by (fastforce simp: scopes_inv_def scope_inv_def)
  moreover have "scope_empty s' \<longleftrightarrow> entries s' = []" using s' by (auto simp: scope_empty_def scope_inv_def)
  ultimately show ?thesis
    unfolding drops_from_largest_def m'
    by (intro exI [of _ scope] exI [of _ s] exI [of _ s'])
      (use get s' in \<open>auto simp: put_or_drop_def al.lookup_put al.lookup_del\<close>)
qed

lemma evict_to_total_exact:
  assumes "scopes_inv n m" and "tot = held m" and "0 \<le> cap" and "evict_to_total cap m tot = (m', tot')"
  shows "tot - tot' = max 0 (tot - cap) \<and> (drops_from_largest ^^ nat (tot - tot')) m m'"
  using assms
proof (induction cap m tot rule: evict_to_total.induct)
  case (1 cap m tot)
  show ?case
  proof (cases "tot > cap")
    case False
    then show ?thesis using "1.prems"(4) by (simp add: evict_to_total.simps [of cap m tot])
  next
    case True
    obtain b t where e: "evictFromLargestScope m = (b, t)" by (cases "evictFromLargestScope m")
    have held: "0 < held m" using True "1.prems" by simp
    note step = evictFromLargestScope_spec [OF "1.prems"(1) held e]
    have "evict_to_total cap t (tot - 1) = (m', tot')"
      using "1.prems"(4) True e step by (simp add: evict_to_total.simps [of cap m tot])
    from "1.IH" [OF True e [symmetric] _ _ _ "1.prems"(3) this] step "1.prems"(2)
    have IH: "tot - 1 - tot' = max 0 (tot - 1 - cap)" "(drops_from_largest ^^ nat (tot - 1 - tot')) t m'" by auto
    show ?thesis
      using relpowp_next [OF _ evictFromLargestScope_drops [OF "1.prems"(1) held e] IH(2)] IH(1) True
      by (simp add: algebra_simps)
  qed
qed

text \<open>A fact takes at most three entries: the exact one, the latest one and the removal pointer.\<close>

lemma bump_le: "0 \<le> bump m k" "bump m k \<le> 1"
  by (simp_all add: bump_def)

lemma file_fact_count:
  assumes "file_fact cfg scope f now s n = (keys, s', n')"
  shows "sf_count s \<le> sf_count s'" and "sf_count s' \<le> sf_count s + 3"
  using assms bump_le [of "sf_exact s" "(af_UID f, af_ResourceVersion f)"] bump_le [of "sf_latest s" "af_UID f"]
    bump_le [of "sf_removals s" "af_UID f"] bump_le [of "sf_rvOnly s" "af_ResourceVersion f"]
    bump_le [of "sf_byName s" "(af_Namespace f, af_Name f)"]
  by (auto simp: file_fact_def Let_def put_defs split: if_splits)

lemma count_le_held: "\<forall>(_, t) \<in> set m. 0 \<le> sf_count t \<Longrightarrow> (scope, s) \<in> set m \<Longrightarrow> sf_count s \<le> held m"
proof (induction m)
  case (Cons p m)
  have "0 \<le> held m" using Cons.prems(1) by (auto simp: held_def intro!: sum_list_nonneg)
  with Cons show ?case by (auto simp: held_def)
qed simp

lemma fact_scopeFor_count:
  assumes "index_inv i"
  shows "sf_count (fact_scopeFor scope i) \<le> fx_maxPerType i" and "sf_count (fact_scopeFor scope i) \<le> fx_total i"
proof -
  have nonneg: "\<forall>(_, t) \<in> set (fx_scopes i). 0 \<le> sf_count t"
    using assms by (auto simp: index_inv_def scopes_inv_def dest!: scope_count_nonneg)
  then have "0 \<le> held (fx_scopes i)" by (auto simp: held_def intro!: sum_list_nonneg)
  then show "sf_count (fact_scopeFor scope i) \<le> fx_maxPerType i" "sf_count (fact_scopeFor scope i) \<le> fx_total i"
    using assms count_le_held [OF nonneg]
    by (auto simp: fact_scopeFor_def index_inv_def newScopeFacts_def split: option.splits dest: map_of_SomeD)
qed

text \<open>
  C15: the two loops that enforce the caps end, on their guards and never on the break for an empty scope.
  When a fact is filed in the index of any run, the loop on the scope makes exactly as many passes as the
  scope has entries above the per type cap, and each pass takes the entry filed first. The loop on the
  index makes as many passes as the index has entries above the total cap, and each takes the entry filed
  first in a scope that then holds the most, leaves the other scopes as they are and drops a scope it
  empties. The two make at most three passes together.
\<close>

theorem cap_loops_end:
  "let i = index_run cfg (NewFactIndex ttl maxPerType maxTotal window interval) r ls rounds;
       (keys, filed, seq) = file_fact cfg scope f now (fact_scopeFor scope i) (fx_seq i);
       (kept, evicted) = evict_to_cap (fx_maxPerType i) filed 0;
       tot = fx_total i + (sf_count filed - sf_count (fact_scopeFor scope i)) - evicted;
       (scopes, tot') = evict_to_total (fx_maxTotal i) (put_or_drop scope kept (fx_scopes i)) tot
   in evicted = max 0 (int (length (entries filed)) - fx_maxPerType i)
      \<and> tot - tot' = max 0 (tot - fx_maxTotal i) \<and> evicted + (tot - tot') \<le> 3
      \<and> (drops_oldest ^^ nat evicted) filed kept
      \<and> (drops_from_largest ^^ nat (tot - tot')) (put_or_drop scope kept (fx_scopes i)) scopes"
proof -
  define i where "i = index_run cfg (NewFactIndex ttl maxPerType maxTotal window interval) r ls rounds"
  let ?s = "fact_scopeFor scope i"
  have inv: "index_inv i" using index_run_inv [OF index_inv_start] by (simp add: i_def)
  obtain keys filed n where f: "file_fact cfg scope f now ?s (fx_seq i) = (keys, filed, n)" by (metis surj_pair)
  obtain kept k where e: "evict_to_cap (fx_maxPerType i) filed 0 = (kept, k)" by (metis surj_pair)
  define tot where "tot = fx_total i + (sf_count filed - sf_count ?s) - k"
  obtain m tot' where t: "evict_to_total (fx_maxTotal i) (put_or_drop scope kept (fx_scopes i)) tot = (m, tot')"
    by (metis surj_pair)
  have si: "scopes_inv (fx_seq i) (fx_scopes i)" and caps: "0 \<le> fx_maxPerType i" "0 \<le> fx_maxTotal i"
      and total: "fx_total i = held (fx_scopes i)" "fx_total i \<le> fx_maxTotal i"
    using inv by (auto simp: index_inv_def)
  note filed = file_fact_inv [OF fact_scopeFor_inv [OF si] f]
  note exact = evict_to_cap_exact [OF filed(1) caps(1) e] and spec = evict_to_cap_spec [OF filed(1) caps(1) e]
  have k: "k = max 0 (sf_count filed - fx_maxPerType i)" using exact by simp
  have "(case map_get (fx_scopes i) scope of None \<Rightarrow> 0 | Some t \<Rightarrow> sf_count t) = sf_count ?s"
    by (simp add: fact_scopeFor_def newScopeFacts_def split: option.splits)
  moreover have "map_wf (fx_scopes i)" using si by (simp add: scopes_inv_def)
  ultimately have "tot = held (put_or_drop scope kept (fx_scopes i))"
    using held_put_or_drop [of "fx_scopes i" scope kept] spec total(1) by (simp add: tot_def)
  then have tot': "tot - tot' = max 0 (tot - fx_maxTotal i)"
      and steps: "(drops_from_largest ^^ nat (tot - tot')) (put_or_drop scope kept (fx_scopes i)) m"
    using evict_to_total_exact [OF scopes_inv_put_or_drop [OF scopes_inv_mono [OF si filed(2)]] _ caps(2) t] spec by auto
  have "k + (tot - tot') \<le> 3"
    using k tot' total(2) file_fact_count [OF f] fact_scopeFor_count(1) [OF inv, of scope] by (auto simp: tot_def max_def)
  moreover have "k = max 0 (int (length (entries filed)) - fx_maxPerType i)"
    using k filed(1) by (simp add: scope_inv_def)
  moreover have "(drops_oldest ^^ nat k) filed kept" using conjunct2 [OF exact] by (simp only: diff_zero)
  ultimately show ?thesis using tot' steps
    unfolding i_def [symmetric] Let_def f prod.case e tot_def [symmetric] t by blast
qed

section \<open>Provenance\<close>

text \<open>
  \<open>H\<close> holds the facts delivered so far, each with its scope and the time it ages from. An entry of a scope is
  accounted for when it was filed from such a fact, under the key the fact itself carries.
\<close>

type_synonym history = "(factScope \<times> AuthorFact \<times> gotime) set"

definition accounted :: "fact_config \<Rightarrow> history \<Rightarrow> factScope \<Rightarrow> scopeFacts \<Rightarrow> bool" where
  "accounted cfg H scope s \<longleftrightarrow>
     (\<forall>uid rv e. map_get (sf_exact s) (uid, rv) = Some e \<longrightarrow> (scope, ixf_fact e, ixf_at e) \<in> H
        \<and> af_UID (ixf_fact e) = uid \<and> af_ResourceVersion (ixf_fact e) = rv)
     \<and> (\<forall>uid e. map_get (sf_latest s) uid = Some e \<longrightarrow> (scope, ixf_fact e, ixf_at e) \<in> H \<and> af_UID (ixf_fact e) = uid)
     \<and> (\<forall>uid e. map_get (sf_removals s) uid = Some e \<longrightarrow> (scope, ixf_fact e, ixf_at e) \<in> H
        \<and> af_UID (ixf_fact e) = uid \<and> isRemovalVerb (af_Verb (ixf_fact e)))
     \<and> (\<forall>rv e. map_get (sf_rvOnly s) rv = Some e \<longrightarrow> (scope, ixf_fact e, ixf_at e) \<in> H
        \<and> af_UID (ixf_fact e) = [] \<and> af_ResourceVersion (ixf_fact e) = rv)
     \<and> (\<forall>namespace name e. map_get (sf_byName s) (namespace, name) = Some e \<longrightarrow> (scope, ixf_fact e, ixf_at e) \<in> H
        \<and> af_UID (ixf_fact e) = [] \<and> af_ResourceVersion (ixf_fact e) = []
        \<and> af_Namespace (ixf_fact e) = namespace \<and> af_Name (ixf_fact e) = name)
     \<and> (\<forall>c \<in> set (sf_collections s). (scope, ixc_fact c, ixc_at c) \<in> H
        \<and> EqualFold (af_Verb (ixc_fact c)) deleteCollectionVerb
        \<and> c = newIndexedCollection (fc_parse_time cfg) (fc_parse_selector cfg) (ixc_fact c) (ixc_at c) (ixc_seq c))"

definition all_accounted :: "fact_config \<Rightarrow> history \<Rightarrow> FactIndex \<Rightarrow> bool" where
  "all_accounted cfg H i \<longleftrightarrow> (\<forall>scope s. map_get (fx_scopes i) scope = Some s \<longrightarrow> accounted cfg H scope s)"

lemma accounted_new [simp]: "accounted cfg H scope newScopeFacts"
  by (simp add: accounted_def newScopeFacts_def)

lemma map_leD: "map_of m' \<subseteq>\<^sub>m map_of m \<Longrightarrow> map_get m' k = Some v \<Longrightarrow> map_get m k = Some v"
  by (simp add: map_le_def) (metis domI)

lemma accounted_thin: "accounted cfg H scope s \<Longrightarrow> thin s' s \<Longrightarrow> accounted cfg H scope s'"
  unfolding accounted_def thin_def by (blast dest: map_leD)

lemma put_accounted:
  assumes "accounted cfg H scope s" and "(scope, f, now) \<in> H"
  shows "af_UID f = uid \<Longrightarrow> af_ResourceVersion f = rv \<Longrightarrow>
      accounted cfg H scope (putExact uid rv \<lparr> ixf_fact = f, ixf_at = now, ixf_seq = n \<rparr> s)"
    and "af_UID f = uid \<Longrightarrow> accounted cfg H scope (putLatest uid \<lparr> ixf_fact = f, ixf_at = now, ixf_seq = n \<rparr> s)"
    and "af_UID f = uid \<Longrightarrow> isRemovalVerb (af_Verb f) \<Longrightarrow>
      accounted cfg H scope (putRemoval uid \<lparr> ixf_fact = f, ixf_at = now, ixf_seq = n \<rparr> s)"
    and "af_UID f = [] \<Longrightarrow> af_ResourceVersion f = rv \<Longrightarrow>
      accounted cfg H scope (putRV rv \<lparr> ixf_fact = f, ixf_at = now, ixf_seq = n \<rparr> s)"
    and "af_UID f = [] \<Longrightarrow> af_ResourceVersion f = [] \<Longrightarrow> af_Namespace f = namespace \<Longrightarrow> af_Name f = name \<Longrightarrow>
      accounted cfg H scope (putName namespace name \<lparr> ixf_fact = f, ixf_at = now, ixf_seq = n \<rparr> s)"
    and "EqualFold (af_Verb f) deleteCollectionVerb \<Longrightarrow> accounted cfg H scope
      (putCollection (newIndexedCollection (fc_parse_time cfg) (fc_parse_selector cfg) f now n) s)"
proof -
  have c: "ixc_fact (newIndexedCollection p q f now n) = f" "ixc_at (newIndexedCollection p q f now n) = now"
      "ixc_seq (newIndexedCollection p q f now n) = n" for p q
    by (simp_all add: newIndexedCollection_def)
  note put_simps = accounted_def put_defs al.lookup_put
  show "accounted cfg H scope (putExact uid rv \<lparr> ixf_fact = f, ixf_at = now, ixf_seq = n \<rparr> s)"
    if "af_UID f = uid" "af_ResourceVersion f = rv" using assms that by (auto simp: put_simps)
  show "accounted cfg H scope (putLatest uid \<lparr> ixf_fact = f, ixf_at = now, ixf_seq = n \<rparr> s)"
    if "af_UID f = uid" using assms that by (auto simp: put_simps)
  show "accounted cfg H scope (putRemoval uid \<lparr> ixf_fact = f, ixf_at = now, ixf_seq = n \<rparr> s)"
    if "af_UID f = uid" "isRemovalVerb (af_Verb f)" using assms that by (auto simp: put_simps)
  show "accounted cfg H scope (putRV rv \<lparr> ixf_fact = f, ixf_at = now, ixf_seq = n \<rparr> s)"
    if "af_UID f = []" "af_ResourceVersion f = rv" using assms that by (auto simp: put_simps)
  show "accounted cfg H scope (putName namespace name \<lparr> ixf_fact = f, ixf_at = now, ixf_seq = n \<rparr> s)"
    if "af_UID f = []" "af_ResourceVersion f = []" "af_Namespace f = namespace" "af_Name f = name"
    using assms that by (auto simp: put_simps)
  show "accounted cfg H scope (putCollection (newIndexedCollection (fc_parse_time cfg) (fc_parse_selector cfg) f now n) s)"
    if "EqualFold (af_Verb f) deleteCollectionVerb" using assms that c by (auto simp: put_simps)
qed

lemma file_fact_accounted:
  assumes "accounted cfg H scope s" and "(scope, f, now) \<in> H" and "file_fact cfg scope f now s n = (keys, s', n')"
  shows "accounted cfg H scope s'"
  using assms(3) assms(1,2)
  by (auto simp: file_fact_def Let_def split: if_splits intro!: put_accounted)

lemma thin_scopesD: "thin_scopes m' m \<Longrightarrow> map_get m' scope = Some s' \<Longrightarrow> \<exists>s. map_get m scope = Some s \<and> thin s' s"
  by (simp add: thin_scopes_def)

lemma store_fact_accounted:
  assumes inv: "index_inv i" and acc: "all_accounted cfg H i" and mem: "(scope, f, now) \<in> H"
  shows "all_accounted cfg H (snd (store_fact cfg scope f now i))"
proof -
  obtain keys i' where st: "store_fact cfg scope f now i = (keys, i')" by (metis surj_pair)
  obtain s1 n where f: "file_fact cfg scope f now (fact_scopeFor scope i) (fx_seq i) = (keys, s1, n)"
    and th: "thin_scopes (fx_scopes i') (map_put scope s1 (fx_scopes i))"
    by (rule store_fact_thin [OF st]) (use inv in \<open>auto simp: index_inv_def scopes_inv_def\<close>)
  have "accounted cfg H scope (fact_scopeFor scope i)"
    using acc by (auto simp: all_accounted_def fact_scopeFor_def split: option.splits)
  then have s1: "accounted cfg H scope s1" using file_fact_accounted mem f by blast
  have "accounted cfg H x s'" if "map_get (fx_scopes i') x = Some s'" for x s'
    using thin_scopesD [OF th that] s1 acc
    by (auto simp: all_accounted_def al.lookup_put intro: accounted_thin split: if_splits)
  then show ?thesis by (simp add: st all_accounted_def)
qed

lemma fx_Sweep_accounted: "index_inv i \<Longrightarrow> all_accounted cfg H i \<Longrightarrow> all_accounted cfg H (snd (fx_Sweep now i))"
  using fx_Sweep_thin [of i now] unfolding all_accounted_def thin_scopes_def by (blast intro: accounted_thin)

definition history_of :: "((gotime \<times> FactEntry) list \<times> gotime) list \<Rightarrow> history" where
  "history_of rounds =
     {(entry_scope e, f, entryAppendTime (fe_ID e) t) | t e f. (t, e) \<in> set (run_deliveries rounds) \<and> f \<in> set (fe_Facts e)}"

lemma history_ofI:
  "(t, e) \<in> set (run_deliveries rounds) \<Longrightarrow> f \<in> set (fe_Facts e) \<Longrightarrow>
     (entry_scope e, f, entryAppendTime (fe_ID e) t) \<in> history_of rounds"
  by (auto simp: history_of_def)

lemma run_accounted:
  "all_accounted cfg (history_of rounds) (index_run cfg (NewFactIndex ttl maxPerType maxTotal window interval) r ls rounds)"
proof -
  let ?H = "history_of rounds"
  have "index_inv (index_run cfg (NewFactIndex ttl maxPerType maxTotal window interval) r ls rounds)
    \<and> all_accounted cfg ?H (index_run cfg (NewFactIndex ttl maxPerType maxTotal window interval) r ls rounds)"
  proof (rule index_run_induct [where P = "\<lambda>_ j. index_inv j \<and> all_accounted cfg ?H j"])
    show "index_inv (NewFactIndex ttl maxPerType maxTotal window interval)
      \<and> all_accounted cfg ?H (NewFactIndex ttl maxPerType maxTotal window interval)"
      using index_inv_start by (simp add: all_accounted_def) (simp add: NewFactIndex_def)
  qed (auto simp: store_fact_keeps fx_Sweep_keeps intro!: store_fact_accounted fx_Sweep_accounted history_ofI)
  then show ?thesis by simp
qed

text \<open>What a fact must say of the watched event for its tier to answer with it.\<close>

definition evidence :: "fact_config \<Rightarrow> duration \<Rightarrow> FactQuery \<Rightarrow> gotime \<Rightarrow> gotime \<Rightarrow> AuthorResolution \<Rightarrow> bool" where
  "evidence cfg window q now at r =
     (let f = ar_Fact r in
      case ar_Result r of
        AttributionDeleteSticky \<Rightarrow> \<not> fq_ExactCapable q \<and> fq_UID q \<noteq> [] \<and> af_UID f = fq_UID q \<and> isRemovalVerb (af_Verb f)
      | AttributionExact \<Rightarrow> fq_UID q \<noteq> [] \<and> af_UID f = fq_UID q \<and> fq_ResourceVersion q \<noteq> []
          \<and> af_ResourceVersion f = fq_ResourceVersion q
      | AttributionLatest \<Rightarrow> \<not> fq_ExactCapable q \<and> fq_UID q \<noteq> [] \<and> af_UID f = fq_UID q
      | AttributionResourceVersion \<Rightarrow> af_UID f = [] \<and> fq_ResourceVersion q \<noteq> [] \<and> af_ResourceVersion f = fq_ResourceVersion q
      | AttributionDeleteCollectionBodyUID \<Rightarrow> \<not> fq_ExactCapable q \<and> EqualFold (af_Verb f) deleteCollectionVerb
          \<and> af_Namespace f = fq_Namespace q \<and> fq_UID q \<in> set (af_UIDs f)
      | AttributionName \<Rightarrow> af_UID f = [] \<and> af_ResourceVersion f = [] \<and> fq_Name q \<noteq> [] \<and> af_Namespace f = fq_Namespace q
          \<and> af_Name f = fq_Name q
      | AttributionDeleteCollectionScope \<Rightarrow> \<not> fq_ExactCapable q \<and> EqualFold (af_Verb f) deleteCollectionVerb
          \<and> af_Namespace f = fq_Namespace q
          \<and> (af_LabelSelector f = []
             \<or> (case fc_parse_selector cfg (af_LabelSelector f) of None \<Rightarrow> False | Some sel \<Rightarrow> sel (fq_Labels q)))
          \<and> now \<le> (let stage = parseStageTimestamp (fc_parse_time cfg) (af_StageTimestamp f) in
                    if time_IsZero stage then at else stage) + window
      | AttributionAbsent \<Rightarrow> False)"

lemma liveFact_Some: "liveFact e cutoff = Some f \<longleftrightarrow> (\<exists>x. e = Some x \<and> cutoff \<le> ixf_at x \<and> ixf_fact x = f)"
  by (auto simp: liveFact_def split: option.splits)

lemmas tier_defs = lookupExact_def lookupLatest_def lookupRV_def lookupName_def liveFact_Some lookupRemovalPointer_def

lemma collection_evidence:
  assumes "accounted cfg H scope s" and "c \<in> set (sf_collections s)"
  shows "(scope, ixc_fact c, ixc_at c) \<in> H" and "EqualFold (af_Verb (ixc_fact c)) deleteCollectionVerb"
    and "ixc_uids c = Some us \<Longrightarrow> us = af_UIDs (ixc_fact c)"
    and "selects c ls \<Longrightarrow> af_LabelSelector (ixc_fact c) = []
      \<or> (case fc_parse_selector cfg (af_LabelSelector (ixc_fact c)) of None \<Rightarrow> False | Some sel \<Rightarrow> sel ls)"
    and "ixc_stage c = parseStageTimestamp (fc_parse_time cfg) (af_StageTimestamp (ixc_fact c))"
proof -
  have c: "(scope, ixc_fact c, ixc_at c) \<in> H" "EqualFold (af_Verb (ixc_fact c)) deleteCollectionVerb"
      "c = newIndexedCollection (fc_parse_time cfg) (fc_parse_selector cfg) (ixc_fact c) (ixc_at c) (ixc_seq c)"
    using assms by (auto simp: accounted_def)
  have fields: "ixc_uids c = (if af_UIDs (ixc_fact c) = [] then None else Some (af_UIDs (ixc_fact c)))"
      "ixc_stage c = parseStageTimestamp (fc_parse_time cfg) (af_StageTimestamp (ixc_fact c))"
      "ixc_selector c = (if af_LabelSelector (ixc_fact c) = [] then None else fc_parse_selector cfg (af_LabelSelector (ixc_fact c)))"
      "ixc_invalidSelector c \<longleftrightarrow>
        af_LabelSelector (ixc_fact c) \<noteq> [] \<and> fc_parse_selector cfg (af_LabelSelector (ixc_fact c)) = None"
    using arg_cong [OF c(3), of ixc_uids] arg_cong [OF c(3), of ixc_stage] arg_cong [OF c(3), of ixc_selector]
      arg_cong [OF c(3), of ixc_invalidSelector]
    by (simp_all add: newIndexedCollection_def)
  show "(scope, ixc_fact c, ixc_at c) \<in> H" "EqualFold (af_Verb (ixc_fact c)) deleteCollectionVerb" using c by simp_all
  show "ixc_uids c = Some us \<Longrightarrow> us = af_UIDs (ixc_fact c)" using fields by (auto split: if_splits)
  show "selects c ls \<Longrightarrow> af_LabelSelector (ixc_fact c) = []
      \<or> (case fc_parse_selector cfg (af_LabelSelector (ixc_fact c)) of None \<Rightarrow> False | Some sel \<Rightarrow> sel ls)"
    using fields by (auto simp: selects_def split: option.splits if_splits)
  show "ixc_stage c = parseStageTimestamp (fc_parse_time cfg) (af_StageTimestamp (ixc_fact c))" using fields by simp
qed

definition backed :: "fact_config \<Rightarrow> duration \<Rightarrow> history \<Rightarrow> factScope \<Rightarrow> FactQuery \<Rightarrow> gotime \<Rightarrow> gotime \<Rightarrow> AuthorResolution \<Rightarrow> bool" where
  "backed cfg window H scope q now cutoff r \<longleftrightarrow> ar_Result r = AttributionAbsent \<or>
     (\<exists>at. (scope, ar_Fact r, at) \<in> H \<and> evidence cfg window q now at r
        \<and> (ar_Result r = AttributionDeleteSticky \<or> cutoff \<le> at))"

lemma backed_absent [simp]: "backed cfg window H scope q now cutoff absent"
  by (simp add: backed_def absent_def)

lemma resolved_simps [simp]: "ar_Fact (resolved x f) = f" "ar_Result (resolved x f) = x"
  by (simp_all add: resolved_def)

lemma keyed_backed:
  assumes "accounted cfg H scope s"
  shows "\<not> fq_ExactCapable q \<Longrightarrow> backed cfg window H scope q now cutoff (stickyRemoval s q)"
    and "fq_UID q \<noteq> [] \<Longrightarrow> fq_ResourceVersion q \<noteq> [] \<Longrightarrow> lookupExact (fq_UID q) (fq_ResourceVersion q) cutoff s = Some f \<Longrightarrow>
      backed cfg window H scope q now cutoff (resolved AttributionExact f)"
    and "\<not> fq_ExactCapable q \<Longrightarrow> fq_UID q \<noteq> [] \<Longrightarrow> lookupLatest (fq_UID q) cutoff s = Some f \<Longrightarrow>
      backed cfg window H scope q now cutoff (resolved AttributionLatest f)"
    and "fq_ResourceVersion q \<noteq> [] \<Longrightarrow> lookupRV (fq_ResourceVersion q) cutoff s = Some f \<Longrightarrow>
      backed cfg window H scope q now cutoff (resolved AttributionResourceVersion f)"
    and "fq_Name q \<noteq> [] \<Longrightarrow> lookupName (fq_Namespace q) (fq_Name q) cutoff s = Some f \<Longrightarrow>
      backed cfg window H scope q now cutoff (resolved AttributionName f)"
proof -
  have removal: "(scope, ixf_fact e, ixf_at e) \<in> H \<and> af_UID (ixf_fact e) = uid \<and> isRemovalVerb (af_Verb (ixf_fact e))"
    if "map_get (sf_removals s) uid = Some e" for uid e using assms that unfolding accounted_def by blast
  have exact: "(scope, ixf_fact e, ixf_at e) \<in> H \<and> af_UID (ixf_fact e) = uid \<and> af_ResourceVersion (ixf_fact e) = rv"
    if "map_get (sf_exact s) (uid, rv) = Some e" for uid rv e using assms that unfolding accounted_def by blast
  have latest: "(scope, ixf_fact e, ixf_at e) \<in> H \<and> af_UID (ixf_fact e) = uid"
    if "map_get (sf_latest s) uid = Some e" for uid e using assms that unfolding accounted_def by blast
  have rvOnly: "(scope, ixf_fact e, ixf_at e) \<in> H \<and> af_UID (ixf_fact e) = [] \<and> af_ResourceVersion (ixf_fact e) = rv"
    if "map_get (sf_rvOnly s) rv = Some e" for rv e using assms that unfolding accounted_def by blast
  have named: "(scope, ixf_fact e, ixf_at e) \<in> H \<and> af_UID (ixf_fact e) = [] \<and> af_ResourceVersion (ixf_fact e) = []
      \<and> af_Namespace (ixf_fact e) = namespace \<and> af_Name (ixf_fact e) = name"
    if "map_get (sf_byName s) (namespace, name) = Some e" for namespace name e using assms that unfolding accounted_def by blast
  show "\<not> fq_ExactCapable q \<Longrightarrow> backed cfg window H scope q now cutoff (stickyRemoval s q)"
    using removal by (auto simp: backed_def evidence_def tier_defs stickyRemoval_def absent_def split: option.splits)
  show "fq_UID q \<noteq> [] \<Longrightarrow> fq_ResourceVersion q \<noteq> [] \<Longrightarrow> lookupExact (fq_UID q) (fq_ResourceVersion q) cutoff s = Some f \<Longrightarrow>
      backed cfg window H scope q now cutoff (resolved AttributionExact f)"
    using exact by (auto simp: backed_def evidence_def tier_defs)
  show "\<not> fq_ExactCapable q \<Longrightarrow> fq_UID q \<noteq> [] \<Longrightarrow> lookupLatest (fq_UID q) cutoff s = Some f \<Longrightarrow>
      backed cfg window H scope q now cutoff (resolved AttributionLatest f)"
    using latest by (auto simp: backed_def evidence_def tier_defs)
  show "fq_ResourceVersion q \<noteq> [] \<Longrightarrow> lookupRV (fq_ResourceVersion q) cutoff s = Some f \<Longrightarrow>
      backed cfg window H scope q now cutoff (resolved AttributionResourceVersion f)"
    using rvOnly by (auto simp: backed_def evidence_def tier_defs)
  show "fq_Name q \<noteq> [] \<Longrightarrow> lookupName (fq_Namespace q) (fq_Name q) cutoff s = Some f \<Longrightarrow>
      backed cfg window H scope q now cutoff (resolved AttributionName f)"
    using named by (auto simp: backed_def evidence_def tier_defs)
qed

lemma collection_backed:
  assumes "accounted cfg H scope s" and "\<not> fq_ExactCapable q"
  shows "matchCollectionUID q cutoff s = Some f \<Longrightarrow>
      backed cfg window H scope q now cutoff (resolved AttributionDeleteCollectionBodyUID f)"
    and "matchCollectionScope q now cutoff window s = Some f \<Longrightarrow>
      backed cfg window H scope q now cutoff (resolved AttributionDeleteCollectionScope f)"
proof -
  show "backed cfg window H scope q now cutoff (resolved AttributionDeleteCollectionBodyUID f)"
    if "matchCollectionUID q cutoff s = Some f"
  proof -
    from that obtain c us where c: "c \<in> set (sf_collections s)" "ixc_fact c = f" "covers c q cutoff"
        "ixc_uids c = Some us" "fq_UID q \<in> set us"
      by (auto simp: matchCollectionUID_def dest!: find_SomeD split: option.splits)
    note ev = collection_evidence [OF assms(1) c(1)]
    show ?thesis using c(2,3,5) assms(2) ev(1,2) ev(3) [OF c(4)] by (auto simp: backed_def evidence_def covers_def intro!: exI [of _ "ixc_at c"])
  qed
  show "backed cfg window H scope q now cutoff (resolved AttributionDeleteCollectionScope f)"
    if "matchCollectionScope q now cutoff window s = Some f"
  proof -
    from that obtain c where c: "c \<in> set (sf_collections s)" "ixc_fact c = f" "covers c q cutoff" "inWindow c now window"
        "selects c (fq_Labels q)"
      by (auto simp: matchCollectionScope_def dest!: find_SomeD)
    note ev = collection_evidence [OF assms(1) c(1)]
    show ?thesis using c(2,3,4) assms(2) ev(1,2,5) ev(4) [OF c(5)]
      by (auto simp: backed_def evidence_def covers_def inWindow_def Let_def intro!: exI [of _ "ixc_at c"])
  qed
qed

lemma lookup_scope_backed:
  assumes acc: "accounted cfg H scope s"
  shows "backed cfg window H scope q now cutoff (lookup_scope window s q now cutoff)"
proof -
  have "backed cfg window H scope q now cutoff (lookupRemoval window s q now cutoff)" if "\<not> fq_ExactCapable q"
    using keyed_backed [OF acc] collection_backed [OF acc that] that
    by (auto simp: lookupRemoval_def Let_def split: option.splits if_splits)
  then show ?thesis using keyed_backed [OF acc]
    by (auto simp: lookup_scope_def Let_def split: option.splits if_splits)
qed

text \<open>
  C10: no answer of the attribution index is made up, and none crosses clusters. In the index of any run, a
  resolution that is not absent names a fact that was delivered on a stream of the query's own audit route
  and type, and that fact carries the evidence its tier claims: the uid and resource version of an exact
  answer, the uid and the removal verb of a sticky one, the name of a fact that has neither uid nor
  version, the uid set, or the namespace, selector and window, of a collection delete. Every answer but
  the sticky one is within the fact's time to live, counted from the append.
\<close>

theorem attribution_sound:
  assumes "Lookup q now (index_run cfg (NewFactIndex ttl maxPerType maxTotal window interval) r ls rounds) = res"
    and "ar_Result res \<noteq> AttributionAbsent"
  shows "\<exists>t e. (t, e) \<in> set (run_deliveries rounds) \<and> ar_Fact res \<in> set (fe_Facts e)
     \<and> fk_AuditRoute (fe_Key e) = fq_AuditRoute q
     \<and> key_groupResource (fe_Key e) = groupResourceKey (fq_Group q) (fq_Resource q)
     \<and> evidence cfg (if window \<le> 0 then 30 * Second else window) q now (entryAppendTime (fe_ID e) t) res
     \<and> (ar_Result res = AttributionDeleteSticky
        \<or> now - entryAppendTime (fe_ID e) t \<le> (if ttl \<le> 0 then 600 * Second else ttl))"
proof -
  define i where "i = index_run cfg (NewFactIndex ttl maxPerType maxTotal window interval) r ls rounds"
  have cfgs: "same_config i (NewFactIndex ttl maxPerType maxTotal window interval)"
    using index_run_inv [OF index_inv_start] by (simp add: i_def)
  then have w: "fx_collectionWindow i = (if window \<le> 0 then 30 * Second else window)"
      "fx_ttl i = (if ttl \<le> 0 then 600 * Second else ttl)"
    by (auto simp: same_config_def NewFactIndex_def DefaultFactCollectionWindow_def DefaultAttributionFactTTL_def)
  obtain s where s: "map_get (fx_scopes i) (query_scope q) = Some s"
      "res = lookup_scope (fx_collectionWindow i) s q now (now - fx_ttl i)"
    using assms by (auto simp: Lookup_def i_def [symmetric] absent_def split: option.splits)
  have "accounted cfg (history_of rounds) (query_scope q) s"
    using run_accounted s(1) unfolding i_def all_accounted_def by blast
  from lookup_scope_backed [OF this, of "fx_collectionWindow i" q now "now - fx_ttl i"] assms(2)
  obtain at where at: "(query_scope q, ar_Fact res, at) \<in> history_of rounds" "evidence cfg (fx_collectionWindow i) q now at res"
      "ar_Result res = AttributionDeleteSticky \<or> now - fx_ttl i \<le> at"
    by (auto simp: backed_def s(2) [symmetric])
  then obtain t e where "(t, e) \<in> set (run_deliveries rounds)" "ar_Fact res \<in> set (fe_Facts e)" "query_scope q = entry_scope e"
      "at = entryAppendTime (fe_ID e) t"
    by (auto simp: history_of_def)
  then show ?thesis using at(2,3) unfolding w query_scope_def entry_scope_def by force
qed

section \<open>Sticky deletions\<close>

lemma lookup_sticky_iff:
  "Lookup q now i = resolved AttributionDeleteSticky f \<longleftrightarrow>
     \<not> fq_ExactCapable q \<and> fq_UID q \<noteq> []
     \<and> (\<exists>s. map_get (fx_scopes i) (query_scope q) = Some s \<and> lookupRemovalPointer (fq_UID q) s = Some f)"
proof -
  have removal: "ar_Result (lookupRemoval w s q now c) \<noteq> AttributionDeleteSticky" for w s c
    by (simp add: lookupRemoval_def Let_def absent_def split: option.splits)
  define sticky where "sticky s = (if fq_ExactCapable q then absent else stickyRemoval s q)" for s
  have rest: "ar_Result (lookup_scope w s q now c) \<noteq> AttributionDeleteSticky" if "ar_Result (sticky s) = AttributionAbsent" for w s c
    using removal that by (simp add: lookup_scope_def Let_def sticky_def absent_def split: option.split)
  have head: "lookup_scope w s q now c = sticky s" if "ar_Result (sticky s) \<noteq> AttributionAbsent" for w s c
    using that by (simp add: lookup_scope_def Let_def sticky_def)
  have iff: "sticky s = resolved AttributionDeleteSticky f \<longleftrightarrow>
      \<not> fq_ExactCapable q \<and> fq_UID q \<noteq> [] \<and> lookupRemovalPointer (fq_UID q) s = Some f" for s
    by (auto simp: sticky_def stickyRemoval_def resolved_def absent_def split: option.split)
  have "lookup_scope w s q now c = resolved AttributionDeleteSticky f \<longleftrightarrow> sticky s = resolved AttributionDeleteSticky f" for w s c
    using rest [of s w c] head [of s w c] by (cases "ar_Result (sticky s) = AttributionAbsent") auto
  then show ?thesis using iff by (auto simp: Lookup_def absent_def resolved_def split: option.split)
qed

text \<open>With room for the three entries of a fact, filing it evicts nothing.\<close>

lemma store_fact_roomy:
  assumes inv: "index_inv i" and st: "store_fact cfg scope f now i = (keys, i')"
    and room: "fx_total i + 3 \<le> fx_maxTotal i" "fx_total i + 3 \<le> fx_maxPerType i"
    and f: "file_fact cfg scope f now (fact_scopeFor scope i) (fx_seq i) = (keys', s1, n)"
  shows "fx_scopes i' = put_or_drop scope s1 (fx_scopes i)" and "fx_total i' \<le> fx_total i + 3"
proof -
  note counts = file_fact_count [OF f] fact_scopeFor_count(2) [OF inv, of scope]
  then have "evict_to_cap (fx_maxPerType i) s1 0 = (s1, 0)" using room by (subst evict_to_cap.simps) simp
  moreover have "evict_to_total (fx_maxTotal i) m (fx_total i + (sf_count s1 - sf_count (fact_scopeFor scope i)))
      = (m, fx_total i + (sf_count s1 - sf_count (fact_scopeFor scope i)))" for m
    using counts room by (subst evict_to_total.simps) simp
  ultimately show "fx_scopes i' = put_or_drop scope s1 (fx_scopes i)" "fx_total i' \<le> fx_total i + 3"
    using st f counts by (auto simp: store_fact_def enforceCaps_def)
qed

lemma file_fact_removals:
  assumes "file_fact cfg scope f now s n = (keys, s', n')" and "\<not> (af_UID f = uid \<and> isRemovalVerb (af_Verb f))"
  shows "map_get (sf_removals s') uid = map_get (sf_removals s) uid"
  using assms by (auto simp: file_fact_def Let_def put_defs al.lookup_put split: if_splits)

definition removal_at :: "factScope \<Rightarrow> string \<Rightarrow> FactIndex \<Rightarrow> AuthorFact option" where
  "removal_at scope uid i =
     (case map_get (fx_scopes i) scope of None \<Rightarrow> None | Some s \<Rightarrow> lookupRemovalPointer uid s)"

lemma removal_at_Some:
  "removal_at scope uid i = Some f \<longleftrightarrow> (\<exists>s. map_get (fx_scopes i) scope = Some s \<and> lookupRemovalPointer uid s = Some f)"
  by (simp add: removal_at_def split: option.splits)

lemma removal_not_empty: "scope_inv n s \<Longrightarrow> map_get (sf_removals s) uid = Some e \<Longrightarrow> \<not> scope_empty s"
  by (auto simp: scope_empty_iff entries_def dest: map_of_SomeD)

lemma store_fact_sticky:
  assumes inv: "index_inv i" and room: "fx_total i + 3 \<le> fx_maxTotal i" "fx_total i + 3 \<le> fx_maxPerType i"
    and ptr: "removal_at x uid i = Some g" and f: "\<not> (scope = x \<and> af_UID f = uid \<and> isRemovalVerb (af_Verb f))"
  shows "removal_at x uid (snd (store_fact cfg scope f now i)) = Some g"
    and "fx_total (snd (store_fact cfg scope f now i)) \<le> fx_total i + 3"
proof -
  obtain keys i' where st: "store_fact cfg scope f now i = (keys, i')" by (metis surj_pair)
  obtain keys' s1 n where ff: "file_fact cfg scope f now (fact_scopeFor scope i) (fx_seq i) = (keys', s1, n)" by (metis surj_pair)
  note roomy = store_fact_roomy [OF inv st room ff]
  then show "fx_total (snd (store_fact cfg scope f now i)) \<le> fx_total i + 3" by (simp add: st)
  obtain s e where s: "map_get (fx_scopes i) x = Some s" "map_get (sf_removals s) uid = Some e" "ixf_fact e = g"
    using ptr by (auto simp: removal_at_Some lookupRemovalPointer_def)
  have "removal_at x uid i' = Some g"
  proof (cases "scope = x")
    case True
    then have "map_get (sf_removals s1) uid = Some e"
      using file_fact_removals [OF ff, of uid] f s by (simp add: fact_scopeFor_def)
    moreover have "scope_inv n s1"
      using file_fact_inv(1) [OF fact_scopeFor_inv ff] inv by (simp add: index_inv_def)
    ultimately show ?thesis using roomy(1) removal_not_empty s(3) True
      by (auto simp: removal_at_def put_or_drop_def al.lookup_put lookupRemovalPointer_def)
  next
    case False
    then show ?thesis using roomy(1) ptr by (simp add: removal_at_def put_or_drop_def al.lookup_put al.lookup_del)
  qed
  then show "removal_at x uid (snd (store_fact cfg scope f now i)) = Some g" by (simp add: st)
qed

lemma map_get_sweep_scopes:
  assumes "scopes_inv n m" and "map_get m scope = Some s" and "\<not> scope_empty (snd (scope_sweep cutoff s))"
  shows "map_get (sweep_scopes cutoff m) scope = Some (snd (scope_sweep cutoff s))"
proof -
  have "(scope, snd (scope_sweep cutoff s)) \<in> set (sweep_scopes cutoff m)"
    using map_of_SomeD [OF assms(2)] assms(3) by (force simp: sweep_scopes_def)
  then show ?thesis using sweep_scopes_inv(1) [OF assms(1)] by (simp add: scopes_inv_def)
qed

lemma fx_Sweep_sticky:
  assumes inv: "index_inv i" and ptr: "removal_at x uid i = Some g"
  shows "removal_at x uid (snd (fx_Sweep now i)) = Some g"
proof -
  obtain s e where s: "map_get (fx_scopes i) x = Some s" "map_get (sf_removals s) uid = Some e" "ixf_fact e = g"
    using ptr by (auto simp: removal_at_Some lookupRemovalPointer_def)
  let ?s = "snd (scope_sweep (now - fx_ttl i) s)"
  have si: "scopes_inv (fx_seq i) (fx_scopes i)" and "scope_inv (fx_seq i) s"
    using inv s(1) by (auto simp: index_inv_def scopes_inv_def dest: map_of_SomeD)
  from scope_sweep_inv [OF this(2), of "now - fx_ttl i" "fst (scope_sweep (now - fx_ttl i) s)" ?s]
  have "scope_inv (fx_seq i) ?s" "map_get (sf_removals ?s) uid = Some e" using s(2) by simp_all
  then show ?thesis using s(1,3) removal_not_empty
    by (auto simp: removal_at_def fx_Sweep_form map_get_sweep_scopes [OF si s(1)] lookupRemovalPointer_def)
qed

lemma fx_Sweep_total: "index_inv i \<Longrightarrow> fx_total (snd (fx_Sweep now i)) \<le> fx_total i"
  by (auto simp: fx_Sweep_form scope_sweep_def Let_def intro!: sum_list_nonneg add_nonneg_nonneg)

text \<open>
  C11: a deletion sticks. Once the index of any run answers a removal with the fact that deleted the object, it
  goes on answering with that same fact, at any later time and past the time to live, through every later
  round: sweeps do not expire it and facts about writes do not replace it, even when they carry the uid
  and version the deletion stamped. Only another fact about the deletion of that object can, or the caps,
  so the rounds hold no such fact and leave room for three entries a fact.
\<close>

theorem deletion_sticks:
  assumes i: "i = index_run cfg (NewFactIndex ttl maxPerType maxTotal window interval) r0 ls0 before"
    and sticky: "Lookup q now i = resolved AttributionDeleteSticky f"
    and writes: "list_all (\<lambda>(t, e). entry_scope e = query_scope q \<longrightarrow>
        list_all (\<lambda>g. \<not> (af_UID g = fq_UID q \<and> isRemovalVerb (af_Verb g))) (fe_Facts e)) (run_deliveries after)"
    and room: "fx_Len i + 3 * int (facts_of (run_deliveries after)) \<le> min (fx_maxPerType i) (fx_maxTotal i)"
  shows "Lookup q later (index_run cfg i r ls after) = resolved AttributionDeleteSticky f"
proof -
  let ?N = "facts_of (run_deliveries after)"
  define P where "P n j \<longleftrightarrow> index_inv j \<and> same_config j i
    \<and> (n \<le> ?N \<longrightarrow> fx_total j \<le> fx_total i + 3 * int n \<and> removal_at (query_scope q) (fq_UID q) j = Some f)" for n :: nat and j
  have inv: "index_inv i" using index_run_inv [OF index_inv_start] by (simp add: i)
  have ptr: "removal_at (query_scope q) (fq_UID q) i = Some f" using sticky by (simp add: lookup_sticky_iff removal_at_Some)
  have "P ?N (index_run cfg i r ls after)"
  proof (rule index_run_induct)
    show "P 0 i" using inv ptr by (simp add: P_def same_config_def)
    show "P n (snd (fx_Sweep t j))" if "P n j" for n j t
      using that fx_Sweep_keeps [of j t] fx_Sweep_sticky [of j] fx_Sweep_total [of j t] by (auto simp: P_def same_config_def)
    show "P (Suc n) (snd (store_fact cfg (entry_scope e) g (entryAppendTime (fe_ID e) t) j))"
      if P: "P n j" and mem: "(t, e) \<in> set (run_deliveries after)" "g \<in> set (fe_Facts e)" for n j t e g
    proof -
      let ?j = "snd (store_fact cfg (entry_scope e) g (entryAppendTime (fe_ID e) t) j)"
      have keep: "index_inv ?j \<and> same_config ?j i" using P store_fact_keeps [of j] by (auto simp: P_def same_config_def)
      have w: "\<not> (entry_scope e = query_scope q \<and> af_UID g = fq_UID q \<and> isRemovalVerb (af_Verb g))"
        using writes mem by (force simp: list_all_iff)
      show ?thesis
      proof (cases "Suc n \<le> ?N")
        case True
        then have "fx_total j + 3 \<le> fx_maxTotal j" "fx_total j + 3 \<le> fx_maxPerType j"
          using P room by (auto simp: P_def same_config_def fx_Len_def)
        moreover have "index_inv j" "removal_at (query_scope q) (fq_UID q) j = Some f" "fx_total j \<le> fx_total i + 3 * int n"
          using P True by (auto simp: P_def)
        ultimately show ?thesis
          using store_fact_sticky [OF _ _ _ _ w, of j f cfg "entryAppendTime (fe_ID e) t"] keep by (simp add: P_def)
      next
        case False
        show ?thesis using keep False by (simp add: P_def)
      qed
    qed
  qed
  then have "removal_at (query_scope q) (fq_UID q) (index_run cfg i r ls after) = Some f" by (simp add: P_def)
  then show ?thesis using sticky by (auto simp: lookup_sticky_iff removal_at_Some)
qed

section \<open>Waiting\<close>

text \<open>An answer that ends the wait.\<close>

definition ends_wait :: "FactQuery \<Rightarrow> AuthorResolution \<Rightarrow> bool" where
  "ends_wait q r \<longleftrightarrow> ar_Result r \<noteq> AttributionAbsent \<and> \<not> awaitsBetterEvidence q r"

lemma await_read_iff:
  "await_read q fallback now i =
     (let r = Lookup q now i in
      if ends_wait q r then Inr r else Inl (if ar_Result r = AttributionAbsent then fallback else r))"
  by (simp add: await_read_def ends_wait_def Let_def)

lemma await_loop_spec:
  "await_loop q fallback signals =
     (let reads = map (\<lambda>(t, i). Lookup q t i) signals in
      case find (ends_wait q) reads of
        Some r \<Rightarrow> r
      | None \<Rightarrow> last (fallback # filter (\<lambda>r. ar_Result r \<noteq> AttributionAbsent) reads))"
  by (induction q fallback signals rule: await_loop.induct) (auto simp: await_read_iff Let_def split: option.splits)

text \<open>
  C16: what a waiting resolver returns. Over the reads \<open>Await\<close> makes, one at once and, when the grace is
  positive, one at each signal, the answer is the first one that ends the wait; when no read does, it is
  the last attribution any of them found, and absence only when none found any. For a write every
  attribution ends the wait; for a removal only evidence of the deletion does, so the last editor is named
  only when the grace ran out with nothing better.
\<close>

theorem await_outcome:
  "(let reads = Lookup q now i # (if grace \<le> 0 then [] else map (\<lambda>(t, j). Lookup q t j) signals);
        answer = Await q grace now i signals
    in answer = (case find (ends_wait q) reads of
                   Some r \<Rightarrow> r
                 | None \<Rightarrow> last (absent # filter (\<lambda>r. ar_Result r \<noteq> AttributionAbsent) reads)))
   \<and> ends_wait q r = (ar_Result r \<noteq> AttributionAbsent \<and>
        (fq_ExactCapable q \<or> isRemovalVerb (af_Verb (ar_Fact r))
         \<or> ar_Result r \<in> {AttributionDeleteSticky, AttributionDeleteCollectionBodyUID, AttributionDeleteCollectionScope}))"
proof -
  have "Await q grace now i signals =
     (case find (ends_wait q) (Lookup q now i # (if grace \<le> 0 then [] else map (\<lambda>(t, j). Lookup q t j) signals)) of
        Some r \<Rightarrow> r
      | None \<Rightarrow> last (absent # filter (\<lambda>r. ar_Result r \<noteq> AttributionAbsent)
          (Lookup q now i # (if grace \<le> 0 then [] else map (\<lambda>(t, j). Lookup q t j) signals))))"
    by (cases "ends_wait q (Lookup q now i)"; cases "grace \<le> 0")
      (simp_all add: Await_def await_read_iff await_loop_spec Let_def split: option.split)
  moreover have "ends_wait q r = (ar_Result r \<noteq> AttributionAbsent \<and>
      (fq_ExactCapable q \<or> isRemovalVerb (af_Verb (ar_Fact r))
       \<or> ar_Result r \<in> {AttributionDeleteSticky, AttributionDeleteCollectionBodyUID, AttributionDeleteCollectionScope}))"
    by (auto simp: ends_wait_def awaitsBetterEvidence_def)
  ultimately show ?thesis by (simp add: Let_def)
qed

section \<open>A run\<close>

text \<open>
  Alice deletes a config map with a finalizer; a controller then patches the finalizer away, under the uid and
  version the deletion stamped. The second round comes an hour later and sweeps.
\<close>

definition ex_fact_config :: fact_config where
  "ex_fact_config = \<lparr> fc_parse_time = (\<lambda>_. None), fc_parse_selector = (\<lambda>_. None) \<rparr>"

definition ex_fact :: "string \<Rightarrow> string \<Rightarrow> string \<Rightarrow> AuthorFact" where
  "ex_fact uid verb author = no_fact\<lparr> af_Namespace := ''shop'', af_UID := uid, af_Name := ''cart'', af_ResourceVersion := ''12'',
     af_Verb := verb, af_Author := author \<rparr>"

definition ex_entry :: "string \<Rightarrow> AuthorFact list \<Rightarrow> FactEntry" where
  "ex_entry pos fs = \<lparr> fe_Key = \<lparr> fk_AuditRoute = ''prod'', fk_Group = [], fk_Resource = ''configmaps'' \<rparr>, fe_ID = pos, fe_Facts = fs \<rparr>"

definition ex_removal :: FactQuery where
  "ex_removal = \<lparr> fq_AuditRoute = ''prod'', fq_Group = [], fq_Resource = ''configmaps'', fq_UID = ''u1'', fq_ResourceVersion = ''12'',
     fq_Namespace = ''shop'', fq_Labels = [], fq_Name = ''cart'', fq_ExactCapable = False \<rparr>"

definition ex_update :: FactQuery where
  "ex_update = ex_removal\<lparr> fq_ExactCapable := True \<rparr>"

definition ex_waiters :: factWaiterRegistry where
  "ex_waiters = \<lparr> wr_byKey = [], wr_signalled = [] \<rparr>"

definition ex_round1 :: "((gotime \<times> FactEntry) list \<times> gotime) list" where
  "ex_round1 = [([(UnixMilli 8, ex_entry ''7-0'' [ex_fact ''u1'' ''delete'' ''alice''])], UnixMilli 9)]"

definition ex_round2 :: "((gotime \<times> FactEntry) list \<times> gotime) list" where
  "ex_round2 = [([(UnixMilli 10, ex_entry ''9-0'' [ex_fact ''u1'' ''patch'' ''controller''])], UnixMilli 10 + 3600 * Second)]"

definition ex_index :: "((gotime \<times> FactEntry) list \<times> gotime) list \<Rightarrow> FactIndex" where
  "ex_index rounds = index_run ex_fact_config (NewFactIndex 0 0 0 0 0) ex_waiters (UnixMilli 1) rounds"

definition ex_index_facts :: "FactIndex \<Rightarrow> bool" where
  "ex_index_facts i \<longleftrightarrow> Lookup ex_removal (UnixMilli 9) i = resolved AttributionDeleteSticky (ex_fact ''u1'' ''delete'' ''alice'')
     \<and> Lookup ex_update (UnixMilli 9) i = resolved AttributionExact (ex_fact ''u1'' ''delete'' ''alice'')
     \<and> fx_Len i = 3 \<and> fx_maxPerType i = 4096 \<and> fx_maxTotal i = 65536"

lemma ex_index_ok: "ex_index_facts (ex_index ex_round1)"
  by code_simp

text \<open>
  In this run the update of the config map is answered with the exact fact, and its provenance is the one
  delivery of the run; the removal is answered with Alice's deletion an hour after the controller's patch.
\<close>

theorem attribution_sound_witness:
  "ar_Result (Lookup ex_update (UnixMilli 9) (ex_index ex_round1)) = AttributionExact
   \<and> (\<exists>t e. (t, e) \<in> set (run_deliveries ex_round1) \<and> ex_fact ''u1'' ''delete'' ''alice'' \<in> set (fe_Facts e)
        \<and> fk_AuditRoute (fe_Key e) = ''prod'' \<and> UnixMilli 9 - entryAppendTime (fe_ID e) t \<le> 600 * Second)"
proof -
  have l: "Lookup ex_update (UnixMilli 9) (ex_index ex_round1) = resolved AttributionExact (ex_fact ''u1'' ''delete'' ''alice'')"
    using ex_index_ok by (simp add: ex_index_facts_def)
  have "ar_Result (resolved AttributionExact (ex_fact ''u1'' ''delete'' ''alice'')) \<noteq> AttributionAbsent" by simp
  from attribution_sound [OF l [unfolded ex_index_def] this] l show ?thesis
    by (auto simp: ex_update_def ex_removal_def)
qed

theorem deletion_sticks_witness:
  "Lookup ex_removal (UnixMilli 10 + 3600 * Second) (index_run ex_fact_config (ex_index ex_round1) ex_waiters (UnixMilli 9) ex_round2)
     = resolved AttributionDeleteSticky (ex_fact ''u1'' ''delete'' ''alice'')"
proof -
  have facts: "Lookup ex_removal (UnixMilli 9) (ex_index ex_round1) = resolved AttributionDeleteSticky (ex_fact ''u1'' ''delete'' ''alice'')"
      "fx_Len (ex_index ex_round1) = 3" "fx_maxPerType (ex_index ex_round1) = 4096" "fx_maxTotal (ex_index ex_round1) = 65536"
    using ex_index_ok by (simp_all add: ex_index_facts_def)
  have "list_all (\<lambda>(t, e). entry_scope e = query_scope ex_removal \<longrightarrow>
      list_all (\<lambda>g. \<not> (af_UID g = fq_UID ex_removal \<and> isRemovalVerb (af_Verb g))) (fe_Facts e)) (run_deliveries ex_round2)"
    by code_simp
  moreover have "facts_of (run_deliveries ex_round2) = 1" by code_simp
  ultimately show ?thesis
    using deletion_sticks [OF ex_index_def [of ex_round1] facts(1), of ex_round2] facts(2-4) by simp
qed

end
