(* ===== verification/Fact_Waiting.thy ===== *)
theory Fact_Waiting
  imports Fact_Join
begin

text \<open>
  A resolver parked in \<open>Await\<close> (\<open>internal/queue\<close>: \<open>fact_index.go\<close>, \<open>fact_waiters.go\<close>) beside everything that
  runs with it: the follower that applies deliveries and sweeps, and other resolvers that come and go in
  the waiter registry. A step is what runs under one lock, and the steps may come in any order. The
  property is that no fact the resolver could be answered with arrives without a token in its channel.
\<close>

section \<open>No lost wake-up\<close>

definition live :: "indexedFact option \<Rightarrow> gotime \<Rightarrow> bool" where
  "live e cutoff \<longleftrightarrow> (\<exists>x. e = Some x \<and> cutoff \<le> ixf_at x)"

text \<open>Some tier of a scope holds something for the query.\<close>

definition tier_hit :: "duration \<Rightarrow> scopeFacts \<Rightarrow> FactQuery \<Rightarrow> gotime \<Rightarrow> gotime \<Rightarrow> bool" where
  "tier_hit window s q now cutoff \<longleftrightarrow>
     \<not> fq_ExactCapable q \<and> fq_UID q \<noteq> [] \<and> map_get (sf_removals s) (fq_UID q) \<noteq> None
     \<or> fq_UID q \<noteq> [] \<and> fq_ResourceVersion q \<noteq> [] \<and> live (map_get (sf_exact s) (fq_UID q, fq_ResourceVersion q)) cutoff
     \<or> \<not> fq_ExactCapable q \<and> fq_UID q \<noteq> [] \<and> live (map_get (sf_latest s) (fq_UID q)) cutoff
     \<or> \<not> fq_ExactCapable q \<and> (\<exists>c \<in> set (sf_collections s). covers c q cutoff
          \<and> (fq_UID q \<noteq> [] \<and> (case ixc_uids c of None \<Rightarrow> False | Some us \<Rightarrow> fq_UID q \<in> set us)
             \<or> inWindow c now window \<and> selects c (fq_Labels q)))
     \<or> fq_ResourceVersion q \<noteq> [] \<and> live (map_get (sf_rvOnly s) (fq_ResourceVersion q)) cutoff
     \<or> fq_Name q \<noteq> [] \<and> live (map_get (sf_byName s) (fq_Namespace q, fq_Name q)) cutoff"

lemma live_liveFact: "liveFact e cutoff \<noteq> None \<longleftrightarrow> live e cutoff" "liveFact e cutoff = None \<longleftrightarrow> \<not> live e cutoff"
  by (auto simp: live_def liveFact_def split: option.splits)

lemma find_eq_None: "find P (rev xs) = None \<longleftrightarrow> (\<forall>x \<in> set xs. \<not> P x)"
  by (auto simp: find_None_iff)

lemma absent_iff: "ar_Result absent = AttributionAbsent"
  by (simp add: absent_def)

lemma lookupRemoval_hit:
  "ar_Result (lookupRemoval window s q now cutoff) = AttributionAbsent \<longleftrightarrow>
     (fq_UID q \<noteq> [] \<longrightarrow> matchCollectionUID q cutoff s = None \<and> lookupLatest (fq_UID q) cutoff s = None)
     \<and> (fq_Name q \<noteq> [] \<longrightarrow> (\<forall>f. lookupName (fq_Namespace q) (fq_Name q) cutoff s = Some f \<longrightarrow> \<not> isRemovalVerb (af_Verb f)))
     \<and> matchCollectionScope q now cutoff window s = None"
  by (auto simp: lookupRemoval_def Let_def absent_iff split: option.splits)

lemma lookup_scope_hit:
  "ar_Result (lookup_scope window s q now cutoff) \<noteq> AttributionAbsent \<longleftrightarrow> tier_hit window s q now cutoff"
proof -
  have "ar_Result (lookup_scope window s q now cutoff) = AttributionAbsent \<longleftrightarrow>
     (\<not> fq_ExactCapable q \<and> fq_UID q \<noteq> [] \<longrightarrow> lookupRemovalPointer (fq_UID q) s = None)
     \<and> (fq_UID q \<noteq> [] \<and> fq_ResourceVersion q \<noteq> [] \<longrightarrow> lookupExact (fq_UID q) (fq_ResourceVersion q) cutoff s = None)
     \<and> (\<not> fq_ExactCapable q \<longrightarrow> ar_Result (lookupRemoval window s q now cutoff) = AttributionAbsent)
     \<and> (fq_ResourceVersion q \<noteq> [] \<longrightarrow> lookupRV (fq_ResourceVersion q) cutoff s = None)
     \<and> (fq_Name q \<noteq> [] \<longrightarrow> lookupName (fq_Namespace q) (fq_Name q) cutoff s = None)"
    by (auto simp: lookup_scope_def Let_def absent_iff stickyRemoval_def split: option.splits)
  moreover have "(\<exists>c \<in> set (sf_collections s). covers c q cutoff
          \<and> (fq_UID q \<noteq> [] \<and> (case ixc_uids c of None \<Rightarrow> False | Some us \<Rightarrow> fq_UID q \<in> set us)
             \<or> inWindow c now window \<and> selects c (fq_Labels q)))
      \<longleftrightarrow> fq_UID q \<noteq> [] \<and> matchCollectionUID q cutoff s \<noteq> None \<or> matchCollectionScope q now cutoff window s \<noteq> None"
    unfolding matchCollectionUID_def matchCollectionScope_def map_option_is_None find_eq_None by blast
  moreover have "lookupName (fq_Namespace q) (fq_Name q) cutoff s = None \<Longrightarrow>
      \<forall>f. lookupName (fq_Namespace q) (fq_Name q) cutoff s = Some f \<longrightarrow> \<not> isRemovalVerb (af_Verb f)" by simp
  ultimately show ?thesis
    unfolding lookupRemoval_hit tier_hit_def lookupRemovalPointer_def lookupExact_def lookupLatest_def lookupRV_def
      map_option_is_None live_liveFact(1) [symmetric] lookupName_def [symmetric] by argo
qed

lemma tier_hit_thin:
  assumes "thin s' s" and "tier_hit window s' q now cutoff"
  shows "tier_hit window s q now cutoff"
proof -
  have "map_get m' k \<noteq> None \<Longrightarrow> map_get m k \<noteq> None" "live (map_get m' k) c \<Longrightarrow> live (map_get m k) c"
    if "map_of m' \<subseteq>\<^sub>m map_of m" for m m' :: "('a, indexedFact) gomap" and k c
    using map_leD [OF that] by (auto simp: live_def)
  note keyed = this
  show ?thesis
    using assms(2) assms(1) [unfolded thin_def] unfolding tier_hit_def
    by (elim disjE conjE) (metis keyed subsetD)+
qed

lemma tier_hit_earlier:
  assumes "tier_hit window s q now' cutoff'" and "now \<le> now'" and "cutoff \<le> cutoff'"
  shows "tier_hit window s q now cutoff"
proof -
  have "live e cutoff' \<Longrightarrow> live e cutoff" for e using assms(3) by (auto simp: live_def)
  moreover have "covers c q cutoff' \<Longrightarrow> covers c q cutoff" for c using assms(3) by (auto simp: covers_def)
  moreover have "inWindow c now' window \<Longrightarrow> inWindow c now window" for c using assms(2) by (auto simp: inWindow_def Let_def)
  ultimately show ?thesis using assms(1) unfolding tier_hit_def by blast
qed

text \<open>A fact that fills none of the keys a query waits on shows the query nothing.\<close>

lemma put_hit:
  "tier_hit w (putExact uid rv e s) q now cutoff \<Longrightarrow> \<not> (uid = fq_UID q \<and> rv = fq_ResourceVersion q) \<Longrightarrow> tier_hit w s q now cutoff"
  "tier_hit w (putLatest uid e s) q now cutoff \<Longrightarrow> \<not> (\<not> fq_ExactCapable q \<and> uid = fq_UID q) \<Longrightarrow> tier_hit w s q now cutoff"
  "tier_hit w (putRemoval uid e s) q now cutoff \<Longrightarrow> \<not> (\<not> fq_ExactCapable q \<and> uid = fq_UID q) \<Longrightarrow> tier_hit w s q now cutoff"
  "tier_hit w (putRV rv e s) q now cutoff \<Longrightarrow> rv \<noteq> fq_ResourceVersion q \<Longrightarrow> tier_hit w s q now cutoff"
  "tier_hit w (putName namespace name e s) q now cutoff \<Longrightarrow> \<not> (namespace = fq_Namespace q \<and> name = fq_Name q) \<Longrightarrow>
     tier_hit w s q now cutoff"
  "tier_hit w (putCollection c s) q now cutoff \<Longrightarrow> \<not> (\<not> fq_ExactCapable q \<and> af_Namespace (ixc_fact c) = fq_Namespace q) \<Longrightarrow>
     tier_hit w s q now cutoff"
  by (auto simp: tier_hit_def put_defs al.lookup_put covers_def split: if_splits)

lemma waiterKeys_mem:
  "fq_UID q \<noteq> [] \<Longrightarrow> fq_ResourceVersion q \<noteq> [] \<Longrightarrow>
     \<lparr> fwk_scope = query_scope q, fwk_kind = factKindExact, fwk_value = exactWaiterValue (fq_UID q) (fq_ResourceVersion q) \<rparr>
       \<in> set (waiterKeys q)"
  "\<not> fq_ExactCapable q \<Longrightarrow> fq_UID q \<noteq> [] \<Longrightarrow>
     \<lparr> fwk_scope = query_scope q, fwk_kind = factKindLatest, fwk_value = fq_UID q \<rparr> \<in> set (waiterKeys q)"
  "\<not> fq_ExactCapable q \<Longrightarrow>
     \<lparr> fwk_scope = query_scope q, fwk_kind = factKindCollection, fwk_value = fq_Namespace q \<rparr> \<in> set (waiterKeys q)"
  "fq_ResourceVersion q \<noteq> [] \<Longrightarrow>
     \<lparr> fwk_scope = query_scope q, fwk_kind = factKindRV, fwk_value = fq_ResourceVersion q \<rparr> \<in> set (waiterKeys q)"
  "fq_Name q \<noteq> [] \<Longrightarrow>
     \<lparr> fwk_scope = query_scope q, fwk_kind = factKindName, fwk_value = nameWaiterValue (fq_Namespace q) (fq_Name q) \<rparr>
       \<in> set (waiterKeys q)"
  by (auto simp: waiterKeys_def Let_def)

lemma file_fact_silent:
  assumes f: "file_fact cfg (query_scope q) f t s n = (keys, s', n')" and keys: "set keys \<inter> set (waiterKeys q) = {}"
  shows "tier_hit window s' q now cutoff \<Longrightarrow> tier_hit window s q now cutoff"
    and "\<not> fq_ExactCapable q \<Longrightarrow> fq_UID q \<noteq> [] \<Longrightarrow> map_get (sf_removals s') (fq_UID q) = map_get (sf_removals s) (fq_UID q)"
proof -
  have c: "ixc_fact (newIndexedCollection p p' f t m) = f" for p p' m by (simp add: newIndexedCollection_def)
  show "tier_hit window s q now cutoff" if "tier_hit window s' q now cutoff"
    using f keys that
    by (auto simp: file_fact_def Let_def c split: if_splits dest!: put_hit dest: waiterKeys_mem)
  show "map_get (sf_removals s') (fq_UID q) = map_get (sf_removals s) (fq_UID q)"
    if "\<not> fq_ExactCapable q" "fq_UID q \<noteq> []"
    using f keys waiterKeys_mem(2) [OF that]
    by (auto simp: file_fact_def Let_def put_defs al.lookup_put split: if_splits)
qed

definition lookup_hit :: "FactQuery \<Rightarrow> gotime \<Rightarrow> FactIndex \<Rightarrow> bool" where
  "lookup_hit q now i \<longleftrightarrow> ar_Result (Lookup q now i) \<noteq> AttributionAbsent"

lemma lookup_hit_iff:
  "lookup_hit q now i \<longleftrightarrow>
     (\<exists>s. map_get (fx_scopes i) (query_scope q) = Some s \<and> tier_hit (fx_collectionWindow i) s q now (now - fx_ttl i))"
  by (simp add: lookup_hit_def Lookup_def absent_iff lookup_scope_hit [symmetric] split: option.splits)

lemma lookup_hit_earlier: "lookup_hit q now' i \<Longrightarrow> now \<le> now' \<Longrightarrow> lookup_hit q now i"
  using tier_hit_earlier by (fastforce simp: lookup_hit_iff)

lemma lookup_hit_thin:
  assumes "thin_scopes (fx_scopes i') (fx_scopes i)" and "same_config i' i"
  shows "lookup_hit q now i' \<Longrightarrow> lookup_hit q now i"
    and "removal_at scope uid i = None \<Longrightarrow> removal_at scope uid i' = None"
proof -
  show "lookup_hit q now i" if "lookup_hit q now i'"
    using that thin_scopesD [OF assms(1)] assms(2) tier_hit_thin by (fastforce simp: lookup_hit_iff same_config_def)
  show "removal_at scope uid i' = None" if none: "removal_at scope uid i = None"
  proof (rule ccontr)
    assume "removal_at scope uid i' \<noteq> None"
    then obtain s' e where s': "map_get (fx_scopes i') scope = Some s'" "map_get (sf_removals s') uid = Some e"
      by (auto simp: removal_at_def lookupRemovalPointer_def split: option.splits)
    then obtain s where "map_get (fx_scopes i) scope = Some s" "thin s' s" using thin_scopesD [OF assms(1)] by blast
    with none s'(2) show False by (auto simp: removal_at_def lookupRemovalPointer_def thin_def dest: map_leD)
  qed
qed

lemma fact_scopeFor_hit: "map_get (fx_scopes i) scope = None \<Longrightarrow> \<not> tier_hit w (fact_scopeFor scope i) q now cutoff"
  by (simp add: fact_scopeFor_def tier_hit_def newScopeFacts_def live_def)

lemma store_fact_silent:
  assumes inv: "index_inv i" and st: "store_fact cfg scope f t i = (keys, i')" and keys: "set keys \<inter> set (waiterKeys q) = {}"
  shows "lookup_hit q now i' \<Longrightarrow> lookup_hit q now i"
    and "\<not> fq_ExactCapable q \<Longrightarrow> fq_UID q \<noteq> [] \<Longrightarrow> removal_at (query_scope q) (fq_UID q) i = None \<Longrightarrow>
      removal_at (query_scope q) (fq_UID q) i' = None"
proof -
  obtain s1 n where ff: "file_fact cfg scope f t (fact_scopeFor scope i) (fx_seq i) = (keys, s1, n)"
    and th: "thin_scopes (fx_scopes i') (map_put scope s1 (fx_scopes i))"
    by (rule store_fact_thin [OF st]) (use inv in \<open>auto simp: index_inv_def scopes_inv_def\<close>)
  define j where "j = i\<lparr> fx_scopes := map_put scope s1 (fx_scopes i) \<rparr>"
  have cfgs: "same_config i' j" using store_fact_keeps [OF inv, of cfg scope f t] by (simp add: st j_def same_config_def)
  note thin = lookup_hit_thin [OF _ cfgs, unfolded j_def, simplified, OF th, folded j_def]
  have hit: "lookup_hit q now i" if "lookup_hit q now j"
  proof (cases "scope = query_scope q")
    case True
    then have "tier_hit (fx_collectionWindow i) (fact_scopeFor scope i) q now (now - fx_ttl i)"
      using that file_fact_silent(1) [OF ff [unfolded True] keys] by (simp add: lookup_hit_iff j_def al.lookup_put)
    then show ?thesis using fact_scopeFor_hit True
      by (auto simp: lookup_hit_iff fact_scopeFor_def split: option.splits)
  next
    case False
    then show ?thesis using that by (simp add: lookup_hit_iff j_def al.lookup_put)
  qed
  then show "lookup_hit q now i' \<Longrightarrow> lookup_hit q now i" using thin(1) by blast
  have "removal_at (query_scope q) (fq_UID q) j = None"
    if q: "\<not> fq_ExactCapable q" "fq_UID q \<noteq> []" and none: "removal_at (query_scope q) (fq_UID q) i = None"
  proof (cases "scope = query_scope q")
    case True
    have "map_get (sf_removals (fact_scopeFor scope i)) (fq_UID q) = None"
      using none True by (auto simp: removal_at_def fact_scopeFor_def lookupRemovalPointer_def newScopeFacts_def split: option.splits)
    then show ?thesis using file_fact_silent(2) [OF ff [unfolded True] keys q] True
      by (simp add: removal_at_def j_def al.lookup_put lookupRemovalPointer_def)
  next
    case False
    then show ?thesis using none by (simp add: removal_at_def j_def al.lookup_put)
  qed
  then show "\<not> fq_ExactCapable q \<Longrightarrow> fq_UID q \<noteq> [] \<Longrightarrow> removal_at (query_scope q) (fq_UID q) i = None \<Longrightarrow>
      removal_at (query_scope q) (fq_UID q) i' = None" using thin(2) by blast
qed

text \<open>Waking leaves the registrations alone, never takes a token away, and reaches every waiter of a key.\<close>

lemma set_fold_insert: "set (fold List.insert ws xs) = set ws \<union> set xs"
  by (induction ws arbitrary: xs) auto

lemma wake_waiters_spec:
  "wr_byKey (wake_waiters keys r) = wr_byKey r
   \<and> set (wr_signalled (wake_waiters keys r)) = set (wr_signalled r) \<union> (\<Union>key \<in> set keys. set (waiters_at key r))"
proof (induction keys arbitrary: r)
  case (Cons key keys)
  let ?r = "r\<lparr> wr_signalled := fold List.insert (waiters_at key r) (wr_signalled r) \<rparr>"
  have "waiters_at k ?r = waiters_at k r" for k by (simp add: waiters_at_def)
  moreover have "wake_waiters (key # keys) r = wake_waiters keys ?r" by (simp add: wake_waiters_def)
  ultimately show ?case using Cons [of ?r] by (auto simp: set_fold_insert)
qed (simp add: wake_waiters_def)

definition registered :: "nat \<Rightarrow> FactQuery \<Rightarrow> factWaiterRegistry \<Rightarrow> bool" where
  "registered w q r \<longleftrightarrow> (\<forall>key \<in> set (waiterKeys q). w \<in> set (waiters_at key r))"

lemma register_at: "set (waiters_at key (register w keys r)) = set (waiters_at key r) \<union> (if key \<in> set keys then {w} else {})"
proof (induction keys arbitrary: r)
  case (Cons k keys)
  let ?r = "r\<lparr> wr_byKey := map_put k (List.insert w (waiters_at k r)) (wr_byKey r) \<rparr>"
  have "register w (k # keys) r = register w keys ?r" by (simp add: register_def)
  moreover have "set (waiters_at key ?r) = set (waiters_at key r) \<union> (if key = k then {w} else {})"
    by (auto simp: waiters_at_def al.lookup_put)
  ultimately show ?case using Cons [of ?r] by auto
qed (simp add: register_def)

lemma unregister_at: "set (waiters_at key (unregister w keys r)) = set (waiters_at key r) - (if key \<in> set keys then {w} else {})"
proof (induction keys arbitrary: r)
  case (Cons k keys)
  define r1 where "r1 = (case map_get (wr_byKey r) k of
      None \<Rightarrow> r
    | Some ws \<Rightarrow> (let ws = removeAll w ws in
        r\<lparr> wr_byKey := (if ws = [] then map_del k (wr_byKey r) else map_put k ws (wr_byKey r)) \<rparr>))"
  have "unregister w (k # keys) r = unregister w keys r1" by (simp add: unregister_def r1_def)
  moreover have "set (waiters_at key r1) = set (waiters_at key r) - (if key = k then {w} else {})"
    by (auto simp: r1_def waiters_at_def al.lookup_put al.lookup_del Let_def split: option.splits) (metis DiffI empty_iff empty_set set_removeAll singletonD)
  ultimately show ?case using Cons [of r1] by auto
qed (simp add: unregister_def)

lemma register_signalled: "wr_signalled (register w keys r) = wr_signalled r"
  by (induction keys arbitrary: r) (simp_all add: register_def)

lemma unregister_signalled: "wr_signalled (unregister w keys r) = wr_signalled r"
  by (induction keys arbitrary: r) (simp_all add: unregister_def Let_def split: option.split)

text \<open>
  The resolver, the follower and what they share. Each step is what runs under one lock: the follower
  stores a fact under the lock of the index and wakes its waiters under the lock of the registry, the
  resolver reads the clock before it takes the lock of the index. The channel of a waiter holds one
  token, so a signal is the membership of the waiter in \<open>wr_signalled\<close> and receiving it takes the
  waiter out.
\<close>

datatype await_phase =
    Entering
  | Reading AuthorResolution
  | Looking AuthorResolution gotime
  | Waiting AuthorResolution
  | Returned AuthorResolution
  | Left AuthorResolution

datatype applying =
    Idle
  | Storing factScope gotime "AuthorFact list"
  | Waking "factWaiterKey list" factScope gotime "AuthorFact list"

record resolver =
  rs_index :: FactIndex
  rs_waiters :: factWaiterRegistry
  rs_clock :: gotime
  rs_phase :: await_phase
  rs_follower :: applying

definition after_read :: "AuthorResolution + AuthorResolution \<Rightarrow> await_phase" where
  "after_read x = (case x of Inr r \<Rightarrow> Returned r | Inl fallback \<Rightarrow> Waiting fallback)"

definition take_token :: "nat \<Rightarrow> factWaiterRegistry \<Rightarrow> factWaiterRegistry" where
  "take_token w r = r\<lparr> wr_signalled := removeAll w (wr_signalled r) \<rparr>"

text \<open>
  \<open>Register\<close> to \<open>Unregister\<close> are the resolver in \<open>Await\<close>: it registers, reads the clock and then the
  index, waits for a token or for the end of the grace or of the context, and unregisters.
  \<open>Deliver\<close> to \<open>Applied\<close> are the follower in \<open>Apply\<close>, \<open>Sweep\<close> its sweep between two deliveries.
  \<open>Enter\<close> and \<open>Leave\<close> are other resolvers. The clock never runs backwards.
\<close>

inductive resolver_step :: "fact_config \<Rightarrow> FactQuery \<Rightarrow> nat \<Rightarrow> resolver \<Rightarrow> resolver \<Rightarrow> bool" for cfg q w where
  Tick: "rs_clock s \<le> now \<Longrightarrow> resolver_step cfg q w s (s\<lparr> rs_clock := now \<rparr>)"
| Deliver: "rs_follower s = Idle \<Longrightarrow>
    resolver_step cfg q w s (s\<lparr> rs_follower := Storing (entry_scope e) (entryAppendTime (fe_ID e) (rs_clock s)) (fe_Facts e) \<rparr>)"
| Store: "rs_follower s = Storing scope at (f # fs) \<Longrightarrow> store_fact cfg scope f at (rs_index s) = (keys, i) \<Longrightarrow>
    resolver_step cfg q w s (s\<lparr> rs_index := i, rs_follower := Waking keys scope at fs \<rparr>)"
| Wake: "rs_follower s = Waking keys scope at fs \<Longrightarrow>
    resolver_step cfg q w s (s\<lparr> rs_waiters := wake_waiters keys (rs_waiters s), rs_follower := Storing scope at fs \<rparr>)"
| Applied: "rs_follower s = Storing scope at [] \<Longrightarrow> resolver_step cfg q w s (s\<lparr> rs_follower := Idle \<rparr>)"
| Sweep: "rs_follower s = Idle \<Longrightarrow> now \<le> rs_clock s \<Longrightarrow>
    resolver_step cfg q w s (s\<lparr> rs_index := snd (fx_Sweep now (rs_index s)) \<rparr>)"
| Enter: "v \<noteq> w \<Longrightarrow> resolver_step cfg q w s (s\<lparr> rs_waiters := register v keys (rs_waiters s) \<rparr>)"
| Leave: "v \<noteq> w \<Longrightarrow> resolver_step cfg q w s (s\<lparr> rs_waiters := unregister v keys (rs_waiters s) \<rparr>)"
| Register: "rs_phase s = Entering \<Longrightarrow>
    resolver_step cfg q w s (s\<lparr> rs_waiters := register w (waiterKeys q) (rs_waiters s), rs_phase := Reading absent \<rparr>)"
| Clock: "rs_phase s = Reading fallback \<Longrightarrow> resolver_step cfg q w s (s\<lparr> rs_phase := Looking fallback (rs_clock s) \<rparr>)"
| Look: "rs_phase s = Looking fallback now \<Longrightarrow>
    resolver_step cfg q w s (s\<lparr> rs_phase := after_read (await_read q fallback now (rs_index s)) \<rparr>)"
| Receive: "rs_phase s = Waiting fallback \<Longrightarrow> w \<in> set (wr_signalled (rs_waiters s)) \<Longrightarrow>
    resolver_step cfg q w s (s\<lparr> rs_waiters := take_token w (rs_waiters s), rs_phase := Reading fallback \<rparr>)"
| Expire: "rs_phase s = Waiting fallback \<Longrightarrow> resolver_step cfg q w s (s\<lparr> rs_phase := Returned fallback \<rparr>)"
| Unregister: "rs_phase s = Returned r \<Longrightarrow>
    resolver_step cfg q w s (s\<lparr> rs_waiters := unregister w (waiterKeys q) (rs_waiters s), rs_phase := Left r \<rparr>)"

definition resolver_start :: "FactIndex \<Rightarrow> factWaiterRegistry \<Rightarrow> gotime \<Rightarrow> resolver" where
  "resolver_start i r now = \<lparr> rs_index = i, rs_waiters = r, rs_clock = now, rs_phase = Entering, rs_follower = Idle \<rparr>"

text \<open>The steps of the follower put together are \<open>Apply\<close>.\<close>

lemma resolver_stores:
  assumes "rs_follower s = Storing scope at fs"
    and "fold (\<lambda>f (i, r). case store_fact cfg scope f at i of (keys, i) \<Rightarrow> (i, wake_waiters keys r)) fs (rs_index s, rs_waiters s) = (i, r)"
  shows "(resolver_step cfg q w)\<^sup>*\<^sup>* s (s\<lparr> rs_index := i, rs_waiters := r, rs_follower := Idle \<rparr>)"
  using assms
proof (induction fs arbitrary: s)
  case Nil
  then have "s\<lparr> rs_index := i, rs_waiters := r, rs_follower := Idle \<rparr> = s\<lparr> rs_follower := Idle \<rparr>" by (cases s) simp
  moreover have "resolver_step cfg q w s (s\<lparr> rs_follower := Idle \<rparr>)" by (rule resolver_step.Applied [OF Nil.prems(1)])
  ultimately show ?case by (simp add: r_into_rtranclp)
next
  case (Cons f fs)
  obtain keys j where st: "store_fact cfg scope f at (rs_index s) = (keys, j)" by (metis surj_pair)
  let ?s = "s\<lparr> rs_index := j, rs_follower := Waking keys scope at fs \<rparr>"
  let ?t = "?s\<lparr> rs_waiters := wake_waiters keys (rs_waiters ?s), rs_follower := Storing scope at fs \<rparr>"
  have "resolver_step cfg q w s ?s" by (rule resolver_step.Store [OF Cons.prems(1) st])
  moreover have "resolver_step cfg q w ?s ?t" by (rule resolver_step.Wake) simp
  moreover have "(resolver_step cfg q w)\<^sup>*\<^sup>* ?t (?t\<lparr> rs_index := i, rs_waiters := r, rs_follower := Idle \<rparr>)"
    by (rule Cons.IH) (use Cons.prems(2) st in simp_all)
  ultimately show ?case by (simp add: converse_rtranclp_into_rtranclp)
qed

lemma resolver_applies:
  assumes "rs_follower s = Idle" and "Apply cfg (rs_clock s) e (rs_index s, rs_waiters s) = (i, r)"
  shows "(resolver_step cfg q w)\<^sup>*\<^sup>* s (s\<lparr> rs_index := i, rs_waiters := r \<rparr>)"
proof -
  let ?s = "s\<lparr> rs_follower := Storing (entry_scope e) (entryAppendTime (fe_ID e) (rs_clock s)) (fe_Facts e) \<rparr>"
  have "resolver_step cfg q w s ?s" by (rule resolver_step.Deliver [OF assms(1)])
  moreover have "(resolver_step cfg q w)\<^sup>*\<^sup>* ?s (?s\<lparr> rs_index := i, rs_waiters := r, rs_follower := Idle \<rparr>)"
    by (rule resolver_stores) (use assms(2) in \<open>simp_all add: Apply_def\<close>)
  moreover have "?s\<lparr> rs_index := i, rs_waiters := r, rs_follower := Idle \<rparr> = s\<lparr> rs_index := i, rs_waiters := r \<rparr>"
    using assms(1) by (cases s) simp
  ultimately show ?thesis by (simp add: converse_rtranclp_into_rtranclp)
qed

definition quiet :: "FactQuery \<Rightarrow> AuthorResolution \<Rightarrow> gotime \<Rightarrow> FactIndex \<Rightarrow> bool" where
  "quiet q fallback now i \<longleftrightarrow>
     (\<not> fq_ExactCapable q \<and> fq_UID q \<noteq> [] \<longrightarrow> removal_at (query_scope q) (fq_UID q) i = None)
     \<and> (ar_Result fallback = AttributionAbsent \<longrightarrow> \<not> lookup_hit q now i)"

text \<open>The follower has stored a fact that the resolver waits for, and is about to wake it.\<close>

definition waking :: "FactQuery \<Rightarrow> applying \<Rightarrow> bool" where
  "waking q a = (case a of Waking keys _ _ _ \<Rightarrow> set keys \<inter> set (waiterKeys q) \<noteq> {} | _ \<Rightarrow> False)"

fun listening :: "await_phase \<Rightarrow> bool" where
  "listening Entering = False"
| "listening (Left _) = False"
| "listening _ = True"

definition resolver_inv :: "FactQuery \<Rightarrow> nat \<Rightarrow> resolver \<Rightarrow> bool" where
  "resolver_inv q w s \<longleftrightarrow> index_inv (rs_index s)
     \<and> (listening (rs_phase s) \<longrightarrow> registered w q (rs_waiters s))
     \<and> (\<forall>fallback now. rs_phase s = Looking fallback now \<longrightarrow> now \<le> rs_clock s)
     \<and> (\<forall>fallback. rs_phase s = Waiting fallback \<and> w \<notin> set (wr_signalled (rs_waiters s)) \<longrightarrow>
          quiet q fallback (rs_clock s) (rs_index s) \<or> waking q (rs_follower s))"

lemma quiet_later: "quiet q fallback now i \<Longrightarrow> now \<le> now' \<Longrightarrow> quiet q fallback now' i"
  by (auto simp: quiet_def dest: lookup_hit_earlier)

lemma quiet_read:
  assumes "await_read q fallback now i = Inl fallback'"
  shows "quiet q fallback' now i"
proof -
  have *: "ar_Result (Lookup q now i) = AttributionAbsent \<or> awaitsBetterEvidence q (Lookup q now i)"
      and f: "fallback' = (if ar_Result (Lookup q now i) = AttributionAbsent then fallback else Lookup q now i)"
    using assms by (auto simp: await_read_def Let_def split: if_splits)
  have "removal_at (query_scope q) (fq_UID q) i = None" if "\<not> fq_ExactCapable q" "fq_UID q \<noteq> []"
  proof (rule ccontr)
    assume "removal_at (query_scope q) (fq_UID q) i \<noteq> None"
    with that obtain f where "Lookup q now i = resolved AttributionDeleteSticky f"
      by (auto simp: lookup_sticky_iff removal_at_Some)
    then show False using * by (auto simp: awaitsBetterEvidence_def split: if_splits)
  qed
  then show ?thesis using f by (auto simp: quiet_def lookup_hit_def)
qed

lemma store_quiet:
  assumes "index_inv i" and "store_fact cfg scope f at i = (keys, i')" and "quiet q fallback now i"
  shows "quiet q fallback now i' \<or> waking q (Waking keys scope at fs)"
  using store_fact_silent [OF assms(1,2), of q] assms(3) by (cases "set keys \<inter> set (waiterKeys q) = {}") (auto simp: quiet_def waking_def)

lemma wake_registered: "registered w q r \<Longrightarrow> registered w q (wake_waiters keys r)"
  using wake_waiters_spec [of keys r] by (simp add: registered_def waiters_at_def)

lemma wake_token:
  assumes "registered w q r" and "waking q (Waking keys scope at fs)"
  shows "w \<in> set (wr_signalled (wake_waiters keys r))"
  using assms wake_waiters_spec [of keys r] by (auto simp: registered_def waking_def)

lemma resolver_step_inv:
  assumes "resolver_step cfg q w s s'" and inv: "resolver_inv q w s"
  shows "resolver_inv q w s'"
  using assms(1)
proof cases
  case (Tick now)
  then show ?thesis using inv quiet_later by (fastforce simp: resolver_inv_def)
next
  case (Deliver e)
  then show ?thesis using inv by (auto simp: resolver_inv_def waking_def)
next
  case (Store scope at f fs keys i)
  have "index_inv i" using store_fact_keeps [of "rs_index s" cfg scope f at] Store(3) inv by (simp add: resolver_inv_def)
  moreover have "\<not> waking q (rs_follower s)" using Store(2) by (simp add: waking_def)
  ultimately show ?thesis using inv store_quiet [OF _ Store(3)] Store(1) by (auto simp: resolver_inv_def)
next
  case (Wake keys scope at fs)
  have "\<not> waking q (Storing scope at fs)" by (simp add: waking_def)
  moreover have "w \<in> set (wr_signalled (rs_waiters s)) \<Longrightarrow> w \<in> set (wr_signalled (wake_waiters keys (rs_waiters s)))"
    using wake_waiters_spec [of keys "rs_waiters s"] by simp
  ultimately show ?thesis
    using inv Wake wake_registered [of w q "rs_waiters s" keys] wake_token [of w q "rs_waiters s" keys scope at fs]
    by (auto simp: resolver_inv_def)
next
  case (Applied scope at)
  then show ?thesis using inv by (auto simp: resolver_inv_def waking_def)
next
  case (Sweep now)
  have "index_inv (rs_index s)" using inv by (simp add: resolver_inv_def)
  note keeps = fx_Sweep_keeps [OF this, of now] and thin = fx_Sweep_thin [OF this, of now]
  have "quiet q fallback (rs_clock s) (rs_index s) \<Longrightarrow> quiet q fallback (rs_clock s) (snd (fx_Sweep now (rs_index s)))" for fallback
    using lookup_hit_thin [OF thin] keeps by (auto simp: quiet_def)
  then show ?thesis using inv keeps Sweep by (auto simp: resolver_inv_def)
next
  case (Look fallback now)
  then have "listening (rs_phase s)" "now \<le> rs_clock s" using inv by (auto simp: resolver_inv_def)
  then show ?thesis using inv quiet_later [OF quiet_read] Look
    by (auto simp: resolver_inv_def after_read_def split: sum.splits)
next
  case (Receive fallback)
  have "registered w q (take_token w (rs_waiters s))"
    using inv Receive by (simp add: resolver_inv_def registered_def take_token_def waiters_at_def)
  then show ?thesis using inv Receive by (simp add: resolver_inv_def)
qed (use inv in \<open>auto simp: resolver_inv_def registered_def register_at register_signalled unregister_at unregister_signalled\<close>)

lemma resolver_reach_inv:
  assumes "(resolver_step cfg q w)\<^sup>*\<^sup>* (resolver_start i r now) s" and "index_inv i"
  shows "resolver_inv q w s"
  using assms(1)
proof (induction rule: rtranclp_induct)
  case base
  show ?case using assms(2) by (simp add: resolver_inv_def resolver_start_def)
qed (rule resolver_step_inv)

text \<open>
  C12: no wake-up is lost. A resolver registers its keys and then reads; facts are stored, their waiters
  woken, the index swept, and other resolvers come and go in between and at any point of its wait, one
  lock at a time and in any order. Whenever the resolver is parked with no token in its channel, either
  the follower has just stored a fact for it and its very next step puts the token there, or there is
  nothing to wake for: with nothing in hand the index has no answer for it, now or at any later time
  until something is stored, and a removal that holds an attribution never sleeps while the fact of its
  own deletion is in the index.
\<close>

theorem no_lost_wakeup:
  assumes i: "i = index_run cfg (NewFactIndex ttl maxPerType maxTotal window interval) r0 ls rounds"
    and reach: "(resolver_step cfg q w)\<^sup>*\<^sup>* (resolver_start i r now) s"
    and parked: "rs_phase s = Waiting fallback" "w \<notin> set (wr_signalled (rs_waiters s))" and later: "rs_clock s \<le> later"
  shows "(\<exists>keys scope at fs. rs_follower s = Waking keys scope at fs \<and> w \<in> set (wr_signalled (wake_waiters keys (rs_waiters s))))
     \<or> (ar_Result fallback = AttributionAbsent \<longrightarrow> ar_Result (Lookup q later (rs_index s)) = AttributionAbsent)
       \<and> ar_Result (Lookup q later (rs_index s)) \<noteq> AttributionDeleteSticky"
proof -
  have "index_inv i" using index_run_inv [OF index_inv_start] by (simp add: i)
  then have inv: "quiet q fallback (rs_clock s) (rs_index s) \<or> waking q (rs_follower s)" "registered w q (rs_waiters s)"
    using resolver_reach_inv [OF reach] parked by (auto simp: resolver_inv_def)
  have "\<exists>keys scope at fs. rs_follower s = Waking keys scope at fs \<and> w \<in> set (wr_signalled (wake_waiters keys (rs_waiters s)))"
    if "waking q (rs_follower s)"
    using that wake_token [OF inv(2)] by (cases "rs_follower s") (auto simp: waking_def)
  moreover have "ar_Result (Lookup q later (rs_index s)) = AttributionDeleteSticky \<Longrightarrow>
      \<not> fq_ExactCapable q \<and> fq_UID q \<noteq> [] \<and> removal_at (query_scope q) (fq_UID q) (rs_index s) \<noteq> None"
    using lookup_sticky_iff [of q later "rs_index s" "ar_Fact (Lookup q later (rs_index s))"]
    by (auto simp: resolved_def removal_at_Some)
  moreover have "quiet q fallback (rs_clock s) (rs_index s) \<Longrightarrow> quiet q fallback later (rs_index s)"
    using later by (rule quiet_later [rotated])
  ultimately show ?thesis using inv(1) by (auto simp: quiet_def lookup_hit_def)
qed

section \<open>A wait\<close>

text \<open>
  A resolver waits for the author of an update. Its first read finds an empty index and parks; a delivery about
  another object leaves no token, and the resolver is right to sleep on.
\<close>

definition ex_entering :: resolver where
  "ex_entering = resolver_start (ex_index []) ex_waiters (UnixMilli 8)"

definition ex_parked :: resolver where
  "ex_parked = ex_entering\<lparr> rs_waiters := register 1 (waiterKeys ex_update) ex_waiters, rs_phase := Waiting absent \<rparr>"

definition ex_other :: "FactIndex \<times> factWaiterRegistry" where
  "ex_other = Apply ex_fact_config (UnixMilli 8) (ex_entry ''7-0'' [ex_fact ''u2'' ''patch'' ''bob'']) (rs_index ex_parked, rs_waiters ex_parked)"

lemma ex_wait_ok: "after_read (await_read ex_update absent (UnixMilli 8) (ex_index [])) = Waiting absent \<and> wr_signalled (snd ex_other) = []"
  by code_simp

lemma ex_parks: "(resolver_step cfg ex_update 1)\<^sup>*\<^sup>* ex_entering ex_parked"
proof -
  let ?r = "ex_entering\<lparr> rs_waiters := register 1 (waiterKeys ex_update) ex_waiters, rs_phase := Reading absent \<rparr>"
  have "resolver_step cfg ex_update 1 ex_entering ?r"
    using resolver_step.Register [of ex_entering cfg ex_update 1] by (simp add: ex_entering_def resolver_start_def)
  moreover have "resolver_step cfg ex_update 1 ?r (?r\<lparr> rs_phase := Looking absent (UnixMilli 8) \<rparr>)"
    using resolver_step.Clock [of ?r absent cfg ex_update 1] by (simp add: ex_entering_def resolver_start_def)
  moreover have "resolver_step cfg ex_update 1 (?r\<lparr> rs_phase := Looking absent (UnixMilli 8) \<rparr>) ex_parked"
    using resolver_step.Look [of "?r\<lparr> rs_phase := Looking absent (UnixMilli 8) \<rparr>" absent "UnixMilli 8" cfg ex_update 1] ex_wait_ok
    by (simp add: ex_entering_def ex_parked_def resolver_start_def)
  ultimately show ?thesis by (simp add: converse_rtranclp_into_rtranclp)
qed

theorem no_lost_wakeup_witness:
  "(resolver_step ex_fact_config ex_update 1)\<^sup>*\<^sup>* (resolver_start (ex_index []) ex_waiters (UnixMilli 8))
     (ex_parked\<lparr> rs_index := fst ex_other, rs_waiters := snd ex_other \<rparr>)
   \<and> ar_Result (Lookup ex_update (UnixMilli 9) (fst ex_other)) = AttributionAbsent"
proof -
  let ?s = "ex_parked\<lparr> rs_index := fst ex_other, rs_waiters := snd ex_other \<rparr>"
  have "(resolver_step ex_fact_config ex_update 1)\<^sup>*\<^sup>* ex_parked ?s"
    by (rule resolver_applies [where e = "ex_entry ''7-0'' [ex_fact ''u2'' ''patch'' ''bob'']"])
      (simp_all add: ex_parked_def ex_entering_def resolver_start_def ex_other_def)
  with ex_parks have reach: "(resolver_step ex_fact_config ex_update 1)\<^sup>*\<^sup>* (resolver_start (ex_index []) ex_waiters (UnixMilli 8)) ?s"
    unfolding ex_entering_def by (rule rtranclp_trans)
  have "rs_phase ?s = Waiting absent" "1 \<notin> set (wr_signalled (rs_waiters ?s))" "rs_clock ?s \<le> UnixMilli 9" "rs_follower ?s = Idle"
    using ex_wait_ok by (simp_all add: ex_parked_def ex_entering_def resolver_start_def UnixMilli_def)
  from no_lost_wakeup [OF ex_index_def [of "[]"] reach this(1-3)] this(4) reach show ?thesis by (auto simp: absent_iff)
qed

end
