(* ===== verification/Audit_Ingest.thy ===== *)
theory Audit_Ingest
  imports Fact_Waiting Commit_Window "HOL-Library.Multiset"
begin

text \<open>
  The write side of attribution: the audit webhook (\<open>internal/webhook/audit_handler.go\<close>) and the reduction of
  an audit event to a fact (\<open>internal/queue/author_fact.go\<close>, \<open>audit_event_parsing.go\<close>, \<open>internal/auditutil\<close>,
  \<open>internal/audit/outcome\<close>).

  A body is the text the API server sent; the JSON parser that turns it into a tree is an argument, and
  decoding a tree into the structs the code declares is written out: a key matches a field regardless of
  case, \<open>null\<close> leaves the field, a value of another kind fails the decoding. A request URI is a path with a
  query; its parsing is written out for such a URI. The append to a stream is an argument that may fail and
  that threads the state of the transport. The outcomes recorded on the metric are a list of values.
\<close>

section \<open>Audit events\<close>

record audit_user =
  au_Username :: string
  au_Extra :: "(string, string list) gomap"

record ObjectReference =
  obr_Resource :: string
  obr_Namespace :: string
  obr_Name :: string
  obr_UID :: string
  obr_APIGroup :: string
  obr_APIVersion :: string
  obr_ResourceVersion :: string
  obr_Subresource :: string

record audit_event =
  ae_Stage :: string
  ae_AuditID :: string
  ae_RequestURI :: string
  ae_Verb :: string
  ae_User :: audit_user
  ae_ImpersonatedUser :: "audit_user option"
  ae_ObjectRef :: "ObjectReference option"
  ae_ResponseCode :: "int option"
  ae_RequestObject :: "string option"
  ae_ResponseObject :: "string option"
  ae_StageTimestamp :: gotime
  ae_Annotations :: "(string, string) gomap"

record ingest_env =
  ie_parse_json :: "string \<Rightarrow> json option"
  ie_format_time :: "gotime \<Rightarrow> string"

section \<open>Decoding bodies\<close>

definition decode_string :: "json \<Rightarrow> string \<Rightarrow> string option" where
  "decode_string v old = (case v of JNull \<Rightarrow> Some old | JString s \<Rightarrow> Some s | _ \<Rightarrow> None)"

fun decode_fields :: "(string \<Rightarrow> json \<Rightarrow> 's \<Rightarrow> 's option) \<Rightarrow> (string \<times> json) list \<Rightarrow> 's \<Rightarrow> 's option" where
  "decode_fields field [] s = Some s"
| "decode_fields field ((k, v) # kvs) s =
     (case field k v s of None \<Rightarrow> None | Some s' \<Rightarrow> decode_fields field kvs s')"

definition decode_struct :: "(string \<Rightarrow> json \<Rightarrow> 's \<Rightarrow> 's option) \<Rightarrow> json \<Rightarrow> 's \<Rightarrow> 's option" where
  "decode_struct field v s =
     (case v of JNull \<Rightarrow> Some s | JMap kvs \<Rightarrow> decode_fields field kvs s | _ \<Rightarrow> None)"

definition in_field :: "string \<Rightarrow> (json \<Rightarrow> 's \<Rightarrow> 's option) \<Rightarrow> string \<Rightarrow> json \<Rightarrow> 's \<Rightarrow> 's option" where
  "in_field name dec k v s = (if EqualFold k name then dec v s else Some s)"

definition unmarshal :: "ingest_env \<Rightarrow> (json \<Rightarrow> 's \<Rightarrow> 's option) \<Rightarrow> string \<Rightarrow> 's \<Rightarrow> 's option" where
  "unmarshal env dec raw s = (case ie_parse_json env raw of None \<Rightarrow> None | Some v \<Rightarrow> dec v s)"

text \<open>\<open>obj == nil || len(obj.Raw) == 0\<close>.\<close>

definition no_body :: "string option \<Rightarrow> bool" where
  "no_body obj = (obj = None \<or> obj = Some [])"

definition rv_probe :: "json \<Rightarrow> string \<Rightarrow> string option" where
  "rv_probe = decode_struct (in_field ''metadata'' (decode_struct (in_field ''resourceVersion'' decode_string)))"

definition metadataResourceVersion :: "ingest_env \<Rightarrow> string option \<Rightarrow> string" where
  "metadataResourceVersion env obj =
     (if no_body obj then []
      else case unmarshal env rv_probe (the obj) [] of None \<Rightarrow> [] | Some rv \<Rightarrow> rv)"

definition rvFromRawObject :: "ingest_env \<Rightarrow> string option \<Rightarrow> string" where
  "rvFromRawObject env obj =
     (if no_body obj then []
      else case unmarshal env rv_probe (the obj) [] of None \<Rightarrow> [] | Some rv \<Rightarrow> rv)"

text \<open>The items of a list body: \<open>null\<close> is no list, a \<open>null\<close> item the zero item, a repeated key the later list.\<close>

definition uid_probe :: "json \<Rightarrow> string \<Rightarrow> string option" where
  "uid_probe = decode_struct (in_field ''metadata'' (decode_struct (in_field ''uid'' decode_string)))"

fun decode_items :: "json list \<Rightarrow> string list option" where
  "decode_items [] = Some []"
| "decode_items (v # vs) =
     (case uid_probe v [] of None \<Rightarrow> None | Some uid \<Rightarrow> map_option ((#) uid) (decode_items vs))"

definition items_field :: "json \<Rightarrow> string list \<Rightarrow> string list option" where
  "items_field v _ = (case v of JNull \<Rightarrow> Some [] | JList vs \<Rightarrow> decode_items vs | _ \<Rightarrow> None)"

definition deleteCollectionItems :: "ingest_env \<Rightarrow> string option \<Rightarrow> string list" where
  "deleteCollectionItems env obj =
     (if no_body obj then []
      else case unmarshal env (decode_struct (in_field ''items'' items_field)) (the obj) [] of
             None \<Rightarrow> []
           | Some uids \<Rightarrow> uids)"

section \<open>Request URIs\<close>

definition hex_value :: "char \<Rightarrow> nat option" where
  "hex_value c =
     (let n = of_char c :: nat in
      if 48 \<le> n \<and> n \<le> 57 then Some (n - 48)
      else if 97 \<le> n \<and> n \<le> 102 then Some (n - 87)
      else if 65 \<le> n \<and> n \<le> 70 then Some (n - 55)
      else None)"

text \<open>\<open>url.unescape\<close>: a plus sign is a space in a query only.\<close>

fun unescape :: "bool \<Rightarrow> string \<Rightarrow> string option" where
  "unescape query [] = Some []"
| "unescape query (c # cs) =
     (if c = CHR ''%'' then
        (case cs of
           a # b # rest \<Rightarrow>
             (case (hex_value a, hex_value b) of
                (Some x, Some y) \<Rightarrow> map_option ((#) (char_of (16 * x + y))) (unescape query rest)
              | _ \<Rightarrow> None)
         | _ \<Rightarrow> None)
      else map_option ((#) (if query \<and> c = CHR ''+'' then CHR '' '' else c)) (unescape query cs))"

definition query_pair :: "string \<Rightarrow> (string \<times> string) list" where
  "query_pair part =
     (if part = [] \<or> CHR '';'' \<in> set part then []
      else case Cut part (CHR ''='') of
             (key, v, _) \<Rightarrow>
               (case (unescape True key, unescape True v) of
                  (Some k, Some x) \<Rightarrow> [(k, x)]
                | _ \<Rightarrow> []))"

definition is_control :: "char \<Rightarrow> bool" where
  "is_control c = (of_char c < (32 :: nat) \<or> of_char c = (127 :: nat))"

text \<open>\<open>url.Parse\<close> then \<open>Query\<close>: \<open>None\<close> when the URI does not parse.\<close>

definition url_query :: "string \<Rightarrow> (string \<times> string) list option" where
  "url_query uri =
     (case Cut uri (CHR ''#'') of (u, frag, _) \<Rightarrow>
      case Cut u (CHR ''?'') of (path, raw, _) \<Rightarrow>
        if list_ex is_control uri \<or> unescape False path = None \<or> unescape False frag = None then None
        else Some (concat (map query_pair (Split (CHR ''&'') raw))))"

definition query_Get :: "(string \<times> string) list \<Rightarrow> string \<Rightarrow> string" where
  "query_Get q key = (case map_of q key of None \<Rightarrow> [] | Some v \<Rightarrow> v)"

definition labelSelectorQueryParam :: string where
  "labelSelectorQueryParam = ''labelSelector''"

definition labelSelectorFromRequestURI :: "string \<Rightarrow> string" where
  "labelSelectorFromRequestURI requestURI =
     (if requestURI = [] then []
      else case url_query requestURI of None \<Rightarrow> [] | Some q \<Rightarrow> query_Get q labelSelectorQueryParam)"

section \<open>Who and what\<close>

text \<open>\<open>None\<close> is the empty operation with \<open>ok\<close> false.\<close>

definition VerbToOperation :: "string \<Rightarrow> OperationType option" where
  "VerbToOperation verb =
     (let v = ToLower verb in
      if v = ''create'' then Some OperationCreate
      else if v \<in> {''update'', ''patch''} then Some OperationUpdate
      else if v \<in> {''delete'', ''deletecollection''} then Some OperationDelete
      else None)"

record AuditObjectIdentity =
  aid_Namespace :: string
  aid_Name :: string
  aid_UID :: string

definition bodyPriority :: "audit_event \<Rightarrow> OperationType option \<Rightarrow> string option \<times> string option" where
  "bodyPriority event op =
     (if op = Some OperationDelete then (ae_RequestObject event, ae_ResponseObject event)
      else (ae_ResponseObject event, ae_RequestObject event))"

definition identity_probe :: "json \<Rightarrow> string \<times> string \<times> string \<Rightarrow> (string \<times> string \<times> string) option" where
  "identity_probe =
     decode_struct (in_field ''metadata'' (decode_struct (\<lambda>k v (ns, name, uid).
       if EqualFold k ''namespace'' then map_option (\<lambda>x. (x, name, uid)) (decode_string v ns)
       else if EqualFold k ''name'' then map_option (\<lambda>x. (ns, x, uid)) (decode_string v name)
       else if EqualFold k ''uid'' then map_option (\<lambda>x. (ns, name, x)) (decode_string v uid)
       else Some (ns, name, uid))))"

definition backfillIdentityFromBody :: "ingest_env \<Rightarrow> string option \<Rightarrow> AuditObjectIdentity \<Rightarrow> AuditObjectIdentity" where
  "backfillIdentityFromBody env body x =
     (if aid_Namespace x \<noteq> [] \<and> aid_Name x \<noteq> [] \<and> aid_UID x \<noteq> [] then x
      else if no_body body then x
      else case unmarshal env identity_probe (the body) ([], [], []) of
             None \<Rightarrow> x
           | Some (ns, name, uid) \<Rightarrow>
               \<lparr> aid_Namespace = (if aid_Namespace x = [] then ns else aid_Namespace x),
                 aid_Name = (if aid_Name x = [] then name else aid_Name x),
                 aid_UID = (if aid_UID x = [] then uid else aid_UID x) \<rparr>)"

definition IdentityFromAuditEvent :: "ingest_env \<Rightarrow> audit_event \<Rightarrow> OperationType option \<Rightarrow> AuditObjectIdentity" where
  "IdentityFromAuditEvent env event op =
     (let x = (case ae_ObjectRef event of
                 None \<Rightarrow> \<lparr> aid_Namespace = [], aid_Name = [], aid_UID = [] \<rparr>
               | Some r \<Rightarrow> \<lparr> aid_Namespace = obr_Namespace r, aid_Name = obr_Name r, aid_UID = obr_UID r \<rparr>);
          (preferred, fallback) = bodyPriority event op
      in backfillIdentityFromBody env fallback (backfillIdentityFromBody env preferred x))"

definition displayNameExtraKey :: string where
  "displayNameExtraKey = ''configbutler.ai/claims/display-name''"

definition emailExtraKey :: string where
  "emailExtraKey = ''configbutler.ai/claims/email''"

definition firstExtraValue :: "(string, string list) gomap \<Rightarrow> string \<Rightarrow> string" where
  "firstExtraValue extra key = (case map_get extra key of None \<Rightarrow> [] | Some [] \<Rightarrow> [] | Some (v # _) \<Rightarrow> v)"

definition resolveUserInfo :: "audit_event \<Rightarrow> UserInfo" where
  "resolveUserInfo event =
     (let user = (case ae_ImpersonatedUser event of
                    None \<Rightarrow> ae_User event
                  | Some u \<Rightarrow> if au_Username u \<noteq> [] then u else ae_User event)
      in no_user\<lparr> ui_Username := au_Username user, ui_DisplayName := firstExtraValue (au_Extra user) displayNameExtraKey,
           ui_Email := firstExtraValue (au_Extra user) emailExtraKey \<rparr>)"

definition resourceVersionFromEvent :: "ingest_env \<Rightarrow> audit_event \<Rightarrow> string" where
  "resourceVersionFromEvent env event =
     (let rv = rvFromRawObject env (ae_ResponseObject event) in
      if rv \<noteq> [] then rv
      else case ae_ObjectRef event of None \<Rightarrow> [] | Some r \<Rightarrow> obr_ResourceVersion r)"

definition DefaultCollectionUIDCap :: int where
  "DefaultCollectionUIDCap = 10000"

definition collectionUIDs :: "ingest_env \<Rightarrow> audit_event \<Rightarrow> int \<Rightarrow> string list" where
  "collectionUIDs env event uidCap =
     (let cap = (if uidCap \<le> 0 then DefaultCollectionUIDCap else uidCap);
          items = deleteCollectionItems env (ae_ResponseObject event)
      in if int (length items) > cap then [] else filter (\<lambda>uid. uid \<noteq> []) items)"

definition describeCollection :: "ingest_env \<Rightarrow> audit_event \<Rightarrow> int \<Rightarrow> AuthorFact \<Rightarrow> AuthorFact" where
  "describeCollection env event uidCap f =
     f\<lparr> af_UID := [], af_Name := [], af_ResourceVersion := [],
        af_LabelSelector := labelSelectorFromRequestURI (ae_RequestURI event),
        af_UIDs := collectionUIDs env event uidCap \<rparr>"

text \<open>The fact with the group and resource it is about; \<open>None\<close> when the event names no author or no object.\<close>

definition AuthorFactFromEvent :: "ingest_env \<Rightarrow> audit_event \<Rightarrow> int \<Rightarrow> (AuthorFact \<times> string \<times> string) option" where
  "AuthorFactFromEvent env event uidCap =
     (case ae_ObjectRef event of
        None \<Rightarrow> None
      | Some ref \<Rightarrow>
          if obr_Resource ref = [] then None
          else (let user = resolveUserInfo event;
                    collection = EqualFold (ae_Verb event) deleteCollectionVerb;
                    identity = IdentityFromAuditEvent env event (VerbToOperation (ae_Verb event))
                in if ui_Username user = [] then None
                   else if aid_Name identity = [] \<and> \<not> collection then None
                   else (let f = \<lparr> af_Namespace = aid_Namespace identity, af_UID = aid_UID identity, af_Name = aid_Name identity,
                                   af_Author = ui_Username user, af_DisplayName = ui_DisplayName user, af_Email = ui_Email user,
                                   af_Verb = ae_Verb event, af_AuditID = ae_AuditID event,
                                   af_ResourceVersion = resourceVersionFromEvent env event,
                                   af_StageTimestamp = (if time_IsZero (ae_StageTimestamp event) then []
                                                        else ie_format_time env (ae_StageTimestamp event)),
                                   af_LabelSelector = [], af_UIDs = [] \<rparr>
                         in Some (if collection then describeCollection env event uidCap f else f, obr_APIGroup ref, obr_Resource ref))))"

section \<open>Outcomes\<close>

datatype Category = Stored | Held | Dropped | Error

datatype Outcome =
    Queued
  | Parked
  | NotNeeded
  | NilEvent
  | Stage
  | ReadOnlyOrUnknownVerb
  | FailedRequest
  | DryRun
  | UnchangedResourceVersion
  | MalformedAdditional
  | NonScaleSubresource
  | ShallowDropped
  | RVLessEmptyHighWater
  | OlderThanHighWater
  | NonNumericRV
  | MissingClusterAnnotation
  | NoAttributionFact
  | WriteError

definition outcome_Category :: "Outcome \<Rightarrow> Category" where
  "outcome_Category oc =
     (if oc = Queued then Stored else if oc = Parked then Held else if oc = WriteError then Error else Dropped)"

section \<open>The accept gate\<close>

definition isFailedAuditRequest :: "audit_event \<Rightarrow> bool" where
  "isFailedAuditRequest event = (case ae_ResponseCode event of None \<Rightarrow> False | Some code \<Rightarrow> code \<ge> 300)"

definition isDryRunAllRequest :: "audit_event \<Rightarrow> bool" where
  "isDryRunAllRequest event =
     (if ae_RequestURI event = [] then False
      else case url_query (ae_RequestURI event) of None \<Rightarrow> False | Some q \<Rightarrow> (''dryRun'', ''All'') \<in> set q)"

definition hasUnchangedResourceVersion :: "ingest_env \<Rightarrow> audit_event \<Rightarrow> bool" where
  "hasUnchangedResourceVersion env event =
     (let responseRV = metadataResourceVersion env (ae_ResponseObject event);
          requestRV = metadataResourceVersion env (ae_RequestObject event)
      in responseRV \<noteq> [] \<and> requestRV \<noteq> [] \<and> requestRV = responseRV)"

definition shouldForwardSubresource :: "audit_event \<Rightarrow> bool" where
  "shouldForwardSubresource event =
     (case ae_ObjectRef event of
        None \<Rightarrow> True
      | Some ref \<Rightarrow>
          if obr_Subresource ref = [] then True
          else if VerbToOperation (ae_Verb event) = None then False
          else obr_Subresource ref = ''scale'')"

definition StageResponseComplete :: string where
  "StageResponseComplete = ''ResponseComplete''"

text \<open>\<open>None\<close> lets the event through, otherwise the reason it is dropped for.\<close>

definition classifyAuditIngress :: "ingest_env \<Rightarrow> audit_event \<Rightarrow> Outcome option" where
  "classifyAuditIngress env event =
     (if ae_Stage event \<noteq> StageResponseComplete then Some Stage
      else if VerbToOperation (ae_Verb event) = None then Some ReadOnlyOrUnknownVerb
      else if isFailedAuditRequest event then Some FailedRequest
      else if isDryRunAllRequest event then Some DryRun
      else if hasUnchangedResourceVersion env event then Some UnchangedResourceVersion
      else None)"

section \<open>The handler\<close>

type_synonym 'w fact_publisher = "FactStreamKey \<Rightarrow> AuthorFact list \<Rightarrow> 'w \<Rightarrow> bool \<times> 'w"

record 'w AuditHandlerConfig =
  ahc_MaxRequestBodyBytes :: int
  ahc_FactPublisher :: "'w fact_publisher option"
  ahc_CollectionUIDCap :: int
  ahc_AuditRouteAnnotationKey :: string

definition DefaultAuditMaxRequestBodyBytes :: int where
  "DefaultAuditMaxRequestBodyBytes = 10 * 1024 * 1024"

definition NewAuditHandler :: "'w AuditHandlerConfig \<Rightarrow> 'w AuditHandlerConfig" where
  "NewAuditHandler config =
     (if ahc_MaxRequestBodyBytes config \<le> 0
      then config\<lparr> ahc_MaxRequestBodyBytes := DefaultAuditMaxRequestBodyBytes \<rparr> else config)"

record auditRoute =
  art_route :: string
  art_annotationKey :: string

definition auditWebhookPrefix :: string where
  "auditWebhookPrefix = ''/audit-webhook/''"

definition TrimPrefix :: "string \<Rightarrow> string \<Rightarrow> string" where
  "TrimPrefix s p = (if prefix p s then drop (length p) s else s)"

definition validateAuditWebhookPath :: "string \<Rightarrow> bool" where
  "validateAuditWebhookPath path =
     (if path = ''/audit-webhook'' then True
      else if \<not> HasPrefix path auditWebhookPrefix then False
      else let segment = TrimPrefix path auditWebhookPrefix in segment \<noteq> [] \<and> CHR ''/'' \<notin> set segment)"

text \<open>\<open>None\<close> where the code answers false.\<close>

definition auditRouteForPath :: "string \<Rightarrow> string option" where
  "auditRouteForPath path =
     (let segment = TrimPrefix path auditWebhookPrefix in
      if segment = path \<or> segment = [] then None else Some segment)"

definition resolveRoute :: "'w AuditHandlerConfig \<Rightarrow> string \<Rightarrow> auditRoute option" where
  "resolveRoute config path =
     (case auditRouteForPath path of
        None \<Rightarrow>
          if ahc_AuditRouteAnnotationKey config = [] then None
          else Some \<lparr> art_route = [], art_annotationKey = ahc_AuditRouteAnnotationKey config \<rparr>
      | Some route \<Rightarrow> Some \<lparr> art_route = route, art_annotationKey = [] \<rparr>)"

definition resolveEventRoute :: "auditRoute \<Rightarrow> audit_event \<Rightarrow> string option" where
  "resolveEventRoute route event =
     (if art_annotationKey route = [] then Some (art_route route)
      else case map_get (ae_Annotations event) (art_annotationKey route) of
             None \<Rightarrow> None
           | Some name \<Rightarrow> if name = [] then None else Some name)"

text \<open>An accepted event, with the fact it produced when it produced one (the field \<open>ok\<close>).\<close>

record acceptedFact =
  acf_event :: audit_event
  acf_fact :: "(FactStreamKey \<times> AuthorFact) option"

definition FactStreamKeyFor :: "string \<Rightarrow> string \<Rightarrow> string \<Rightarrow> FactStreamKey" where
  "FactStreamKeyFor auditRoute grp resource = \<lparr> fk_AuditRoute = auditRoute, fk_Group = grp, fk_Resource = resource \<rparr>"

definition factForStream :: "ingest_env \<Rightarrow> 'w AuditHandlerConfig \<Rightarrow> string \<Rightarrow> audit_event \<Rightarrow> (FactStreamKey \<times> AuthorFact) option" where
  "factForStream env config auditRoute event =
     (if ahc_FactPublisher config = None then None
      else case AuthorFactFromEvent env event (ahc_CollectionUIDCap config) of
             None \<Rightarrow> None
           | Some (f, grp, resource) \<Rightarrow> Some (FactStreamKeyFor auditRoute grp resource, f))"

text \<open>\<open>Inl\<close> is the outcome a dropped event is recorded with at once, \<open>Inr\<close> an accepted event.\<close>

definition processEvent :: "ingest_env \<Rightarrow> 'w AuditHandlerConfig \<Rightarrow> auditRoute \<Rightarrow> audit_event \<Rightarrow> Outcome + acceptedFact" where
  "processEvent env config route event =
     (if \<not> shouldForwardSubresource event then Inl NonScaleSubresource
      else case classifyAuditIngress env event of
             Some reason \<Rightarrow> Inl reason
           | None \<Rightarrow>
               (case resolveEventRoute route event of
                  None \<Rightarrow> Inl MissingClusterAnnotation
                | Some eventRoute \<Rightarrow>
                    Inr \<lparr> acf_event = event, acf_fact = factForStream env config eventRoute event \<rparr>))"

record factStreamBatches =
  fsb_order :: "FactStreamKey list"
  fsb_facts :: "(FactStreamKey, AuthorFact list) gomap"

definition newFactStreamBatches :: factStreamBatches where
  "newFactStreamBatches = \<lparr> fsb_order = [], fsb_facts = [] \<rparr>"

definition batch_add :: "acceptedFact \<Rightarrow> factStreamBatches \<Rightarrow> factStreamBatches" where
  "batch_add accepted b =
     (case acf_fact accepted of
        None \<Rightarrow> b
      | Some (key, f) \<Rightarrow>
          (case map_get (fsb_facts b) key of
             None \<Rightarrow> \<lparr> fsb_order = fsb_order b @ [key], fsb_facts = map_put key [f] (fsb_facts b) \<rparr>
           | Some fs \<Rightarrow> b\<lparr> fsb_facts := map_put key (fs @ [f]) (fsb_facts b) \<rparr>))"

text \<open>The streams appended to, and whether all of them were.\<close>

fun publish_order ::
  "'w fact_publisher \<Rightarrow> (FactStreamKey, AuthorFact list) gomap \<Rightarrow> FactStreamKey list \<Rightarrow> 'w \<Rightarrow> FactStreamKey list \<times> bool \<times> 'w" where
  "publish_order pub facts [] w = ([], True, w)"
| "publish_order pub facts (key # keys) w =
     (case pub key (case map_get facts key of None \<Rightarrow> [] | Some fs \<Rightarrow> fs) w of
        (False, w') \<Rightarrow> ([], False, w')
      | (True, w') \<Rightarrow> (case publish_order pub facts keys w' of (appended, ok, w'') \<Rightarrow> (key # appended, ok, w'')))"

definition publishFactBatches ::
  "'w AuditHandlerConfig \<Rightarrow> factStreamBatches \<Rightarrow> 'w \<Rightarrow> FactStreamKey list \<times> bool \<times> 'w" where
  "publishFactBatches config b w =
     (case ahc_FactPublisher config of
        None \<Rightarrow> ([], True, w)
      | Some pub \<Rightarrow> publish_order pub (fsb_facts b) (fsb_order b) w)"

definition acceptedOutcome :: "FactStreamKey list \<Rightarrow> acceptedFact \<Rightarrow> Outcome" where
  "acceptedOutcome appended accepted =
     (case acf_fact accepted of
        None \<Rightarrow> NoAttributionFact
      | Some (key, _) \<Rightarrow> if key \<in> set appended then Queued else WriteError)"

text \<open>Whether the request succeeded, the outcomes in the order they are recorded, and the transport after it.\<close>

definition processEvents ::
  "ingest_env \<Rightarrow> 'w AuditHandlerConfig \<Rightarrow> auditRoute \<Rightarrow> audit_event list \<Rightarrow> 'w
    \<Rightarrow> bool \<times> (audit_event \<times> Outcome) list \<times> 'w" where
  "processEvents env config route events w =
     (let results = map (\<lambda>e. (e, processEvent env config route e)) events;
          dropped = concat (map (\<lambda>(e, x). case x of Inl oc \<Rightarrow> [(e, oc)] | Inr _ \<Rightarrow> []) results);
          accepted = concat (map (\<lambda>(e, x). case x of Inl _ \<Rightarrow> [] | Inr a \<Rightarrow> [a]) results);
          batches = fold batch_add accepted newFactStreamBatches;
          (appended, ok, w') = publishFactBatches config batches w
      in (ok, dropped @ map (\<lambda>a. (acf_event a, acceptedOutcome appended a)) accepted, w'))"

record http_request =
  hr_Method :: string
  hr_Path :: string
  hr_Body :: string

text \<open>
  The decoder of the API server's event lists is an argument. The answer is the status code, the outcomes
  recorded, and the transport.
\<close>

definition ServeHTTP ::
  "ingest_env \<Rightarrow> (string \<Rightarrow> audit_event list option) \<Rightarrow> 'w AuditHandlerConfig \<Rightarrow> http_request \<Rightarrow> 'w
    \<Rightarrow> int \<times> (audit_event \<times> Outcome) list \<times> 'w" where
  "ServeHTTP env decode config req w =
     (if hr_Method req \<noteq> ''POST'' then (405, [], w)
      else if \<not> validateAuditWebhookPath (hr_Path req) then (400, [], w)
      else case resolveRoute config (hr_Path req) of
             None \<Rightarrow> (400, [], w)
           | Some route \<Rightarrow>
               if int (length (hr_Body req)) > ahc_MaxRequestBodyBytes config then (400, [], w)
               else (case decode (hr_Body req) of
                       None \<Rightarrow> (400, [], w)
                     | Some events \<Rightarrow>
                         if events = [] then (200, [], w)
                         else (case processEvents env config route events w of
                                 (ok, outcomes, w') \<Rightarrow> (if ok then 200 else 500, outcomes, w'))))"

section \<open>What a request appends\<close>

text \<open>The facts a list of events produces, with their streams, in the order the events arrived.\<close>

definition produced :: "ingest_env \<Rightarrow> 'w AuditHandlerConfig \<Rightarrow> auditRoute \<Rightarrow> audit_event list \<Rightarrow> (FactStreamKey \<times> AuthorFact) list" where
  "produced env config route events =
     concat (map (\<lambda>e. case processEvent env config route e of
                        Inl _ \<Rightarrow> []
                      | Inr a \<Rightarrow> (case acf_fact a of None \<Rightarrow> [] | Some kf \<Rightarrow> [kf])) events)"

definition facts_for :: "FactStreamKey \<Rightarrow> (FactStreamKey \<times> AuthorFact) list \<Rightarrow> AuthorFact list" where
  "facts_for key kfs = map snd (filter (\<lambda>(k, _). k = key) kfs)"

text \<open>The keys in the order they first appear.\<close>

definition key_order :: "(FactStreamKey \<times> AuthorFact) list \<Rightarrow> FactStreamKey list" where
  "key_order kfs = rev (remdups (rev (map fst kfs)))"

definition accepted_of :: "ingest_env \<Rightarrow> 'w AuditHandlerConfig \<Rightarrow> auditRoute \<Rightarrow> audit_event list \<Rightarrow> acceptedFact list" where
  "accepted_of env config route events =
     concat (map (\<lambda>e. case processEvent env config route e of Inl _ \<Rightarrow> [] | Inr a \<Rightarrow> [a]) events)"

definition kf_add :: "FactStreamKey \<times> AuthorFact \<Rightarrow> factStreamBatches \<Rightarrow> factStreamBatches" where
  "kf_add kf b = (case map_get (fsb_facts b) (fst kf) of
       None \<Rightarrow> \<lparr> fsb_order = fsb_order b @ [fst kf], fsb_facts = map_put (fst kf) [snd kf] (fsb_facts b) \<rparr>
     | Some fs \<Rightarrow> b\<lparr> fsb_facts := map_put (fst kf) (fs @ [snd kf]) (fsb_facts b) \<rparr>)"

lemma fold_batch_add:
  "fold batch_add (accepted_of env config route events) b = fold kf_add (produced env config route events) b"
proof (induction events arbitrary: b)
  case (Cons e events)
  have "fold batch_add (accepted_of env config route (e # events)) b
      = fold batch_add (accepted_of env config route events) (fold batch_add (accepted_of env config route [e]) b)"
    by (simp add: accepted_of_def)
  also have "fold batch_add (accepted_of env config route [e]) b = fold kf_add (produced env config route [e]) b"
    by (auto simp: accepted_of_def produced_def batch_add_def kf_add_def split: sum.split option.split)
  finally show ?case using Cons by (simp add: produced_def)
qed (simp add: accepted_of_def produced_def)

lemma kf_batches:
  "fsb_order (fold kf_add kfs newFactStreamBatches) = key_order kfs
   \<and> (\<forall>key. map_get (fsb_facts (fold kf_add kfs newFactStreamBatches)) key =
        (if key \<in> fst ` set kfs then Some (facts_for key kfs) else None))"
proof (induction kfs rule: rev_induct)
  case (snoc kf kfs)
  obtain k f where kf: "kf = (k, f)" by (cases kf)
  have empty: "facts_for k kfs = []" if "k \<notin> fst ` set kfs"
    using that by (force simp: facts_for_def filter_empty_conv)
  show ?case
    using snoc empty by (auto simp: kf kf_add_def key_order_def facts_for_def al.lookup_put split: option.split if_splits)
qed (simp add: newFactStreamBatches_def key_order_def)

lemma key_order_simps: "set (key_order kfs) = fst ` set kfs" "distinct (key_order kfs)"
  by (auto simp: key_order_def)

text \<open>A publisher that keeps a log of the appends that succeeded.\<close>

definition logging :: "'w fact_publisher \<Rightarrow> ('w \<times> (FactStreamKey \<times> AuthorFact list) list) fact_publisher" where
  "logging pub key facts st =
     (case pub key facts (fst st) of
        (True, w') \<Rightarrow> (True, (w', snd st @ [(key, facts)]))
      | (False, w') \<Rightarrow> (False, (w', snd st)))"

lemma publish_order_log:
  assumes "publish_order (logging pub) facts keys (w, log) = (appended, ok, (w', log'))"
  shows "log' = log @ map (\<lambda>k. (k, case map_get facts k of None \<Rightarrow> [] | Some fs \<Rightarrow> fs)) appended \<and> prefix appended keys
     \<and> (ok \<longleftrightarrow> appended = keys)"
  using assms
proof (induction keys arbitrary: w log appended)
  case (Cons k keys)
  obtain b w1 where p: "pub k (case map_get facts k of None \<Rightarrow> [] | Some fs \<Rightarrow> fs) w = (b, w1)" by (metis surj_pair)
  show ?case
  proof (cases b)
    case False
    have "logging pub k (case map_get facts k of None \<Rightarrow> [] | Some fs \<Rightarrow> fs) (w, log) = (False, (w1, log))"
      using p False by (simp add: logging_def)
    with Cons.prems show ?thesis by auto
  next
    case True
    let ?log = "log @ [(k, case map_get facts k of None \<Rightarrow> [] | Some fs \<Rightarrow> fs)]"
    obtain app ok' s where r: "publish_order (logging pub) facts keys (w1, ?log) = (app, ok', s)" by (metis surj_pair)
    have "logging pub k (case map_get facts k of None \<Rightarrow> [] | Some fs \<Rightarrow> fs) (w, log) = (True, (w1, ?log))"
      using p True by (simp add: logging_def)
    with Cons.prems r have "appended = k # app" "ok' = ok" "s = (w', log')" by auto
    with Cons.IH [of w1 ?log app] r show ?thesis by simp
  qed
qed auto

lemma outcomes_once:
  "mset (map fst (concat (map (\<lambda>e. case x e of Inl oc \<Rightarrow> [(e, oc)] | Inr _ \<Rightarrow> []) es)))
     + mset (concat (map (\<lambda>e. case x e of Inl _ \<Rightarrow> [] | Inr a \<Rightarrow> [e]) es)) = mset es"
  by (induction es) (auto split: sum.split)

lemma processEvent_event: "processEvent env config route e = Inr a \<Longrightarrow> acf_event a = e"
  by (auto simp: processEvent_def split: if_splits option.splits)

definition outcome_of :: "FactStreamKey list \<Rightarrow> Outcome + acceptedFact \<Rightarrow> Outcome" where
  "outcome_of landed x = (case x of Inl oc \<Rightarrow> oc | Inr a \<Rightarrow> acceptedOutcome landed a)"

lemma processEvents_form:
  assumes "ahc_FactPublisher config = Some pub"
    and "publish_order pub (fsb_facts (fold kf_add (produced env config route events) newFactStreamBatches))
      (key_order (produced env config route events)) w = (appended, ok, w')"
  shows "fst (processEvents env config route events w) = ok" and "snd (snd (processEvents env config route events w)) = w'"
    and "mset (map fst (fst (snd (processEvents env config route events w)))) = mset events"
    and "(e, oc) \<in> set (fst (snd (processEvents env config route events w))) \<Longrightarrow>
      oc = outcome_of appended (processEvent env config route e)"
proof -
  let ?x = "processEvent env config route"
  have form: "processEvents env config route events w =
      (ok, concat (map (\<lambda>e. case ?x e of Inl oc \<Rightarrow> [(e, oc)] | Inr _ \<Rightarrow> []) events)
         @ map (\<lambda>a. (acf_event a, acceptedOutcome appended a)) (accepted_of env config route events), w')"
    using assms kf_batches [of "produced env config route events"]
    by (simp add: processEvents_def Let_def comp_def accepted_of_def [symmetric] publishFactBatches_def fold_batch_add)
  then show "fst (processEvents env config route events w) = ok" "snd (snd (processEvents env config route events w)) = w'"
    by simp_all
  have "map acf_event (accepted_of env config route events) = concat (map (\<lambda>e. case ?x e of Inl _ \<Rightarrow> [] | Inr a \<Rightarrow> [e]) events)"
    by (induction events) (auto simp: accepted_of_def split: sum.split dest: processEvent_event)
  then show "mset (map fst (fst (snd (processEvents env config route events w)))) = mset events"
    using outcomes_once [of ?x events] by (simp add: form comp_def)
  show "oc = outcome_of appended (?x e)" if "(e, oc) \<in> set (fst (snd (processEvents env config route events w)))"
    using that by (auto simp: form outcome_of_def accepted_of_def split: sum.splits)
      (metis processEvent_event Inl_Inr_False Inr_inject)+
qed

text \<open>
  C13: what one audit request does. Every event of the request is recorded with exactly one outcome. The appends
  are one per stream, in the order the streams first appear, each with exactly the facts the events produced
  for that stream in the order they arrived. When an append fails, those before it stand and none follows, the
  request is answered as failed, and an event is recorded as queued exactly when the append of its own stream
  succeeded; an accepted event without a fact is neither queued nor an error.
\<close>

theorem ingest_exact:
  assumes "ahc_FactPublisher config = Some (logging pub)"
    and "processEvents env config route events (w, []) = (ok, outcomes, (w', log))"
  shows "mset (map fst outcomes) = mset events
     \<and> (\<exists>landed. prefix landed (key_order (produced env config route events))
          \<and> log = map (\<lambda>k. (k, facts_for k (produced env config route events))) landed
          \<and> (ok \<longleftrightarrow> landed = key_order (produced env config route events)))
     \<and> (\<forall>(e, oc) \<in> set outcomes.
          case processEvent env config route e of
            Inl reason \<Rightarrow> oc = reason
          | Inr a \<Rightarrow> (case acf_fact a of
              None \<Rightarrow> oc = NoAttributionFact
            | Some (k, f) \<Rightarrow> oc = (if k \<in> fst ` set log then Queued else WriteError)))"
proof -
  let ?kfs = "produced env config route events"
  let ?b = "fold kf_add ?kfs newFactStreamBatches"
  obtain appended ok' s where p: "publish_order (logging pub) (fsb_facts ?b) (key_order ?kfs) (w, []) = (appended, ok', s)"
    by (metis surj_pair)
  note form = processEvents_form [OF assms(1) p, unfolded assms(2), simplified]
  then have p': "publish_order (logging pub) (fsb_facts ?b) (key_order ?kfs) (w, []) = (appended, ok, (w', log))" using p by simp
  from publish_order_log [OF this]
  have log: "log = map (\<lambda>k. (k, case map_get (fsb_facts ?b) k of None \<Rightarrow> [] | Some fs \<Rightarrow> fs)) appended"
      and pre: "prefix appended (key_order ?kfs)" and ok: "ok \<longleftrightarrow> appended = key_order ?kfs" by auto
  have "map_get (fsb_facts ?b) k = Some (facts_for k ?kfs)" if "k \<in> set appended" for k
    using that set_mono_prefix [OF pre] kf_batches [of ?kfs] key_order_simps(1) [of ?kfs] by auto
  then have log: "log = map (\<lambda>k. (k, facts_for k ?kfs)) appended" unfolding log by simp
  then have keys: "fst ` set log = set appended" by force
  have "case processEvent env config route e of
            Inl reason \<Rightarrow> oc = reason
          | Inr a \<Rightarrow> (case acf_fact a of
              None \<Rightarrow> oc = NoAttributionFact
            | Some (k, f) \<Rightarrow> oc = (if k \<in> fst ` set log then Queued else WriteError))" if "(e, oc) \<in> set outcomes" for e oc
    using form(4) [OF that] by (simp add: keys outcome_of_def acceptedOutcome_def split: sum.split option.split)
  moreover have "mset (map fst outcomes) = mset events" using form(3) by simp
  ultimately show ?thesis using log pre ok unfolding Ball_def split_paired_All prod.case by blast
qed

definition effective_user :: "audit_event \<Rightarrow> string" where
  "effective_user event =
     (case ae_ImpersonatedUser event of
        None \<Rightarrow> au_Username (ae_User event)
      | Some u \<Rightarrow> if au_Username u \<noteq> [] then au_Username u else au_Username (ae_User event))"

text \<open>
  The events that may speak for an author: a mutation the API server completed, not refused and not a dry run,
  of an object or of its scale, by a named user.
\<close>

definition real_mutation :: "audit_event \<Rightarrow> bool" where
  "real_mutation event \<longleftrightarrow> ae_Stage event = ''ResponseComplete'' \<and> VerbToOperation (ae_Verb event) \<noteq> None
     \<and> (\<forall>code. ae_ResponseCode event = Some code \<longrightarrow> code < 300) \<and> \<not> isDryRunAllRequest event
     \<and> effective_user event \<noteq> []
     \<and> (\<exists>ref. ae_ObjectRef event = Some ref \<and> obr_Resource ref \<noteq> [] \<and> obr_Subresource ref \<in> {[], ''scale''})"

definition event_route :: "auditRoute \<Rightarrow> audit_event \<Rightarrow> string" where
  "event_route route event =
     (if art_annotationKey route = [] then art_route route
      else case map_get (ae_Annotations event) (art_annotationKey route) of None \<Rightarrow> [] | Some name \<Rightarrow> name)"

lemma resolveUserInfo_name: "ui_Username (resolveUserInfo event) = effective_user event"
  by (simp add: resolveUserInfo_def effective_user_def no_user_def Let_def split: option.split)

lemma AuthorFactFromEvent_Some:
  assumes "AuthorFactFromEvent env event cap = Some (f, grp, resource)"
  shows "\<exists>ref. ae_ObjectRef event = Some ref \<and> obr_Resource ref \<noteq> [] \<and> grp = obr_APIGroup ref \<and> resource = obr_Resource ref"
    and "af_Author f = effective_user event" "af_Author f \<noteq> []" "af_Verb f = ae_Verb event" "af_AuditID f = ae_AuditID event"
  using assms
  by (auto simp: AuthorFactFromEvent_def Let_def describeCollection_def resolveUserInfo_name split: option.splits if_splits)

lemma processEvent_fact:
  assumes "processEvent env config route event = Inr a" and "acf_fact a = Some (key, f)"
  shows "real_mutation event \<and> af_Author f = effective_user event \<and> af_Verb f = ae_Verb event
     \<and> fk_AuditRoute key = event_route route event
     \<and> (\<exists>ref. ae_ObjectRef event = Some ref \<and> fk_Group key = obr_APIGroup ref \<and> fk_Resource key = obr_Resource ref)"
proof -
  obtain route' grp resource where r: "resolveEventRoute route event = Some route'"
      and af: "AuthorFactFromEvent env event (ahc_CollectionUIDCap config) = Some (f, grp, resource)"
      and key: "key = FactStreamKeyFor route' grp resource"
      and gate: "shouldForwardSubresource event" "classifyAuditIngress env event = None"
    using assms by (auto simp: processEvent_def factForStream_def split: if_splits option.splits)
  note f = AuthorFactFromEvent_Some [OF af]
  obtain ref where ref: "ae_ObjectRef event = Some ref" "obr_Resource ref \<noteq> []" "grp = obr_APIGroup ref" "resource = obr_Resource ref"
    using f(1) by blast
  have "ae_Stage event = ''ResponseComplete''" "VerbToOperation (ae_Verb event) \<noteq> None" "\<not> isFailedAuditRequest event"
      "\<not> isDryRunAllRequest event"
    using gate(2) by (auto simp: classifyAuditIngress_def StageResponseComplete_def split: if_splits)
  moreover have "obr_Subresource ref \<in> {[], ''scale''}"
    using gate(1) ref(1) by (auto simp: shouldForwardSubresource_def split: if_splits)
  moreover have "\<forall>code. ae_ResponseCode event = Some code \<longrightarrow> code < 300"
    using calculation(3) by (auto simp: isFailedAuditRequest_def)
  ultimately have "real_mutation event" using f(2,3) ref by (auto simp: real_mutation_def)
  moreover have "fk_AuditRoute key = event_route route event"
    using r by (auto simp: key FactStreamKeyFor_def resolveEventRoute_def event_route_def split: if_splits option.splits)
  ultimately show ?thesis using f(2,4) ref by (auto simp: key FactStreamKeyFor_def)
qed

section \<open>A request\<close>

text \<open>
  A batch of three events: a patch of a config map, a read of it, and a patch of a secret. The stream of
  the secrets refuses the append.
\<close>

definition ex_audit :: "string \<Rightarrow> string \<Rightarrow> string \<Rightarrow> audit_event" where
  "ex_audit verb resource user =
     \<lparr> ae_Stage = ''ResponseComplete'', ae_AuditID = ''a1'', ae_RequestURI = ''/api/v1/namespaces/shop/x?fieldManager=kubectl'',
       ae_Verb = verb, ae_User = \<lparr> au_Username = user, au_Extra = [] \<rparr>, ae_ImpersonatedUser = None,
       ae_ObjectRef = Some \<lparr> obr_Resource = resource, obr_Namespace = ''shop'', obr_Name = ''cart'', obr_UID = ''u1'',
         obr_APIGroup = [], obr_APIVersion = ''v1'', obr_ResourceVersion = ''12'', obr_Subresource = [] \<rparr>,
       ae_ResponseCode = Some 200, ae_RequestObject = None, ae_ResponseObject = None, ae_StageTimestamp = 0,
       ae_Annotations = [] \<rparr>"

definition ex_audit_events :: "audit_event list" where
  "ex_audit_events = [ex_audit ''patch'' ''configmaps'' ''alice'', ex_audit ''get'' ''configmaps'' ''bob'', ex_audit ''patch'' ''secrets'' ''alice'']"

definition ex_ingest_env :: ingest_env where
  "ex_ingest_env = \<lparr> ie_parse_json = (\<lambda>_. None), ie_format_time = (\<lambda>_. []) \<rparr>"

definition ex_publisher :: "unit fact_publisher" where
  "ex_publisher key facts w = (fk_Resource key \<noteq> ''secrets'', w)"

definition ex_handler :: "(unit \<times> (FactStreamKey \<times> AuthorFact list) list) AuditHandlerConfig" where
  "ex_handler = \<lparr> ahc_MaxRequestBodyBytes = 1000, ahc_FactPublisher = Some (logging ex_publisher), ahc_CollectionUIDCap = 0,
     ahc_AuditRouteAnnotationKey = [] \<rparr>"

definition ex_route :: auditRoute where
  "ex_route = \<lparr> art_route = ''prod'', art_annotationKey = [] \<rparr>"

lemma ex_ingest:
  "(\<lambda>(ok, outcomes, _, log). (ok, map snd outcomes, map (\<lambda>(k, fs). (fk_Resource k, map af_Author fs)) log))
     (processEvents ex_ingest_env ex_handler ex_route ex_audit_events ((), []))
   = (False, [ReadOnlyOrUnknownVerb, Queued, WriteError], [(''configmaps'', [''alice''])])"
  by code_simp

theorem ingest_exact_witness:
  "case processEvents ex_ingest_env ex_handler ex_route ex_audit_events ((), []) of (ok, outcomes, _, log) \<Rightarrow>
     map snd outcomes = [ReadOnlyOrUnknownVerb, Queued, WriteError] \<and> mset (map fst outcomes) = mset ex_audit_events
     \<and> length log = 1 \<and> log \<noteq> map (\<lambda>k. (k, facts_for k (produced ex_ingest_env ex_handler ex_route ex_audit_events)))
         (key_order (produced ex_ingest_env ex_handler ex_route ex_audit_events))"
proof -
  obtain ok outcomes u log where r: "processEvents ex_ingest_env ex_handler ex_route ex_audit_events ((), []) = (ok, outcomes, (u, log))"
    by (metis surj_pair)
  have "ahc_FactPublisher ex_handler = Some (logging ex_publisher)" by (simp add: ex_handler_def)
  from ingest_exact [OF this r] obtain landed where
      once: "mset (map fst outcomes) = mset ex_audit_events"
      and log: "log = map (\<lambda>k. (k, facts_for k (produced ex_ingest_env ex_handler ex_route ex_audit_events))) landed"
        "ok \<longleftrightarrow> landed = key_order (produced ex_ingest_env ex_handler ex_route ex_audit_events)" by blast
  have e: "\<not> ok" "map snd outcomes = [ReadOnlyOrUnknownVerb, Queued, WriteError]" "length log = 1"
    using ex_ingest by (auto simp: r)
  have "map fst log = landed" by (simp add: log(1) comp_def)
  then have "log \<noteq> map (\<lambda>k. (k, facts_for k (produced ex_ingest_env ex_handler ex_route ex_audit_events)))
      (key_order (produced ex_ingest_env ex_handler ex_route ex_audit_events))"
    using log(2) e(1) by (auto simp: comp_def)
  then show ?thesis using once e by (simp add: r)
qed

end
