(* ===== verification/Author_Attribution.thy ===== *)
theory Author_Attribution
  imports Audit_Ingest
begin

text \<open>
  The read side of attribution (\<open>internal/watch/author_resolver.go\<close>) and the whole path composed: the audit
  webhook appends facts to the in-process transport, the index follows the transport, and the resolver
  names the author of a watch event. The composed property is that nobody is named who did not act.
\<close>

section \<open>The resolver\<close>

record AuthorQuery =
  aq_AuditRoute :: string
  aq_Group :: string
  aq_Version :: string
  aq_Resource :: string
  aq_UID :: string
  aq_ResourceVersion :: string
  aq_Namespace :: string
  aq_Labels :: labels
  aq_Name :: string
  aq_ExactCapable :: bool

definition factQuery :: "AuthorQuery \<Rightarrow> FactQuery" where
  "factQuery q =
     \<lparr> fq_AuditRoute = aq_AuditRoute q, fq_Group = aq_Group q, fq_Resource = aq_Resource q, fq_UID = aq_UID q,
       fq_ResourceVersion = aq_ResourceVersion q, fq_Namespace = aq_Namespace q, fq_Labels = aq_Labels q, fq_Name = aq_Name q,
       fq_ExactCapable = aq_ExactCapable q \<rparr>"

definition attributionUnresolvedWarnThreshold :: nat where
  "attributionUnresolvedWarnThreshold = 5"

record routeAttributionHealth =
  rah_resolved :: "(string, bool) gomap"
  rah_absent :: "(string, nat) gomap"
  rah_warned :: "(string, bool) gomap"

definition health0 :: routeAttributionHealth where
  "health0 = \<lparr> rah_resolved = [], rah_absent = [], rah_warned = [] \<rparr>"

definition flag :: "(string, bool) gomap \<Rightarrow> string \<Rightarrow> bool" where
  "flag m k = (case map_get m k of None \<Rightarrow> False | Some b \<Rightarrow> b)"

definition streak_of :: "(string, nat) gomap \<Rightarrow> string \<Rightarrow> nat" where
  "streak_of m k = (case map_get m k of None \<Rightarrow> 0 | Some n \<Rightarrow> n)"

definition observe :: "string \<Rightarrow> bool \<Rightarrow> routeAttributionHealth \<Rightarrow> (bool \<times> nat) \<times> routeAttributionHealth" where
  "observe route is_resolved h =
     (if is_resolved then
        ((False, 0), h\<lparr> rah_resolved := map_put route True (rah_resolved h), rah_absent := map_del route (rah_absent h) \<rparr>)
      else
        (let streak = streak_of (rah_absent h) route + 1;
             h = h\<lparr> rah_absent := map_put route streak (rah_absent h) \<rparr>
         in if flag (rah_resolved h) route \<or> flag (rah_warned h) route \<or> streak < attributionUnresolvedWarnThreshold
            then ((False, streak), h)
            else ((True, streak), h\<lparr> rah_warned := map_put route True (rah_warned h) \<rparr>)))"

definition userInfoForResolution :: "AuthorResolution \<Rightarrow> UserInfo \<times> AttributionOutcome \<times> AttributionResult" where
  "userInfoForResolution r =
     (let f = ar_Fact r in
      if af_Author f = [] then (no_user, AttributionUnresolved, ar_Result r)
      else (no_user\<lparr> ui_Username := af_Author f, ui_DisplayName := af_DisplayName f, ui_Email := af_Email f \<rparr>,
            AttributionResolved, ar_Result r))"

text \<open>
  The lookup is the index waiting for the query, or absent; the answer has whether the warning about the route is
  logged, and the health of the routes.
\<close>

definition ResolveAuthor ::
  "(FactQuery \<Rightarrow> duration \<Rightarrow> AuthorResolution) option \<Rightarrow> duration \<Rightarrow> AuthorQuery \<Rightarrow> routeAttributionHealth
    \<Rightarrow> (UserInfo \<times> AttributionOutcome) \<times> bool \<times> routeAttributionHealth" where
  "ResolveAuthor lookup grace query h =
     (case lookup of
        None \<Rightarrow> ((no_user, AttributionNotAttempted), False, h)
      | Some await \<Rightarrow>
          (let r = await (factQuery query) grace in
           if ar_Result r \<noteq> AttributionAbsent then
             (case userInfoForResolution r of
                (ui, oc, _) \<Rightarrow> ((ui, oc), False, snd (observe (aq_AuditRoute query) (oc = AttributionResolved) h)))
           else
             (case observe (aq_AuditRoute query) False h of
                ((warn, _), h) \<Rightarrow> ((no_user, AttributionUnresolved), warn, h))))"

section \<open>The warning about a silent route\<close>

fun observe_all :: "(string \<times> bool) list \<Rightarrow> routeAttributionHealth \<Rightarrow> bool list \<times> routeAttributionHealth" where
  "observe_all [] h = ([], h)"
| "observe_all ((route, is_resolved) # obs) h =
     (case observe route is_resolved h of
        ((warn, _), h) \<Rightarrow> (case observe_all obs h of (ws, h) \<Rightarrow> (warn # ws, h)))"

definition on_route :: "string \<Rightarrow> (string \<times> bool) list \<Rightarrow> bool list" where
  "on_route route obs = map snd (filter (\<lambda>(r, _). r = route) obs)"

definition health_inv :: "(string \<times> bool) list \<Rightarrow> routeAttributionHealth \<Rightarrow> bool" where
  "health_inv obs h \<longleftrightarrow> (\<forall>route.
     flag (rah_resolved h) route = (True \<in> set (on_route route obs))
     \<and> (True \<notin> set (on_route route obs) \<longrightarrow>
          streak_of (rah_absent h) route = length (on_route route obs)
          \<and> flag (rah_warned h) route = (length (on_route route obs) \<ge> attributionUnresolvedWarnThreshold)))"

lemma flag_put: "flag (map_put k b m) k' = (if k' = k then b else flag m k')"
  by (simp add: flag_def al.lookup_put)

lemma streak_put: "streak_of (map_put k n m) k' = (if k' = k then n else streak_of m k')"
  "streak_of (map_del k m) k' = (if k' = k then 0 else streak_of m k')"
  by (simp_all add: streak_of_def al.lookup_put al.lookup_del)

lemma on_route_snoc: "on_route route (obs @ [(r, b)]) = on_route route obs @ (if r = route then [b] else [])"
  by (simp add: on_route_def)

lemma observe_inv:
  assumes "health_inv obs h" and "observe route is_resolved h = ((warn, n), h')"
  shows "health_inv (obs @ [(route, is_resolved)]) h'"
    and "warn \<longleftrightarrow> on_route route (obs @ [(route, is_resolved)]) = replicate attributionUnresolvedWarnThreshold False"
proof -
  have inv: "flag (rah_resolved h) r = (True \<in> set (on_route r obs))"
      "True \<notin> set (on_route r obs) \<Longrightarrow> streak_of (rah_absent h) r = length (on_route r obs)
        \<and> flag (rah_warned h) r = (length (on_route r obs) \<ge> attributionUnresolvedWarnThreshold)" for r
    using assms(1) unfolding health_inv_def by blast+
  have step: "flag (rah_resolved h') r = (True \<in> set (on_route r (obs @ [(route, is_resolved)])))
      \<and> (True \<notin> set (on_route r (obs @ [(route, is_resolved)])) \<longrightarrow>
          streak_of (rah_absent h') r = length (on_route r (obs @ [(route, is_resolved)]))
          \<and> flag (rah_warned h') r = (length (on_route r (obs @ [(route, is_resolved)])) \<ge> attributionUnresolvedWarnThreshold))" for r
  proof (cases "r = route")
    case True
    then show ?thesis using assms(2) inv [of route]
      by (cases is_resolved; cases "True \<in> set (on_route route obs)")
        (auto simp: observe_def Let_def flag_put streak_put on_route_snoc split: if_splits)
  next
    case False
    then show ?thesis using assms(2) inv [of r]
      by (auto simp: observe_def Let_def flag_put streak_put on_route_snoc split: if_splits)
  qed
  then show "health_inv (obs @ [(route, is_resolved)]) h'" unfolding health_inv_def by blast
  have all_False: "True \<notin> set bs \<longleftrightarrow> bs = replicate (length bs) False" for bs
    by (induction bs) auto
  show "warn \<longleftrightarrow> on_route route (obs @ [(route, is_resolved)]) = replicate attributionUnresolvedWarnThreshold False"
  proof (cases "True \<in> set (on_route route (obs @ [(route, is_resolved)]))")
    case True
    then have "on_route route (obs @ [(route, is_resolved)]) \<noteq> replicate attributionUnresolvedWarnThreshold False"
      by (metis in_set_replicate)
    moreover have "\<not> warn" using assms(2) inv(1) [of route] True
      by (auto simp: observe_def Let_def on_route_snoc split: if_splits)
    ultimately show ?thesis by blast
  next
    case False
    then have "\<not> is_resolved" "True \<notin> set (on_route route obs)" by (auto simp: on_route_snoc)
    moreover have "on_route route (obs @ [(route, is_resolved)]) = replicate attributionUnresolvedWarnThreshold False \<longleftrightarrow>
        Suc (length (on_route route obs)) = attributionUnresolvedWarnThreshold"
    proof -
      have "length (on_route route (obs @ [(route, is_resolved)])) = Suc (length (on_route route obs))" by (simp add: on_route_snoc)
      with iffD1 [OF all_False False]
      have "on_route route (obs @ [(route, is_resolved)]) = replicate (Suc (length (on_route route obs))) False" by simp
      then show ?thesis by (simp only: replicate_eq_replicate) simp
    qed
    ultimately show ?thesis using assms(2) inv [of route]
      by (auto simp: observe_def Let_def split: if_splits)
  qed
qed

lemma observe_all_warns:
  assumes "health_inv before h" and "n < length obs"
  shows "fst (observe_all obs h) ! n \<longleftrightarrow>
     on_route (fst (obs ! n)) (before @ take (Suc n) obs) = replicate attributionUnresolvedWarnThreshold False"
  using assms
proof (induction obs arbitrary: before h n)
  case (Cons ob obs)
  obtain route b where ob: "ob = (route, b)" by (cases ob)
  obtain warn k h' where o: "observe route b h = ((warn, k), h')" by (metis surj_pair)
  note step = observe_inv [OF Cons.prems(1) o]
  obtain ws h'' where r: "observe_all obs h' = (ws, h'')" by (metis surj_pair)
  show ?case
  proof (cases n)
    case 0
    then show ?thesis using step(2) by (simp add: ob o r)
  next
    case (Suc m)
    then show ?thesis using Cons.IH [OF step(1), of m] Cons.prems(2) by (simp add: ob o r)
  qed
qed simp

text \<open>
  C18: the warning about a route nobody writes to is logged exactly once, at its fifth event, and only when none
  of the five was attributed: the observation of a resolution warns exactly when it is the fifth on its audit
  route since the process started and all five were unresolved, whatever happened on other routes in between.
\<close>

theorem silent_route_warned_once:
  "list_all (\<lambda>n. fst (observe_all obs health0) ! n =
     (on_route (fst (obs ! n)) (take (Suc n) obs) = [False, False, False, False, False])) [0..<length obs]"
proof -
  have "health_inv [] health0"
    by (simp add: health_inv_def health0_def flag_def streak_of_def on_route_def attributionUnresolvedWarnThreshold_def)
  then show ?thesis
    using observe_all_warns [of "[]" health0 _ obs]
    by (auto simp: list_all_iff attributionUnresolvedWarnThreshold_def numeral_eq_Suc)
qed

section \<open>The whole path\<close>

text \<open>
  The process with the in-process transport: requests are served, the followed set changes, and the index
  reads what the transport holds. Each step carries the clock readings of the code it runs.
\<close>

record attribution =
  at_stream :: MemoryFactStream
  at_follow :: followSet
  at_run :: run_state

datatype attribution_op =
    Serve bool gotime http_request
  | SetStreams gotime "FactStreamKey list"
  | Follow gotime gotime

definition memory_config :: "MemoryFactStream AuditHandlerConfig \<Rightarrow> bool \<Rightarrow> gotime \<Rightarrow> MemoryFactStream AuditHandlerConfig" where
  "memory_config config cancelled now = config\<lparr> ahc_FactPublisher := Some (PublishFacts cancelled now) \<rparr>"

fun attribution_step ::
  "fact_config \<Rightarrow> ingest_env \<Rightarrow> (string \<Rightarrow> audit_event list option) \<Rightarrow> MemoryFactStream AuditHandlerConfig
    \<Rightarrow> attribution_op \<Rightarrow> attribution \<Rightarrow> attribution" where
  "attribution_step cfg env decode config (Serve cancelled now req) s =
     s\<lparr> at_stream := snd (snd (ServeHTTP env decode (memory_config config cancelled now) req (at_stream s))) \<rparr>"
| "attribution_step cfg env decode config (SetStreams now keys) s = s\<lparr> at_follow := follow_set now keys (at_follow s) \<rparr>"
| "attribution_step cfg env decode config (Follow t now) s =
     (case Next False (at_stream s) [] (at_follow s) of
        (None, f) \<Rightarrow> s\<lparr> at_follow := f \<rparr>
      | (Some d, f) \<Rightarrow> s\<lparr> at_follow := f, at_run := run_round cfg (map (\<lambda>e. (t, e)) (fd_Entries d), now) (at_run s) \<rparr>)"

definition at_index :: "attribution \<Rightarrow> FactIndex" where
  "at_index s = fst (fst (at_run s))"

text \<open>The facts of the requests served, with the event each was reduced from.\<close>

definition served_by ::
  "ingest_env \<Rightarrow> (string \<Rightarrow> audit_event list option) \<Rightarrow> MemoryFactStream AuditHandlerConfig \<Rightarrow> attribution_op
    \<Rightarrow> (FactStreamKey \<times> AuthorFact) set" where
  "served_by env decode config op =
     (case op of
        Serve cancelled now req \<Rightarrow>
          (case (resolveRoute config (hr_Path req), decode (hr_Body req)) of
             (Some route, Some events) \<Rightarrow> set (produced env (memory_config config cancelled now) route events)
           | _ \<Rightarrow> {})
      | _ \<Rightarrow> {})"

definition scoped :: "(FactStreamKey \<times> AuthorFact) set \<Rightarrow> history" where
  "scoped H = {(\<lparr> fsc_route = fk_AuditRoute k, fsc_groupResource = key_groupResource k \<rparr>, f, t) | k f t. (k, f) \<in> H}"

definition stream_ok :: "(FactStreamKey \<times> AuthorFact) set \<Rightarrow> MemoryFactStream \<Rightarrow> bool" where
  "stream_ok H m \<longleftrightarrow> (\<forall>(k, r) \<in> set (ms_streams m). \<forall>e \<in> set (mr_entries r). \<forall>f \<in> set (me_raw e). (k, f) \<in> H)"

definition attribution_inv :: "fact_config \<Rightarrow> (FactStreamKey \<times> AuthorFact) set \<Rightarrow> attribution \<Rightarrow> bool" where
  "attribution_inv cfg H s \<longleftrightarrow> stream_ok H (at_stream s) \<and> index_inv (at_index s) \<and> all_accounted cfg (scoped H) (at_index s)"

lemma accounted_mono: "accounted cfg H scope s \<Longrightarrow> H \<subseteq> H' \<Longrightarrow> accounted cfg H' scope s"
  unfolding accounted_def by blast

lemma attribution_inv_mono: "attribution_inv cfg H s \<Longrightarrow> H \<subseteq> H' \<Longrightarrow> attribution_inv cfg H' s"
  unfolding attribution_inv_def stream_ok_def all_accounted_def scoped_def
  by (blast intro: accounted_mono)

lemma ring_trim_sub: "set (mr_entries (ring_trim h n r)) \<subseteq> set (mr_entries r)"
  by (auto simp: ring_trim_def Let_def dest: in_set_dropD)

lemma ring_append_entries:
  "e \<in> set (mr_entries (ring_append raw now r)) \<Longrightarrow> e \<in> set (mr_entries r) \<or> me_raw e = raw"
  by (auto simp: ring_append_def Let_def split: if_splits)

lemma dropIdleRings_ok: "stream_ok H m \<Longrightarrow> stream_ok H (dropIdleRings now m)"
  unfolding stream_ok_def dropIdleRings_def using ring_trim_sub by fastforce

lemma PublishFacts_ok:
  assumes "stream_ok H m" and "\<forall>f \<in> set facts. (key, f) \<in> H"
  shows "stream_ok H (snd (PublishFacts cancelled now key facts m))"
proof -
  define ring where "ring = (case map_get (ms_streams m) key of None \<Rightarrow> empty_ring | Some r \<Rightarrow> r)"
  have "(key, f) \<in> H" if "e \<in> set (mr_entries ring)" "f \<in> set (me_raw e)" for e f
    using that assms(1) by (auto simp: ring_def empty_ring_def stream_ok_def split: option.splits dest!: map_of_SomeD)
  then have ring: "(key, f) \<in> H" if "e \<in> set (mr_entries (ring_trim h n (ring_append facts now ring)))" "f \<in> set (me_raw e)" for e f h n
    using that subsetD [OF ring_trim_sub] ring_append_entries assms(2) by metis
  have put: "p \<in> set (map_put key v mm) \<Longrightarrow> p = (key, v) \<or> p \<in> set mm" for p v and mm :: "(FactStreamKey, memFactRing) gomap"
    by (induction mm) (auto split: if_splits)
  have "stream_ok H (m\<lparr> ms_streams := map_put key (ring_trim h n (ring_append facts now ring)) (ms_streams m) \<rparr>)" for h n
    using assms(1) ring put unfolding stream_ok_def by fastforce
  then show ?thesis using assms(1) dropIdleRings_ok by (simp add: PublishFacts_def Let_def ring_def)
qed

lemma publish_order_ok:
  assumes "stream_ok H m" and "\<forall>key \<in> set keys. \<forall>fs. map_get facts key = Some fs \<longrightarrow> (\<forall>f \<in> set fs. (key, f) \<in> H)"
  shows "stream_ok H (snd (snd (publish_order (PublishFacts cancelled now) facts keys m)))"
  using assms
proof (induction keys arbitrary: m)
  case (Cons key keys)
  let ?fs = "case map_get facts key of None \<Rightarrow> [] | Some fs \<Rightarrow> fs"
  obtain b m' where p: "PublishFacts cancelled now key ?fs m = (b, m')" by (metis surj_pair)
  have "\<forall>f \<in> set ?fs. (key, f) \<in> H" using Cons.prems(2) by (cases "map_get facts key") auto
  from PublishFacts_ok [OF Cons.prems(1) this, of cancelled now] p have m': "stream_ok H m'" by simp
  from m' Cons.IH [OF m'] Cons.prems(2) p show ?case by (auto split: bool.split prod.splits)
qed simp

lemma processEvents_ok:
  assumes "stream_ok H m"
  shows "stream_ok (H \<union> set (produced env (memory_config config cancelled now) route events))
     (snd (snd (processEvents env (memory_config config cancelled now) route events m)))"
proof -
  let ?config = "memory_config config cancelled now"
  let ?kfs = "produced env ?config route events"
  let ?b = "fold kf_add ?kfs newFactStreamBatches"
  have pub: "ahc_FactPublisher ?config = Some (PublishFacts cancelled now)" by (simp add: memory_config_def)
  obtain appended ok m' where p: "publish_order (PublishFacts cancelled now) (fsb_facts ?b) (key_order ?kfs) m = (appended, ok, m')"
    by (metis surj_pair)
  have "\<forall>f \<in> set fs. (key, f) \<in> set ?kfs" if "map_get (fsb_facts ?b) key = Some fs" for key fs
    using that kf_batches [of ?kfs] by (auto simp: facts_for_def split: if_splits)
  moreover have "stream_ok (H \<union> set ?kfs) m" using assms unfolding stream_ok_def by blast
  ultimately have "stream_ok (H \<union> set ?kfs) m'" using publish_order_ok [of _ m "key_order ?kfs" "fsb_facts ?b" cancelled now] p
    by (metis UnI2 snd_conv)
  then show ?thesis using processEvents_form(2) [OF pub p] by simp
qed

lemma Serve_ok:
  assumes "stream_ok H m"
  shows "stream_ok (H \<union> served_by env decode config (Serve cancelled now req))
     (snd (snd (ServeHTTP env decode (memory_config config cancelled now) req m)))"
proof -
  have "resolveRoute (memory_config config cancelled now) p = resolveRoute config p" for p
    by (cases "auditRouteForPath p") (simp_all add: resolveRoute_def memory_config_def)
  then have *: "snd (snd (ServeHTTP env decode (memory_config config cancelled now) req m)) = m
      \<or> (\<exists>route events. resolveRoute config (hr_Path req) = Some route \<and> decode (hr_Body req) = Some events
           \<and> snd (snd (ServeHTTP env decode (memory_config config cancelled now) req m))
             = snd (snd (processEvents env (memory_config config cancelled now) route events m)))"
    by (auto simp: ServeHTTP_def split: option.split prod.split)
  moreover have "stream_ok (H \<union> X) m" for X using assms unfolding stream_ok_def by blast
  ultimately show ?thesis using processEvents_ok [OF assms] by (auto simp: served_by_def)
qed

lemma collect_ok:
  assumes "stream_ok H m" and "collect m f = (d, f')" and "e \<in> set (fd_Entries d)" and "g \<in> set (fe_Facts e)"
  shows "(fe_Key e, g) \<in> H"
proof -
  have ring: "(k, g) \<in> H" if "x \<in> set (fst (readRing k cursor m))" "g \<in> set (me_raw x)" for k cursor x g
  proof -
    from that(1) obtain r where "map_get (ms_streams m) k = Some r" "x \<in> set (mr_entries r)"
      by (auto simp: readRing_def ring_read_def split: option.splits list.splits if_splits dest!: in_set_takeD)
    then show ?thesis using assms(1) that(2) by (fastforce simp: stream_ok_def dest: map_of_SomeD)
  qed
  have dec: "(fe_Key e, g) \<in> H" if "e \<in> set (decoded k (fst (readRing k cursor m)))" "g \<in> set (fe_Facts e)" for e g k cursor
    using that ring by (auto simp: decoded_def decodeFactBatch_def split: option.splits if_splits)
  have one: "\<forall>e \<in> set (fd_Entries (fst (collect_one m target (d, f)))). e \<in> set (fd_Entries d)
      \<or> e \<in> set (decoded (ft_Key target) (fst (readRing (ft_Key target) (ft_Cursor target) m)))" for target d f
    by (auto simp: collect_one_def Let_def split: prod.splits option.splits if_splits)
  have "\<forall>e \<in> set (fd_Entries (fst (fold (collect_one m) ts (d, f)))). e \<in> set (fd_Entries d)
      \<or> (\<exists>k cursor. e \<in> set (decoded k (fst (readRing k cursor m))))" for ts d f
  proof (induction ts arbitrary: d f)
    case (Cons target ts)
    obtain d1 f1 where c: "collect_one m target (d, f) = (d1, f1)" by (metis surj_pair)
    then show ?case using one [of target d f] Cons.IH [of d1 f1] by fastforce
  qed simp
  from this [of "targets f" "\<lparr> fd_Entries = [], fd_Gaps = [] \<rparr>" f] assms(2,3)
  obtain k cursor where "e \<in> set (decoded k (fst (readRing k cursor m)))" by (auto simp: collect_def)
  then show ?thesis using dec assms(4) by blast
qed

lemma run_round_accounted:
  assumes "index_inv (fst (fst st))" and "all_accounted cfg (scoped H) (fst (fst st))"
    and "\<forall>(t, e) \<in> set delivery. \<forall>f \<in> set (fe_Facts e). (fe_Key e, f) \<in> H"
  shows "index_inv (fst (fst (run_round cfg (delivery, now) st)))
     \<and> all_accounted cfg (scoped H) (fst (fst (run_round cfg (delivery, now) st)))"
proof -
  let ?P = "\<lambda>(_ :: nat) i. index_inv i \<and> all_accounted cfg (scoped H) i"
  have "?P (0 + facts_of (fst (delivery, now))) (fst (fst (run_round cfg (delivery, now) st)))"
  proof (rule run_round_induct [where P = ?P])
    show "?P 0 (fst (fst st))" using assms(1,2) by simp
    show "?P n (snd (fx_Sweep t i))" if "?P n i" for n i t
      using that fx_Sweep_keeps fx_Sweep_accounted by blast
    show "?P (Suc n) (snd (store_fact cfg (entry_scope e) f (entryAppendTime (fe_ID e) t) i))"
      if "?P n i" "(t, e) \<in> set (fst (delivery, now))" "f \<in> set (fe_Facts e)" for n i t e f
    proof -
      have "(fe_Key e, f) \<in> H" using that(2,3) assms(3) by auto
      then have "(entry_scope e, f, entryAppendTime (fe_ID e) t) \<in> scoped H" by (auto simp: scoped_def entry_scope_def)
      then show ?thesis using that(1) store_fact_accounted store_fact_keeps by blast
    qed
  qed
  then show ?thesis .
qed

lemma attribution_step_inv:
  assumes "attribution_inv cfg H s"
  shows "attribution_inv cfg (H \<union> served_by env decode config op) (attribution_step cfg env decode config op s)"
proof (cases op)
  case (Serve cancelled now req)
  then show ?thesis using assms Serve_ok [of H "at_stream s" env decode config cancelled now req]
      attribution_inv_mono [OF assms, of "H \<union> served_by env decode config op"]
    by (auto simp: attribution_inv_def at_index_def)
next
  case (SetStreams now keys)
  then show ?thesis using assms by (simp add: attribution_inv_def at_index_def served_by_def)
next
  case (Follow t now)
  obtain d f where c: "collect (at_stream s) (at_follow s) = (d, f)" by (metis surj_pair)
  have "\<exists>d'. Next False (at_stream s) [] (at_follow s) = (Some d', f) \<and> set (fd_Entries d') \<subseteq> set (fd_Entries d)"
    by (auto simp: Next.simps c)
  then obtain d' where n: "Next False (at_stream s) [] (at_follow s) = (Some d', f)" "set (fd_Entries d') \<subseteq> set (fd_Entries d)"
    by blast
  have "\<forall>(t, e) \<in> set (map (\<lambda>e. (t, e)) (fd_Entries d')). \<forall>g \<in> set (fe_Facts e). (fe_Key e, g) \<in> H"
    using collect_ok [OF _ c] assms n(2) by (auto simp: attribution_inv_def)
  from run_round_accounted [OF _ _ this, of "at_run s" cfg now] assms n(1) Follow show ?thesis
    by (simp add: attribution_inv_def at_index_def served_by_def)
qed

definition attribution_start :: "MemoryFactStream \<Rightarrow> followSet \<Rightarrow> FactIndex \<Rightarrow> factWaiterRegistry \<Rightarrow> gotime \<Rightarrow> attribution" where
  "attribution_start m f i r now = \<lparr> at_stream = m, at_follow = f, at_run = ((i, r), now) \<rparr>"

fun attribution_states ::
  "fact_config \<Rightarrow> ingest_env \<Rightarrow> (string \<Rightarrow> audit_event list option) \<Rightarrow> MemoryFactStream AuditHandlerConfig
    \<Rightarrow> attribution_op list \<Rightarrow> attribution \<Rightarrow> attribution list" where
  "attribution_states cfg env decode config [] s = [s]"
| "attribution_states cfg env decode config (op # ops) s =
     s # attribution_states cfg env decode config ops (attribution_step cfg env decode config op s)"

lemma attribution_states_inv:
  assumes "attribution_inv cfg H s" and "s' \<in> set (attribution_states cfg env decode config ops s)"
  shows "attribution_inv cfg (H \<union> (\<Union>op \<in> set ops. served_by env decode config op)) s'"
  using assms
proof (induction ops arbitrary: H s)
  case (Cons op ops)
  let ?all = "H \<union> (\<Union>op \<in> set (op # ops). served_by env decode config op)"
  show ?case
  proof (cases "s' = s")
    case True
    then show ?thesis using attribution_inv_mono [OF Cons.prems(1), of ?all] by auto
  next
    case False
    with Cons.prems(2) have "s' \<in> set (attribution_states cfg env decode config ops (attribution_step cfg env decode config op s))"
      by simp
    from Cons.IH [OF attribution_step_inv [OF Cons.prems(1)] this] show ?thesis by (simp add: Un_assoc)
  qed
qed simp

lemma await_loop_reads:
  "await_loop q fallback signals = fallback \<or> (\<exists>(t, j) \<in> set signals. await_loop q fallback signals = Lookup q t j)"
  by (induction q fallback signals rule: await_loop.induct) (auto simp: await_read_def Let_def)

lemma Await_reads:
  assumes "ar_Result (Await q grace now i signals) \<noteq> AttributionAbsent"
  shows "\<exists>(t, j) \<in> insert (now, i) (set signals). Await q grace now i signals = Lookup q t j"
  using assms await_loop_reads [of q absent signals] await_loop_reads [of q "Lookup q now i" signals]
  by (auto simp: Await_def await_read_def Let_def absent_iff)

lemma produced_mem:
  "(key, f) \<in> set (produced env config route events) \<Longrightarrow>
     \<exists>e \<in> set events. \<exists>a. processEvent env config route e = Inr a \<and> acf_fact a = Some (key, f)"
  by (force simp: produced_def split: sum.splits option.splits)

lemma served_event:
  assumes "(key, f) \<in> served_by env decode config op"
  shows "\<exists>cancelled t req route events e. op = Serve cancelled t req \<and> resolveRoute config (hr_Path req) = Some route
     \<and> decode (hr_Body req) = Some events \<and> e \<in> set events \<and> real_mutation e \<and> af_Author f = effective_user e
     \<and> fk_AuditRoute key = event_route route e
     \<and> (\<exists>ref. ae_ObjectRef e = Some ref \<and> fk_Group key = obr_APIGroup ref \<and> fk_Resource key = obr_Resource ref)"
proof -
  obtain cancelled t req route events where o: "op = Serve cancelled t req" "resolveRoute config (hr_Path req) = Some route"
      "decode (hr_Body req) = Some events" "(key, f) \<in> set (produced env (memory_config config cancelled t) route events)"
    using assms by (auto simp: served_by_def split: attribution_op.splits option.splits)
  then obtain e a where e: "e \<in> set events" "processEvent env (memory_config config cancelled t) route e = Inr a" "acf_fact a = Some (key, f)"
    using produced_mem by blast
  from processEvent_fact [OF e(2,3)] o(1-3) e(1) show ?thesis by blast
qed

text \<open>
  C9: nobody is named who did not act. Take any run of the process with the in-process transport: audit
  requests served, streams followed and unfollowed, deliveries applied and swept, in any order; and a
  resolver that reads the index at any states of that run. When it names an author, some request of the run
  carried, on the audit route of the query, an event that the API server completed successfully and did not
  only try, on the type of the query, whose effective user is the author named; and the fact of that event is
  evidence for the watched object in the tier that answered. A user is named exactly when a fact was found.
\<close>

theorem author_named_acted:
  assumes states: "states = attribution_states cfg env decode config ops
      (attribution_start (NewMemoryFactStream ttl maxLen readCount) (newFollowSet now0 keys ttl)
         (NewFactIndex ttl maxPerType maxTotal window interval) r0 now0)"
    and reads: "i \<in> at_index ` set states" "list_all (\<lambda>(t, j). j \<in> at_index ` set states) signals"
    and resolve: "ResolveAuthor (Some (\<lambda>q g. Await q g now i signals)) grace query h = ((ui, oc), warn, h')"
  shows "(oc = AttributionResolved \<longleftrightarrow> ar_Result (Await (factQuery query) grace now i signals) \<noteq> AttributionAbsent)
     \<and> (oc = AttributionResolved \<longrightarrow>
         (\<exists>cancelled t req route events e ref f w now' at tier.
            Serve cancelled t req \<in> set ops \<and> resolveRoute config (hr_Path req) = Some route
            \<and> decode (hr_Body req) = Some events \<and> e \<in> set events
            \<and> real_mutation e \<and> effective_user e = ui_Username ui \<and> ui_Username ui \<noteq> []
            \<and> event_route route e = aq_AuditRoute query
            \<and> ae_ObjectRef e = Some ref
            \<and> groupResourceKey (obr_APIGroup ref) (obr_Resource ref) = groupResourceKey (aq_Group query) (aq_Resource query)
            \<and> af_Author f = effective_user e
            \<and> evidence cfg w (factQuery query) now' at (resolved tier f)))"
proof -
  let ?H = "\<Union>op \<in> set ops. served_by env decode config op" and ?q = "factQuery query"
  let ?r = "Await ?q grace now i signals"
  let ?start = "attribution_start (NewMemoryFactStream ttl maxLen readCount) (newFollowSet now0 keys ttl)
         (NewFactIndex ttl maxPerType maxTotal window interval) r0 now0"
  have "attribution_inv cfg {} ?start"
    using index_inv_start
    by (simp add: attribution_inv_def attribution_start_def stream_ok_def at_index_def all_accounted_def)
      (simp add: NewMemoryFactStream_def NewFactIndex_def)
  from attribution_states_inv [OF this] states
  have inv: "all_accounted cfg (scoped ?H) (at_index s)" if "s \<in> set states" for s
    using that by (auto simp: attribution_inv_def)
  have found: "\<exists>op \<in> set ops. \<exists>k now' at. (k, ar_Fact ?r) \<in> served_by env decode config op
      \<and> \<lparr> fsc_route = fk_AuditRoute k, fsc_groupResource = key_groupResource k \<rparr> = query_scope ?q
      \<and> (\<exists>w. evidence cfg w ?q now' at ?r)" if "ar_Result ?r \<noteq> AttributionAbsent"
  proof -
    from Await_reads [OF that] obtain t j where j: "(t, j) \<in> insert (now, i) (set signals)" "?r = Lookup ?q t j" by blast
    then have acc: "all_accounted cfg (scoped ?H) j" using reads inv by (auto simp: list_all_iff)
    from j(2) that obtain s where s: "map_get (fx_scopes j) (query_scope ?q) = Some s"
        "?r = lookup_scope (fx_collectionWindow j) s ?q t (t - fx_ttl j)"
      by (auto simp: Lookup_def absent_def split: option.splits)
    then have "accounted cfg (scoped ?H) (query_scope ?q) s" using acc by (simp add: all_accounted_def)
    from lookup_scope_backed [OF this, of "fx_collectionWindow j" ?q t "t - fx_ttl j"] that s(2)
    obtain at where "(query_scope ?q, ar_Fact ?r, at) \<in> scoped ?H" "evidence cfg (fx_collectionWindow j) ?q t at ?r"
      by (auto simp: backed_def)
    moreover from this(1) obtain k op where "op \<in> set ops" "(k, ar_Fact ?r) \<in> served_by env decode config op"
        "\<lparr> fsc_route = fk_AuditRoute k, fsc_groupResource = key_groupResource k \<rparr> = query_scope ?q"
      by (auto simp: scoped_def)
    ultimately show ?thesis by blast
  qed
  show ?thesis
  proof (cases "ar_Result ?r = AttributionAbsent")
    case True
    then show ?thesis using resolve by (auto simp: ResolveAuthor_def Let_def split: prod.splits)
  next
    case False
    obtain op k now' at w where op: "op \<in> set ops" "(k, ar_Fact ?r) \<in> served_by env decode config op"
        and scope: "\<lparr> fsc_route = fk_AuditRoute k, fsc_groupResource = key_groupResource k \<rparr> = query_scope ?q"
        and ev: "evidence cfg w ?q now' at ?r" using found [OF False] by blast
    obtain cancelled t req route events e ref where e: "op = Serve cancelled t req" "resolveRoute config (hr_Path req) = Some route"
        "decode (hr_Body req) = Some events" "e \<in> set events" "real_mutation e" "af_Author (ar_Fact ?r) = effective_user e"
        "fk_AuditRoute k = event_route route e" "ae_ObjectRef e = Some ref" "fk_Group k = obr_APIGroup ref" "fk_Resource k = obr_Resource ref"
      using served_event [OF op(2)] by blast
    have author: "effective_user e \<noteq> []" using e(5) by (simp add: real_mutation_def)
    then have "oc = AttributionResolved" "ui_Username ui = effective_user e"
      using resolve False e(6) by (auto simp: ResolveAuthor_def Let_def userInfoForResolution_def split: prod.splits)
    moreover have "event_route route e = aq_AuditRoute query"
        "groupResourceKey (obr_APIGroup ref) (obr_Resource ref) = groupResourceKey (aq_Group query) (aq_Resource query)"
      using scope e(7,9,10) by (auto simp: query_scope_def factQuery_def key_groupResource_def)
    moreover have "evidence cfg w ?q now' at (resolved (ar_Result ?r) (ar_Fact ?r))" using ev by (simp add: evidence_def)
    ultimately show ?thesis using False op(1) e author by metis
  qed
qed

section \<open>A run of the path\<close>

text \<open>Alice patches a config map; the API server posts the event, the index reads it, and the watch event asks.\<close>

definition ex_memory_handler :: "MemoryFactStream AuditHandlerConfig" where
  "ex_memory_handler = \<lparr> ahc_MaxRequestBodyBytes = 1000, ahc_FactPublisher = None, ahc_CollectionUIDCap = 0,
     ahc_AuditRouteAnnotationKey = [] \<rparr>"

definition ex_decode :: "string \<Rightarrow> audit_event list option" where
  "ex_decode body = (if body = ''batch'' then Some [ex_audit ''patch'' ''configmaps'' ''alice''] else None)"

definition ex_path_ops :: "attribution_op list" where
  "ex_path_ops = [Serve False (UnixMilli 5) \<lparr> hr_Method = ''POST'', hr_Path = ''/audit-webhook/prod'', hr_Body = ''batch'' \<rparr>,
     Follow (UnixMilli 6) (UnixMilli 6)]"

definition ex_path :: "attribution list" where
  "ex_path = attribution_states ex_fact_config ex_ingest_env ex_decode ex_memory_handler ex_path_ops
     (attribution_start (NewMemoryFactStream Second 0 0)
        (newFollowSet (UnixMilli 1) [\<lparr> fk_AuditRoute = ''prod'', fk_Group = [], fk_Resource = ''configmaps'' \<rparr>] Second)
        (NewFactIndex Second 0 0 0 0) ex_waiters (UnixMilli 1))"

definition ex_author_query :: AuthorQuery where
  "ex_author_query = \<lparr> aq_AuditRoute = ''prod'', aq_Group = [], aq_Version = ''v1'', aq_Resource = ''configmaps'', aq_UID = ''u1'',
     aq_ResourceVersion = ''12'', aq_Namespace = ''shop'', aq_Labels = [], aq_Name = ''cart'', aq_ExactCapable = True \<rparr>"

lemma ex_path_resolves:
  "(\<lambda>i. let r = Await (factQuery ex_author_query) 0 (UnixMilli 7) i [] in (ar_Result r, af_Author (ar_Fact r)))
     (at_index (last ex_path)) = (AttributionExact, ''alice'')"
  by code_simp

theorem author_named_acted_witness:
  "\<exists>e. effective_user e = ''alice'' \<and> real_mutation e \<and> e \<in> set [ex_audit ''patch'' ''configmaps'' ''alice'']"
proof -
  define i where "i = at_index (last ex_path)"
  let ?r = "Await (factQuery ex_author_query) 0 (UnixMilli 7) i []"
  have r: "ar_Result ?r = AttributionExact" "af_Author (ar_Fact ?r) = ''alice''"
    using ex_path_resolves by (simp_all add: i_def Let_def)
  have mem: "i \<in> at_index ` set ex_path"
    by (simp add: i_def ex_path_def ex_path_ops_def)
  obtain ui oc warn h' where res: "ResolveAuthor (Some (\<lambda>q g. Await q g (UnixMilli 7) i [])) 0 ex_author_query health0 = ((ui, oc), warn, h')"
    by (metis surj_pair)
  then have ui: "ui_Username ui = ''alice''" "oc = AttributionResolved"
    using r by (auto simp: ResolveAuthor_def userInfoForResolution_def Let_def)
  have decode: "events = [ex_audit ''patch'' ''configmaps'' ''alice'']" if "ex_decode b = Some events" for b events
    using that by (auto simp: ex_decode_def split: if_splits)
  from author_named_acted [OF ex_path_def mem _ res] ui
  obtain b events e where "ex_decode b = Some events" "e \<in> set events" "real_mutation e" "effective_user e = ''alice''" by auto
  then have "real_mutation e \<and> effective_user e = ''alice'' \<and> e \<in> set [ex_audit ''patch'' ''configmaps'' ''alice'']"
    using decode by blast
  then show ?thesis by blast
qed

end
