(* ===== verification/Spec2Isabelle.thy ===== *)
theory Spec2Isabelle
  imports Type_Materializer Rule_Compile Worker_Properties Author_Attribution
begin

text \<open>
  GitOps Reverser watches Kubernetes API servers and writes what it sees to Git: who may mirror which
  namespace of which cluster is declared in custom resources, the types worth following are found by
  discovery, watch events become commits on a branch, and audit events say whose commits they are. This
  development models the code that decides, and proves what it decides.

  \<^bold>\<open>Parts of the program and how they interact.\<close>
  The API server's discovery fills the \<^emph>\<open>type registry\<close>; it says which types can be followed, and the
  \<^emph>\<open>materializer\<close> tracks which GitTargets claim them. A WatchRule asks for types in namespaces of a source
  cluster; \<^emph>\<open>authorization\<close> decides, against the GitTarget's policy and the labels the \<^emph>\<open>source-scope service\<close>
  has listed, what it may have; the \<^emph>\<open>gated compilation\<close> stores the admitted rule in the \<^emph>\<open>rule store\<close>. Events
  are queued to the \<^emph>\<open>branch worker\<close> of their provider and branch, which collects them in a \<^emph>\<open>commit window\<close>,
  turns the window into a \<^emph>\<open>pending write\<close>, commits, pushes and replays; the \<^emph>\<open>render fidelity gate\<close> closes a
  target whose rendered folder disagrees with the cluster, and the \<^emph>\<open>path rules\<close> keep two targets out of one
  folder. Beside this, the \<^emph>\<open>audit webhook\<close> reduces audit events to facts, the \<^emph>\<open>fact stream\<close> carries them,
  the \<^emph>\<open>fact index\<close> files them, and the \<^emph>\<open>author resolver\<close> joins a watch event to the fact about it.

  \<^bold>\<open>Theories and sources\<close> (paths below \<open>src/\<close>).
  \<^item> \<open>Go_Base\<close>: the prelude; the parts of Go's \<open>strings\<close>, \<open>path\<close>, \<open>strconv\<close> and \<open>time\<close> that the sources use,
    Go maps as association lists, and the locales \<open>keyed_store\<close>, \<open>state_machine\<close> and \<open>machine_refinement\<close>.
  \<^item> \<open>Resource_Identity\<close>: \<open>internal/types\<close>. \<open>Api_Types\<close>: the deciding methods of \<open>api/v1alpha3\<close>.
  \<^item> \<open>Type_Funnel\<close>, \<open>Type_Registry\<close>, \<open>Type_Materializer\<close>: \<open>internal/typeset\<close>; a \<open>Registry\<close> and a \<open>Materializer\<close> are
    the records of those names, every method one function.
  \<^item> \<open>Rule_Store\<close>: \<open>internal/rulestore/store.go\<close>. \<open>Source_Authz\<close>: \<open>internal/authz\<close>, with the contract of a
    \<open>SourceNamespaceResolver\<close> as the locale \<open>source_resolver\<close>. \<open>Source_Scope\<close>: \<open>source_namespace_scope.go\<close> and the
    capture of clusters of \<open>internal/watch\<close>, interpreted as such a resolver. \<open>Rule_Compile\<close>:
    \<open>watchrule_compile.go\<close>, \<open>bootstrap.go\<close> and the removal of deleted rules; \<open>plane_step\<close> runs them.
  \<^item> \<open>Git_Path\<close>: the path functions of \<open>internal/git/git.go\<close> and the conflict check of
    \<open>internal/controller\<close>. \<open>Fidelity_Gate\<close>: \<open>internal/git/render_fidelity_gate.go\<close>.
  \<^item> \<open>Commit_Window\<close>, \<open>Pending_Write\<close>, \<open>Branch_Worker\<close>: \<open>internal/git\<close> (\<open>open_window.go\<close>,
    \<open>commit_request_attach.go\<close>, \<open>types.go\<close>; \<open>pending_writes.go\<close>, \<open>commit_executor.go\<close>, \<open>commit.go\<close>;
    \<open>branch_worker.go\<close>, \<open>commit_request_attach_loop.go\<close>, \<open>resync_flush.go\<close>). The state is the record
    \<open>branchWorkerEventLoop\<close>; \<open>worker_step\<close> is an enqueue, one turn of the loop on any enabled channel, or the
    shutdown. \<open>Worker_Invariant\<close> and \<open>Worker_Properties\<close> hold its invariant and its properties.
  \<^item> \<open>Fact_Store\<close>, \<open>Fact_Stream\<close>, \<open>Fact_Index\<close>: \<open>internal/queue\<close> (\<open>author_fact.go\<close>, \<open>fact_index_store.go\<close>;
    \<open>fact_stream.go\<close>, \<open>fact_stream_memory.go\<close>, \<open>fact_streams.go\<close>; \<open>fact_index.go\<close>, \<open>fact_waiters.go\<close>). \<open>Fact_Join\<close> and
    \<open>Fact_Waiting\<close> hold what the index does over a run and beside a waiting resolver. \<open>Audit_Ingest\<close>:
    \<open>internal/webhook/audit_handler.go\<close>, \<open>internal/auditutil\<close>, \<open>internal/audit/outcome\<close>. \<open>Author_Attribution\<close>:
    \<open>internal/watch/author_resolver.go\<close> and the whole attribution path composed (\<open>attribution_step\<close>).

  \<^bold>\<open>How code becomes definitions.\<close> A struct is a record, its fields prefixed; an enumeration is a datatype; a
  map is an association list whose order stands for the iteration order; an error is the left side of a sum;
  a mutex makes its operation one step; a channel is the list it buffers; a clock reading is an argument.
  Generation, epoch and revision counters are 64-bit words, and wrap.

  \<^bold>\<open>What the lemmas show.\<close>
  \<^item> Authorization: the namespaces a rule is given are exactly those its policy entitles it to, a refresh that
    reports no change changes no answer, the compiled rules and the remembered grants agree in every run, and
    an event that matches a stored rule was authorized by an earlier compilation.
  \<^item> Types: the registry's indexes and entries agree in every run, an absent type is held for its grace and
    then dropped, a failed discovery drops nothing, activations wait for the settle window, and the
    materializer's phases respect their invariant.
  \<^item> Rules: the store refines the history of its writes and matches exactly what the selectors say.
  \<^item> Commits: a commit speaks for one author, a window is bounded in bytes and time, a CommitRequest rides a
    window of its own author and is reported as committed only by the push that carried it, a heal never
    closes a window, a replay obeys the old and the new deletion policy, and the last write of a path wins.
  \<^item> Folders: the overlap check is exactly shared files, so at most one target owns a file; an epoch of the
    fidelity gate opens exactly when all its scopes are clean.
  \<^item> Attribution: ingestion publishes exactly the facts of the accepted events, the transport delivers what it
    retains in order, the index is bounded and answers only with evidence that was delivered, a deletion
    sticks, no waiter misses the fact it waits for, and nobody is named who did not act.
  \<^item> The findings are theorems too: where the code does not do what its comments say, the theorem states what
    it does, for all inputs of that shape, and its witness is a concrete run.

  \<^bold>\<open>Parameters.\<close> Code outside the repository is an argument of the definitions that call it:
  \<open>GroupVersionResource.String\<close> (\<open>gs\<close>), \<open>LabelSelectorAsSelector\<close> and \<open>IsDNS1123Label\<close> (\<open>apimachinery\<close>), label and
  time parsing and the JSON parser (\<open>fact_config\<close>, \<open>ingest_env\<close>), and for a worker the repository, the remote, the
  API server, the templates, the YAML encoder and the clock (\<open>worker_env\<close>), each of whose fields may answer
  anything at every call. Where a theorem needs a fact about a parameter it is a hypothesis.

  \<^bold>\<open>Termination.\<close> No definition carries fuel. The loops that enforce the caps of the fact index recurse on the
  number of entries, with their termination proofs; the retries of the push loop recurse on the attempts the
  code allows; every other loop is over a list. The unending loops are step functions, and their properties
  are about every finite run.

  \<^bold>\<open>Not modelled.\<close> The worktree planning and flush, the manifest analysis and the sanitizer work on YAML text and
  on kustomize renders; a worker sees them through \<open>worker_env\<close>. The Git transport, signing, encryption, the
  Redis transport, discovery and the informers are clients of other programs. The reconcilers beyond the
  conflict check and the removal of rules write status conditions. Log lines, metrics and the prose of
  messages decide nothing. Generated deep copies are the identity on values.
\<close>

end
